(* ===== verification/Prelude.thy ===== *)
theory Prelude
  imports Main "HOL-Library.Word"
begin

text \<open>
  Shared ground of the development: the machine types of inc/types.h, the result type that
  carries panics and bad pointer accesses as values, byte-addressed memory with the
  little-endian 32-bit accesses the kernel makes through its pointers, and the generic lemmas
  and fact collections the component theories use.
\<close>

unbundle bit_operations_syntax

section \<open>Machine types\<close>

type_synonym u8 = "8 word"
type_synonym u16 = "16 word"
type_synonym u32 = "32 word"
type_synonym u64 = "64 word"

text \<open>Collections: the constants of the headers, and the facts about physical words.\<close>

named_theorems jos_consts
named_theorems pword_simps

section \<open>Results: values, panics and wild accesses\<close>

text \<open>
  The kernel has several ways not to go on: \<open>panic\<close> (kern/init.c), which never returns, an
  access through a null pointer, an access through a pointer that is outside the object it
  should point into, a \<open>va_arg\<close> that does not match the argument passed, and a loop that never
  ends. Each is a value of \<open>fault\<close>; a function that can do one of them returns \<open>Inl\<close> of it, and
  \<open>Inr\<close> of its result otherwise.
\<close>

datatype fault = Panic string | NullDeref | WildPtr | BadArg | NoReturn

type_synonym 'a result = "fault + 'a"

definition bindR :: "'a result \<Rightarrow> ('a \<Rightarrow> 'b result) \<Rightarrow> 'b result" where
  "bindR m f = (case m of Inl e \<Rightarrow> Inl e | Inr x \<Rightarrow> f x)"

definition assertR :: "bool \<Rightarrow> string \<Rightarrow> 'a result \<Rightarrow> 'a result" where
  "assertR b msg k = (if b then k else Inl (Panic msg))"

text \<open>The result of a loop that may not end.\<close>

definition returns :: "'a option \<Rightarrow> 'a result" where
  "returns x = (case x of None \<Rightarrow> Inl NoReturn | Some y \<Rightarrow> Inr y)"

lemma returns_simps [simp]: "returns None = Inl NoReturn" "returns (Some y) = Inr y"
  by (simp_all add: returns_def)

definition joinR :: "'a result option \<Rightarrow> 'a result" where
  "joinR x = (case x of None \<Rightarrow> Inl NoReturn | Some r \<Rightarrow> r)"

lemma joinR_simps [simp]: "joinR None = Inl NoReturn" "joinR (Some r) = r"
  by (simp_all add: joinR_def)

lemma bindR_simps [simp]: "bindR (Inl e) f = Inl e" "bindR (Inr x) f = f x"
  by (simp_all add: bindR_def)

lemma bindR_eq_Inr: "bindR m f = Inr y \<longleftrightarrow> (\<exists>x. m = Inr x \<and> f x = Inr y)"
  by (cases m) simp_all

lemma bindR_assoc: "bindR (bindR m f) g = bindR m (\<lambda>x. bindR (f x) g)"
  by (cases m) simp_all

lemma bindR_cong [fundef_cong]:
  "m = m' \<Longrightarrow> (\<And>x. m' = Inr x \<Longrightarrow> f x = f' x) \<Longrightarrow> bindR m f = bindR m' f'"
  by (cases m') simp_all

lemma assertR_True [simp]: "assertR True msg k = k"
  by (simp add: assertR_def)

lemma assertR_eq_Inr: "assertR b msg k = Inr y \<longleftrightarrow> b \<and> k = Inr y"
  by (simp add: assertR_def)

text \<open>The bytes of a string literal.\<close>

definition bytes :: "string \<Rightarrow> u8 list" where
  "bytes = map of_char"

section \<open>Memory\<close>

text \<open>
  Memory is a total map from addresses to bytes. A 32-bit access reads or writes the four bytes
  from its address on, the least significant first.
\<close>

type_synonym memory = "u32 \<Rightarrow> u8"

definition ld32 :: "memory \<Rightarrow> u32 \<Rightarrow> u32" where
  "ld32 m a = ucast (m a) OR push_bit 8 (ucast (m (a + 1)))
     OR push_bit 16 (ucast (m (a + 2))) OR push_bit 24 (ucast (m (a + 3)))"

definition st32 :: "memory \<Rightarrow> u32 \<Rightarrow> u32 \<Rightarrow> memory" where
  "st32 m a v = m(a := ucast v, a + 1 := ucast (drop_bit 8 v),
     a + 2 := ucast (drop_bit 16 v), a + 3 := ucast (drop_bit 24 v))"

text \<open>Words stored one after the other.\<close>

fun store_words :: "memory \<Rightarrow> u32 \<Rightarrow> u32 list \<Rightarrow> memory" where
  "store_words m a [] = m"
| "store_words m a (w # ws) = store_words (st32 m a w) (a + 4) ws"

lemma word32_bytes:
  "(ucast (ucast (v :: u32) :: u8) :: u32) OR push_bit 8 (ucast (ucast (drop_bit 8 v) :: u8))
    OR push_bit 16 (ucast (ucast (drop_bit 16 v) :: u8))
    OR push_bit 24 (ucast (ucast (drop_bit 24 v) :: u8)) = v"
proof (rule bit_word_eqI)
  fix n assume "n < LENGTH(32)"
  then show "bit ((ucast (ucast v :: u8) :: u32) OR push_bit 8 (ucast (ucast (drop_bit 8 v) :: u8))
    OR push_bit 16 (ucast (ucast (drop_bit 16 v) :: u8))
    OR push_bit 24 (ucast (ucast (drop_bit 24 v) :: u8))) n = bit v n"
    by (cases "n < 8"; cases "n < 16"; cases "n < 24") (auto simp: bit_simps)
qed

lemma ld32_st32_same [simp]: "ld32 (st32 m a v) a = v"
proof -
  have ne: "a + 1 \<noteq> a" "a + 2 \<noteq> a" "a + 3 \<noteq> a" "a + 2 \<noteq> a + 1" "a + 3 \<noteq> a + 1" "a + 3 \<noteq> a + 2"
    by simp_all
  show ?thesis
    using word32_bytes [of v] by (simp add: ld32_def st32_def)
qed

lemma unat32_bound: "unat (a :: u32) < 2 ^ 32"
  using unsigned_less [of a] by simp

lemma sint_small: "unat (n :: u32) < 2 ^ 31 \<Longrightarrow> sint n = int (unat n)"
proof -
  assume "unat n < 2 ^ 31"
  then have "int (unat n) < int (2 ^ 31)" by (simp only: of_nat_less_iff)
  moreover have "- (2 ^ 31) \<le> uint n" by (rule order_trans [OF _ uint_ge_0]) simp
  ultimately show ?thesis by (simp add: sint_uint signed_take_bit_int_eq_self)
qed

lemma unat_Suc: "(i :: u32) < j \<Longrightarrow> unat (i + 1) = unat i + 1"
  using unat32_bound [of j] by (simp add: word_less_nat_alt unat_word_ariths)

lemma measure_unat2: "(a :: u32) \<noteq> 1 \<Longrightarrow> unat (a - 2) < unat (a - 1)"
  using measure_unat [of "a - 1"] by simp

lemma less_diff_suc: "(i :: u32) < j \<Longrightarrow> unat j - unat (i + 1) < unat j - unat i"
  by (simp add: unat_Suc word_less_nat_alt)

lemma unat_add_small:
  "unat (a :: u32) mod 4 = 0 \<Longrightarrow> i < 4 \<Longrightarrow> unat (a + word_of_nat i) = unat a + i"
proof -
  assume a: "unat a mod 4 = 0" "i < 4"
  have b: "unat a < 2 ^ 32" using unsigned_less [of a] by simp
  have "unat (word_of_nat i :: u32) = i" using a(2) by (simp add: unsigned_of_nat take_bit_nat_eq_self)
  moreover have "unat a + i < 2 ^ 32" using a b by simp presburger
  ultimately show ?thesis by (simp add: unat_word_ariths)
qed

lemma ld32_st32_other:
  assumes "unat a mod 4 = 0" "unat b mod 4 = 0" "a \<noteq> b"
  shows "ld32 (st32 m a v) b = ld32 m b"
proof -
  have *: "b + word_of_nat j \<noteq> a + word_of_nat i" if "i < 4" "j < 4" for i j
  proof
    assume "b + word_of_nat j = a + word_of_nat i"
    then have "unat (b + word_of_nat j) = unat (a + word_of_nat i)" by simp
    then have "unat b + j = unat a + i"
      using unat_add_small [OF assms(1) that(1)] unat_add_small [OF assms(2) that(2)] by simp
    then have "unat a = unat b" using assms(1,2) that by presburger
    then show False using assms(3) word_unat_eq_iff by blast
  qed
  have "b \<noteq> a" "b \<noteq> a + 1" "b \<noteq> a + 2" "b \<noteq> a + 3"
    "b + 1 \<noteq> a" "b + 1 \<noteq> a + 1" "b + 1 \<noteq> a + 2" "b + 1 \<noteq> a + 3"
    "b + 2 \<noteq> a" "b + 2 \<noteq> a + 1" "b + 2 \<noteq> a + 2" "b + 2 \<noteq> a + 3"
    "b + 3 \<noteq> a" "b + 3 \<noteq> a + 1" "b + 3 \<noteq> a + 2" "b + 3 \<noteq> a + 3"
    using * [of 0 0] * [of 1 0] * [of 2 0] * [of 3 0] * [of 0 1] * [of 1 1] * [of 2 1] * [of 3 1]
      * [of 0 2] * [of 1 2] * [of 2 2] * [of 3 2] * [of 0 3] * [of 1 3] * [of 2 3] * [of 3 3]
    by simp_all
  then show ?thesis by (simp add: ld32_def st32_def)
qed

end
