(* ===== verification/Mmu.thy ===== *)
theory Mmu
  imports Prelude
begin

text \<open>
  inc/mmu.h, inc/memlayout.h and the rounding macros of inc/types.h: the decomposition of a
  linear address, the flags of page table entries, the layout of the virtual address space, and
  the descriptors the segmentation macros build. The lemmas give the meaning of each macro on
  numbers: which bits it takes, that decomposing and recomposing an address is the identity, and
  that a descriptor read back the way the processor reads it yields the arguments of the macro.
\<close>

section \<open>Rounding (inc/types.h)\<close>

definition ROUNDDOWN :: "u32 \<Rightarrow> u32 \<Rightarrow> u32" where
  "ROUNDDOWN a n = a - a mod n"

definition ROUNDUP :: "u32 \<Rightarrow> u32 \<Rightarrow> u32" where
  "ROUNDUP a n = ROUNDDOWN (a + n - 1) n"

section \<open>Linear addresses (inc/mmu.h, part 1)\<close>

definition PTXSHIFT :: nat where [jos_consts]: "PTXSHIFT = 12"
definition PDXSHIFT :: nat where [jos_consts]: "PDXSHIFT = 22"
definition PGSHIFT :: nat where [jos_consts]: "PGSHIFT = 12"
definition NPDENTRIES :: u32 where [jos_consts]: "NPDENTRIES = 1024"
definition NPTENTRIES :: u32 where [jos_consts]: "NPTENTRIES = 1024"
definition PGSIZE :: u32 where [jos_consts]: "PGSIZE = 4096"
definition PTSIZE :: u32 where [jos_consts]: "PTSIZE = PGSIZE * NPTENTRIES"

definition PGNUM :: "u32 \<Rightarrow> u32" where
  "PGNUM la = drop_bit PTXSHIFT la"

definition PDX :: "u32 \<Rightarrow> u32" where
  "PDX la = drop_bit PDXSHIFT la AND 0x3FF"

definition PTX :: "u32 \<Rightarrow> u32" where
  "PTX la = drop_bit PTXSHIFT la AND 0x3FF"

definition PGOFF :: "u32 \<Rightarrow> u32" where
  "PGOFF la = la AND 0xFFF"

definition PGADDR :: "u32 \<Rightarrow> u32 \<Rightarrow> u32 \<Rightarrow> u32" where
  "PGADDR d t f = push_bit PDXSHIFT d OR push_bit PTXSHIFT t OR f"

text \<open>Page table and directory entry flags.\<close>

definition PTE_P :: u32 where [jos_consts]: "PTE_P = 0x001"
definition PTE_W :: u32 where [jos_consts]: "PTE_W = 0x002"
definition PTE_U :: u32 where [jos_consts]: "PTE_U = 0x004"

definition PTE_ADDR :: "u32 \<Rightarrow> u32" where
  "PTE_ADDR pte = pte AND NOT 0xFFF"

section \<open>The virtual memory map (inc/memlayout.h)\<close>

definition KERNBASE :: u32 where [jos_consts]: "KERNBASE = 0xF0000000"
definition IOPHYSMEM :: u32 where [jos_consts]: "IOPHYSMEM = 0x0A0000"
definition EXTPHYSMEM :: u32 where [jos_consts]: "EXTPHYSMEM = 0x100000"
definition KSTACKTOP :: u32 where [jos_consts]: "KSTACKTOP = KERNBASE"
definition KSTKSIZE :: u32 where [jos_consts]: "KSTKSIZE = 8 * PGSIZE"
definition KSTKGAP :: u32 where [jos_consts]: "KSTKGAP = 8 * PGSIZE"
definition MMIOLIM :: u32 where [jos_consts]: "MMIOLIM = KSTACKTOP - PTSIZE"
definition MMIOBASE :: u32 where [jos_consts]: "MMIOBASE = MMIOLIM - PTSIZE"
definition ULIM :: u32 where [jos_consts]: "ULIM = MMIOBASE"
definition UVPT :: u32 where [jos_consts]: "UVPT = ULIM - PTSIZE"
definition UPAGES :: u32 where [jos_consts]: "UPAGES = UVPT - PTSIZE"
definition UENVS :: u32 where [jos_consts]: "UENVS = UPAGES - PTSIZE"
definition UTOP :: u32 where [jos_consts]: "UTOP = UENVS"
definition UXSTACKTOP :: u32 where [jos_consts]: "UXSTACKTOP = UTOP"
definition USTACKTOP :: u32 where [jos_consts]: "USTACKTOP = UTOP - 2 * PGSIZE"
definition UTEXT :: u32 where [jos_consts]: "UTEXT = 2 * PTSIZE"
definition UTEMP :: u32 where [jos_consts]: "UTEMP = PTSIZE"
definition PFTEMP :: u32 where [jos_consts]: "PFTEMP = UTEMP + PTSIZE - PGSIZE"
definition USTABDATA :: u32 where [jos_consts]: "USTABDATA = PTSIZE div 2"

section \<open>Segment and gate descriptors (inc/mmu.h, parts 2 and 3)\<close>

record Segdesc =
  sd_lim_15_0 :: "16 word"
  sd_base_15_0 :: "16 word"
  sd_base_23_16 :: "8 word"
  sd_type :: "4 word"
  sd_s :: "1 word"
  sd_dpl :: "2 word"
  sd_p :: "1 word"
  sd_lim_19_16 :: "4 word"
  sd_avl :: "1 word"
  sd_rsv1 :: "1 word"
  sd_db :: "1 word"
  sd_g :: "1 word"
  sd_base_31_24 :: "8 word"

definition SEG :: "u32 \<Rightarrow> u32 \<Rightarrow> u32 \<Rightarrow> u32 \<Rightarrow> Segdesc" where
  "SEG type base lim dpl = \<lparr>
     sd_lim_15_0 = ucast (drop_bit 12 lim AND 0xffff), sd_base_15_0 = ucast (base AND 0xffff),
     sd_base_23_16 = ucast (drop_bit 16 base AND 0xff), sd_type = ucast type, sd_s = 1,
     sd_dpl = ucast dpl, sd_p = 1, sd_lim_19_16 = ucast (drop_bit 28 lim), sd_avl = 0,
     sd_rsv1 = 0, sd_db = 1, sd_g = 1, sd_base_31_24 = ucast (drop_bit 24 base)\<rparr>"

definition SEG16 :: "u32 \<Rightarrow> u32 \<Rightarrow> u32 \<Rightarrow> u32 \<Rightarrow> Segdesc" where
  "SEG16 type base lim dpl = \<lparr>
     sd_lim_15_0 = ucast (lim AND 0xffff), sd_base_15_0 = ucast (base AND 0xffff),
     sd_base_23_16 = ucast (drop_bit 16 base AND 0xff), sd_type = ucast type, sd_s = 1,
     sd_dpl = ucast dpl, sd_p = 1, sd_lim_19_16 = ucast (drop_bit 16 lim), sd_avl = 0,
     sd_rsv1 = 0, sd_db = 1, sd_g = 0, sd_base_31_24 = ucast (drop_bit 24 base)\<rparr>"

record Gatedesc =
  gd_off_15_0 :: "16 word"
  gd_sel :: "16 word"
  gd_args :: "5 word"
  gd_rsv1 :: "3 word"
  gd_type :: "4 word"
  gd_s :: "1 word"
  gd_dpl :: "2 word"
  gd_p :: "1 word"
  gd_off_31_16 :: "16 word"

definition STS_CG32 :: u32 where [jos_consts]: "STS_CG32 = 0xC"
definition STS_IG32 :: u32 where [jos_consts]: "STS_IG32 = 0xE"
definition STS_TG32 :: u32 where [jos_consts]: "STS_TG32 = 0xF"

definition SETGATE :: "bool \<Rightarrow> u32 \<Rightarrow> u32 \<Rightarrow> u32 \<Rightarrow> Gatedesc" where
  "SETGATE istrap sel off dpl = \<lparr>
     gd_off_15_0 = ucast (off AND 0xffff), gd_sel = ucast sel, gd_args = 0, gd_rsv1 = 0,
     gd_type = ucast (if istrap then STS_TG32 else STS_IG32), gd_s = 0, gd_dpl = ucast dpl,
     gd_p = 1, gd_off_31_16 = ucast (drop_bit 16 off)\<rparr>"

definition SETCALLGATE :: "u32 \<Rightarrow> u32 \<Rightarrow> u32 \<Rightarrow> Gatedesc" where
  "SETCALLGATE sel off dpl = \<lparr>
     gd_off_15_0 = ucast (off AND 0xffff), gd_sel = ucast sel, gd_args = 0, gd_rsv1 = 0,
     gd_type = ucast STS_CG32, gd_s = 0, gd_dpl = ucast dpl,
     gd_p = 1, gd_off_31_16 = ucast (drop_bit 16 off)\<rparr>"

text \<open>
  How the processor reads a descriptor back: the base and the offset are reassembled from their
  fields; the 20-bit limit counts bytes, or 4K units whose last byte is included when \<open>sd_g\<close>
  is set.
\<close>

definition seg_base :: "Segdesc \<Rightarrow> u32" where
  "seg_base d = ucast (sd_base_15_0 d) OR push_bit 16 (ucast (sd_base_23_16 d))
     OR push_bit 24 (ucast (sd_base_31_24 d))"

definition seg_limit :: "Segdesc \<Rightarrow> u32" where
  "seg_limit d =
     (let raw = ucast (sd_lim_15_0 d) OR push_bit 16 (ucast (sd_lim_19_16 d))
      in if sd_g d = 1 then push_bit 12 raw OR 0xFFF else raw)"

definition gate_offset :: "Gatedesc \<Rightarrow> u32" where
  "gate_offset g = ucast (gd_off_15_0 g) OR push_bit 16 (ucast (gd_off_31_16 g))"

section \<open>Lemmas\<close>

lemma mask_consts: "(0x3FF :: u32) = mask 10" "(0xFFF :: u32) = mask 12"
  "(0xFFFF :: u32) = mask 16" "(0xFF :: u32) = mask 8"
  by (simp_all add: mask_eq_exp_minus_1)

text \<open>The rounding macros on numbers, for sums that stay within 32 bits.\<close>

lemma unat_ROUNDDOWN: "unat (ROUNDDOWN a n) = unat a div unat n * unat n"
proof -
  have "a mod n \<le> a" by (simp add: word_le_nat_alt unat_mod)
  then have "unat (a - a mod n) = unat a - unat a mod unat n" by (simp add: unat_sub unat_mod)
  then show ?thesis by (simp add: ROUNDDOWN_def minus_mod_eq_div_mult)
qed

lemma unat_ROUNDUP:
  assumes "n \<noteq> 0" "unat a + unat n \<le> 2 ^ 32"
  shows "unat (ROUNDUP a n) = (unat a + unat n - 1) div unat n * unat n"
proof -
  have n: "0 < unat n" using assms(1) by (simp add: unat_gt_0)
  have "unat (a + n - 1) = unat a + unat n - 1"
  proof (cases "unat a + unat n = 2 ^ 32")
    case True
    then have "a + n = 0" by (simp add: word_unat_eq_iff unat_word_ariths)
    then have "a + n - 1 = - 1" by simp
    then show ?thesis using True by (simp add: unsigned_minus_1_eq_mask mask_eq_exp_minus_1)
  next
    case False
    then have s: "unat (a + n) = unat a + unat n" using assms(2) by (simp add: unat_word_ariths)
    then have "a + n \<noteq> 0" using n by auto
    then show ?thesis using s by (simp add: unat_minus_one)
  qed
  then show ?thesis by (simp add: ROUNDUP_def unat_ROUNDDOWN)
qed

lemma unat_PGNUM: "unat (PGNUM la) = unat la div 2 ^ 12"
  by (simp add: PGNUM_def PTXSHIFT_def drop_bit_eq_div unat_div)

lemma unat_PDX: "unat (PDX la) = unat la div 2 ^ 22"
proof -
  have "unat la < 2 ^ 32" using unsigned_less [of la] by simp
  then have "unat la div 2 ^ 22 < 1024" by (simp add: div_less_iff_less_mult)
  then show ?thesis
    by (simp add: PDX_def PDXSHIFT_def mask_consts take_bit_eq_mask [symmetric]
        drop_bit_eq_div take_bit_eq_mod unat_div unat_mod)
qed

lemma unat_PTX: "unat (PTX la) = unat la div 2 ^ 12 mod 1024"
  by (simp add: PTX_def PTXSHIFT_def mask_consts take_bit_eq_mask [symmetric]
      drop_bit_eq_div take_bit_eq_mod unat_div unat_mod)

lemma unat_PGOFF: "unat (PGOFF la) = unat la mod 4096"
  by (simp add: PGOFF_def mask_consts take_bit_eq_mask [symmetric]
      take_bit_eq_mod unat_mod)

lemma PDX_less: "unat (PDX la) < 1024"
  using unsigned_less [of la] by (simp add: unat_PDX div_less_iff_less_mult)

lemma PTX_less: "unat (PTX la) < 1024"
  by (simp add: unat_PTX)

lemma PGNUM_split: "unat (PGNUM la) = unat (PDX la) * 1024 + unat (PTX la)"
proof -
  have "unat la div 2 ^ 22 = unat la div 2 ^ 12 div 1024"
    by (simp add: div_mult2_eq [symmetric])
  then show ?thesis by (simp add: unat_PGNUM unat_PDX unat_PTX)
qed

lemma PGNUM_eq_iff: "PGNUM la = PGNUM la' \<longleftrightarrow> PDX la = PDX la' \<and> PTX la = PTX la'"
proof
  assume "PDX la = PDX la' \<and> PTX la = PTX la'"
  then show "PGNUM la = PGNUM la'" by (simp add: word_unat_eq_iff PGNUM_split)
next
  assume "PGNUM la = PGNUM la'"
  then have "unat (PDX la) * 1024 + unat (PTX la) = unat (PDX la') * 1024 + unat (PTX la')"
    by (simp add: PGNUM_split [symmetric])
  then have "(unat (PDX la) * 1024 + unat (PTX la)) div 1024
      = (unat (PDX la') * 1024 + unat (PTX la')) div 1024"
    "(unat (PDX la) * 1024 + unat (PTX la)) mod 1024
      = (unat (PDX la') * 1024 + unat (PTX la')) mod 1024"
    by simp_all
  then have "unat (PDX la) = unat (PDX la')" "unat (PTX la) = unat (PTX la')"
    using PTX_less [of la] PTX_less [of la'] by simp_all
  then show "PDX la = PDX la' \<and> PTX la = PTX la'" by (simp add: word_unat_eq_iff)
qed

lemma PGADDR_PDX_PTX_PGOFF: "PGADDR (PDX la) (PTX la) (PGOFF la) = la"
proof (rule bit_word_eqI)
  fix n assume "n < LENGTH(32)"
  then show "bit (PGADDR (PDX la) (PTX la) (PGOFF la)) n = bit la n"
    by (cases "n < 12"; cases "n < 22")
      (auto simp: PGADDR_def PDX_def PTX_def PGOFF_def PDXSHIFT_def PTXSHIFT_def mask_consts
        bit_simps)
qed

lemma PGADDR_fields:
  assumes "unat d < 1024" "unat t < 1024" "unat f < 4096"
  shows "PDX (PGADDR d t f) = d" "PTX (PGADDR d t f) = t" "PGOFF (PGADDR d t f) = f"
proof -
  have d: "take_bit 10 d = d" and t: "take_bit 10 t = t" and f: "take_bit 12 f = f"
    using assms by (simp_all add: word_unat_eq_iff unsigned_take_bit_eq take_bit_nat_eq_self)
  have bd: "\<not> bit d n" if "10 \<le> n" for n using that by (subst d [symmetric]) (simp add: bit_simps)
  have bt: "\<not> bit t n" if "10 \<le> n" for n using that by (subst t [symmetric]) (simp add: bit_simps)
  have bf: "\<not> bit f n" if "12 \<le> n" for n using that by (subst f [symmetric]) (simp add: bit_simps)
  show "PDX (PGADDR d t f) = d"
    by (rule bit_word_eqI, rename_tac n, case_tac "n < 10")
      (auto simp: PGADDR_def PDX_def PDXSHIFT_def PTXSHIFT_def mask_consts bit_simps bd bt bf)
  show "PTX (PGADDR d t f) = t"
    by (rule bit_word_eqI, rename_tac n, case_tac "n < 10")
      (auto simp: PGADDR_def PTX_def PDXSHIFT_def PTXSHIFT_def mask_consts bit_simps bd bt bf)
  show "PGOFF (PGADDR d t f) = f"
    by (rule bit_word_eqI, rename_tac n, case_tac "n < 12")
      (auto simp: PGADDR_def PGOFF_def PDXSHIFT_def PTXSHIFT_def mask_consts bit_simps bd bt bf)
qed

lemma SEG_base: "seg_base (SEG type base lim dpl) = base"
proof (rule bit_word_eqI)
  fix n assume "n < LENGTH(32)"
  then show "bit (seg_base (SEG type base lim dpl)) n = bit base n"
    by (cases "n < 16"; cases "n < 24") (auto simp: seg_base_def SEG_def mask_consts bit_simps)
qed

lemma SEG_limit: "seg_limit (SEG type base lim dpl) = lim OR 0xFFF"
proof (rule bit_word_eqI)
  fix n assume "n < LENGTH(32)"
  then show "bit (seg_limit (SEG type base lim dpl)) n = bit (lim OR 0xFFF) n"
    by (cases "n < 12"; cases "n < 28") (auto simp: seg_limit_def SEG_def mask_consts bit_simps)
qed

lemma SEG16_limit: "seg_limit (SEG16 type base lim dpl) = take_bit 20 lim"
proof (rule bit_word_eqI)
  fix n assume "n < LENGTH(32)"
  then show "bit (seg_limit (SEG16 type base lim dpl)) n = bit (take_bit 20 lim) n"
    by (cases "n < 16"; cases "n < 20") (auto simp: seg_limit_def SEG16_def mask_consts bit_simps)
qed

lemma SEG16_base: "seg_base (SEG16 type base lim dpl) = base"
  using SEG_base [of type base lim dpl] by (simp add: seg_base_def SEG_def SEG16_def)

lemma SETGATE_offset: "gate_offset (SETGATE istrap sel off dpl) = off"
proof (rule bit_word_eqI)
  fix n assume "n < LENGTH(32)"
  then show "bit (gate_offset (SETGATE istrap sel off dpl)) n = bit off n"
    by (cases "n < 16") (auto simp: gate_offset_def SETGATE_def mask_consts bit_simps)
qed

lemma SETCALLGATE_offset: "gate_offset (SETCALLGATE sel off dpl) = off"
  using SETGATE_offset [of True sel off dpl] by (simp add: gate_offset_def SETGATE_def SETCALLGATE_def)

end
