(* ===== verification/Cstring.thy ===== *)
theory Cstring
  imports Prelude
begin

text \<open>
  lib/string.c over byte-addressed memory. A pointer is an address; a function that writes
  returns the new memory. Loops that run until a NUL byte are \<open>partial_function (option)\<close>:
  \<open>None\<close> is a scan that never meets one. Loops that count are total functions. The
  \<open>memset\<close> and \<open>memmove\<close> of the build are the assembly ones (\<open>ASM\<close> is 1), modelled by the
  meaning of \<open>rep stos\<close> and \<open>rep movs\<close>; the portable ones of the \<open>#else\<close> branch are
  modelled too, and proved equal to them.
\<close>

section \<open>Null-terminated strings\<close>

partial_function (option) strlen_loop :: "memory \<Rightarrow> u32 \<Rightarrow> u32 \<Rightarrow> u32 option" where
  "strlen_loop m s n = (if m s \<noteq> 0 then strlen_loop m (s + 1) (n + 1) else Some n)"

definition strlen :: "memory \<Rightarrow> u32 \<Rightarrow> u32 option" where
  "strlen m s = strlen_loop m s 0"

function strnlen_loop :: "memory \<Rightarrow> u32 \<Rightarrow> u32 \<Rightarrow> u32 \<Rightarrow> u32" where
  "strnlen_loop m s sz n =
     (if sz > 0 \<and> m s \<noteq> 0 then strnlen_loop m (s + 1) (sz - 1) (n + 1) else n)"
  by pat_completeness auto
termination
  by (relation "measure (\<lambda>(m, s, sz, n). unat sz)") (auto simp: measure_unat word_gt_0)

definition strnlen :: "memory \<Rightarrow> u32 \<Rightarrow> u32 \<Rightarrow> u32" where
  "strnlen m s sz = strnlen_loop m s sz 0"

partial_function (option) strcpy :: "memory \<Rightarrow> u32 \<Rightarrow> u32 \<Rightarrow> memory option" where
  "strcpy m dst src =
     (if m src \<noteq> 0 then strcpy (m(dst := m src)) (dst + 1) (src + 1)
      else Some (m(dst := m src)))"

definition strcat :: "memory \<Rightarrow> u32 \<Rightarrow> u32 \<Rightarrow> memory option" where
  "strcat m dst src =
     (case strlen m dst of None \<Rightarrow> None | Some len \<Rightarrow> strcpy m (dst + len) src)"

text \<open>In \<open>strncpy\<close> the byte at \<open>src\<close> is read again, after the store, for the padding test.\<close>

function strncpy_loop :: "memory \<Rightarrow> u32 \<Rightarrow> u32 \<Rightarrow> u32 \<Rightarrow> u32 \<Rightarrow> memory" where
  "strncpy_loop m dst src sz i =
     (if i < sz
      then strncpy_loop (m(dst := m src)) (dst + 1)
             (if (m(dst := m src)) src \<noteq> 0 then src + 1 else src) sz (i + 1)
      else m)"
  by pat_completeness auto
termination
  by (relation "measure (\<lambda>(m, dst, src, sz, i). unat sz - unat i)")
    (auto simp: less_diff_suc)

definition strncpy :: "memory \<Rightarrow> u32 \<Rightarrow> u32 \<Rightarrow> u32 \<Rightarrow> memory" where
  "strncpy m dst src sz = strncpy_loop m dst src sz 0"

text \<open>\<open>strlcpy\<close> decrements \<open>size\<close> before each test, and returns how far \<open>dst\<close> moved.\<close>

function strlcpy_loop :: "memory \<Rightarrow> u32 \<Rightarrow> u32 \<Rightarrow> u32 \<Rightarrow> memory \<times> u32" where
  "strlcpy_loop m dst src sz =
     (if sz - 1 > 0 \<and> m src \<noteq> 0
      then strlcpy_loop (m(dst := m src)) (dst + 1) (src + 1) (sz - 1)
      else (m, dst))"
  by pat_completeness auto
termination
  by (relation "measure (\<lambda>(m, dst, src, sz). unat (sz - 1))")
    (auto simp: word_gt_0 measure_unat2)

definition strlcpy :: "memory \<Rightarrow> u32 \<Rightarrow> u32 \<Rightarrow> u32 \<Rightarrow> memory \<times> u32" where
  "strlcpy m dst src sz =
     (if sz > 0
      then (case strlcpy_loop m dst src sz of (m', d) \<Rightarrow> (m'(d := 0), d - dst))
      else (m, 0))"

text \<open>The result of a comparison is an \<open>int\<close>: the difference of the two unsigned bytes.\<close>

definition byte_diff :: "u8 \<Rightarrow> u8 \<Rightarrow> int" where
  "byte_diff a b = uint a - uint b"

partial_function (option) strcmp :: "memory \<Rightarrow> u32 \<Rightarrow> u32 \<Rightarrow> int option" where
  "strcmp m p q =
     (if m p \<noteq> 0 \<and> m p = m q then strcmp m (p + 1) (q + 1)
      else Some (byte_diff (m p) (m q)))"

function strncmp :: "memory \<Rightarrow> u32 \<Rightarrow> u32 \<Rightarrow> u32 \<Rightarrow> int" where
  "strncmp m p q n =
     (if n > 0 \<and> m p \<noteq> 0 \<and> m p = m q then strncmp m (p + 1) (q + 1) (n - 1)
      else if n = 0 then 0 else byte_diff (m p) (m q))"
  by pat_completeness auto
termination
  by (relation "measure (\<lambda>(m, p, q, n). unat n)") (auto simp: measure_unat word_gt_0)

text \<open>\<open>strchr\<close> returns a null pointer (the inner \<open>None\<close>) when the character is absent.\<close>

partial_function (option) strchr :: "memory \<Rightarrow> u32 \<Rightarrow> u8 \<Rightarrow> u32 option option" where
  "strchr m s c =
     (if m s \<noteq> 0 then (if m s = c then Some (Some s) else strchr m (s + 1) c)
      else Some None)"

partial_function (option) strfind :: "memory \<Rightarrow> u32 \<Rightarrow> u8 \<Rightarrow> u32 option" where
  "strfind m s c =
     (if m s \<noteq> 0 then (if m s = c then Some s else strfind m (s + 1) c)
      else Some s)"

section \<open>Blocks of memory\<close>

text \<open>The x86 string instructions with a repeat prefix, the direction flag clear or set.\<close>

fun rep_stosb :: "memory \<Rightarrow> u32 \<Rightarrow> u8 \<Rightarrow> nat \<Rightarrow> memory" where
  "rep_stosb m di al 0 = m"
| "rep_stosb m di al (Suc cx) = rep_stosb (m(di := al)) (di + 1) al cx"

fun rep_stosl :: "memory \<Rightarrow> u32 \<Rightarrow> u32 \<Rightarrow> nat \<Rightarrow> memory" where
  "rep_stosl m di eax 0 = m"
| "rep_stosl m di eax (Suc cx) = rep_stosl (st32 m di eax) (di + 4) eax cx"

fun rep_movsb :: "memory \<Rightarrow> u32 \<Rightarrow> u32 \<Rightarrow> nat \<Rightarrow> memory" where
  "rep_movsb m di si 0 = m"
| "rep_movsb m di si (Suc cx) = rep_movsb (m(di := m si)) (di + 1) (si + 1) cx"

fun rep_movsl :: "memory \<Rightarrow> u32 \<Rightarrow> u32 \<Rightarrow> nat \<Rightarrow> memory" where
  "rep_movsl m di si 0 = m"
| "rep_movsl m di si (Suc cx) = rep_movsl (st32 m di (ld32 m si)) (di + 4) (si + 4) cx"

fun std_rep_movsb :: "memory \<Rightarrow> u32 \<Rightarrow> u32 \<Rightarrow> nat \<Rightarrow> memory" where
  "std_rep_movsb m di si 0 = m"
| "std_rep_movsb m di si (Suc cx) = std_rep_movsb (m(di := m si)) (di - 1) (si - 1) cx"

fun std_rep_movsl :: "memory \<Rightarrow> u32 \<Rightarrow> u32 \<Rightarrow> nat \<Rightarrow> memory" where
  "std_rep_movsl m di si 0 = m"
| "std_rep_movsl m di si (Suc cx) = std_rep_movsl (st32 m di (ld32 m si)) (di - 4) (si - 4) cx"

definition memset :: "memory \<Rightarrow> u32 \<Rightarrow> u32 \<Rightarrow> u32 \<Rightarrow> memory" where
  "memset m v c n =
     (if n = 0 then m
      else if v mod 4 = 0 \<and> n mod 4 = 0
      then (let c = c AND 0xFF;
                c = push_bit 24 c OR push_bit 16 c OR push_bit 8 c OR c
            in rep_stosl m v c (unat (n div 4)))
      else rep_stosb m v (ucast c) (unat n))"

definition memmove :: "memory \<Rightarrow> u32 \<Rightarrow> u32 \<Rightarrow> u32 \<Rightarrow> memory" where
  "memmove m d s n =
     (if s < d \<and> s + n > d
      then (let s = s + n; d = d + n
            in if s mod 4 = 0 \<and> d mod 4 = 0 \<and> n mod 4 = 0
               then std_rep_movsl m (d - 4) (s - 4) (unat (n div 4))
               else std_rep_movsb m (d - 1) (s - 1) (unat n))
      else if s mod 4 = 0 \<and> d mod 4 = 0 \<and> n mod 4 = 0
      then rep_movsl m d s (unat (n div 4))
      else rep_movsb m d s (unat n))"

definition memcpy :: "memory \<Rightarrow> u32 \<Rightarrow> u32 \<Rightarrow> u32 \<Rightarrow> memory" where
  "memcpy m d s n = memmove m d s n"

text \<open>
  The portable versions (the \<open>#else\<close> branch). \<open>memset\<close> counts down in an \<open>int\<close>, so it
  writes nothing for a size of 2 GB or more.
\<close>

fun memset_c_loop :: "memory \<Rightarrow> u32 \<Rightarrow> u8 \<Rightarrow> nat \<Rightarrow> memory" where
  "memset_c_loop m p c 0 = m"
| "memset_c_loop m p c (Suc k) = memset_c_loop (m(p := c)) (p + 1) c k"

definition memset_c :: "memory \<Rightarrow> u32 \<Rightarrow> u32 \<Rightarrow> u32 \<Rightarrow> memory" where
  "memset_c m v c n = memset_c_loop m v (ucast c) (nat (sint n))"

fun memmove_c_down :: "memory \<Rightarrow> u32 \<Rightarrow> u32 \<Rightarrow> nat \<Rightarrow> memory" where
  "memmove_c_down m d s 0 = m"
| "memmove_c_down m d s (Suc k) = memmove_c_down (m(d - 1 := m (s - 1))) (d - 1) (s - 1) k"

fun memmove_c_up :: "memory \<Rightarrow> u32 \<Rightarrow> u32 \<Rightarrow> nat \<Rightarrow> memory" where
  "memmove_c_up m d s 0 = m"
| "memmove_c_up m d s (Suc k) = memmove_c_up (m(d := m s)) (d + 1) (s + 1) k"

definition memmove_c :: "memory \<Rightarrow> u32 \<Rightarrow> u32 \<Rightarrow> u32 \<Rightarrow> memory" where
  "memmove_c m d s n =
     (if s < d \<and> s + n > d then memmove_c_down m (d + n) (s + n) (unat n)
      else memmove_c_up m d s (unat n))"

fun memcmp_loop :: "memory \<Rightarrow> u32 \<Rightarrow> u32 \<Rightarrow> nat \<Rightarrow> int" where
  "memcmp_loop m s1 s2 0 = 0"
| "memcmp_loop m s1 s2 (Suc k) =
     (if m s1 \<noteq> m s2 then byte_diff (m s1) (m s2) else memcmp_loop m (s1 + 1) (s2 + 1) k)"

definition memcmp :: "memory \<Rightarrow> u32 \<Rightarrow> u32 \<Rightarrow> u32 \<Rightarrow> int" where
  "memcmp m v1 v2 n = memcmp_loop m v1 v2 (unat n)"

function memfind_loop :: "memory \<Rightarrow> u32 \<Rightarrow> u32 \<Rightarrow> u8 \<Rightarrow> u32" where
  "memfind_loop m s ends c =
     (if s < ends \<and> m s \<noteq> c then memfind_loop m (s + 1) ends c else s)"
  by pat_completeness auto
termination
  by (relation "measure (\<lambda>(m, s, ends, c). unat ends - unat s)")
    (auto simp: less_diff_suc)

definition memfind :: "memory \<Rightarrow> u32 \<Rightarrow> u32 \<Rightarrow> u32 \<Rightarrow> u32" where
  "memfind m s c n = memfind_loop m s (s + n) (ucast c)"

declare strnlen_loop.simps [simp del] strncpy_loop.simps [simp del] strlcpy_loop.simps [simp del]
  strncmp.simps [simp del] memfind_loop.simps [simp del]

section \<open>Numbers: strtol\<close>

partial_function (option) skip_blank :: "memory \<Rightarrow> u32 \<Rightarrow> u32 option" where
  "skip_blank m s = (if m s = 32 \<or> m s = 9 then skip_blank m (s + 1) else Some s)"

text \<open>The value of a digit character; \<open>None\<close> for any other character.\<close>

definition digit_value :: "u8 \<Rightarrow> u32 option" where
  "digit_value c =
     (if 48 \<le> c \<and> c \<le> 57 then Some (ucast c - 48)
      else if 97 \<le> c \<and> c \<le> 122 then Some (ucast c - 97 + 10)
      else if 65 \<le> c \<and> c \<le> 90 then Some (ucast c - 65 + 10)
      else None)"

partial_function (option) strtol_digits :: "memory \<Rightarrow> u32 \<Rightarrow> u32 \<Rightarrow> u32 \<Rightarrow> (u32 \<times> u32) option" where
  "strtol_digits m s base val =
     (case digit_value (m s) of
        None \<Rightarrow> Some (val, s)
      | Some dig \<Rightarrow>
          if sint dig \<ge> sint base then Some (val, s)
          else strtol_digits m (s + 1) base (val * base + dig))"

text \<open>\<open>strtol\<close> returns the value and the pointer stored through \<open>endptr\<close>.\<close>

definition strtol :: "memory \<Rightarrow> u32 \<Rightarrow> u32 \<Rightarrow> (u32 \<times> u32) option" where
  "strtol m s0 base0 =
     (case skip_blank m s0 of None \<Rightarrow> None | Some s1 \<Rightarrow>
        let neg = (m s1 = 45);
            s2 = (if m s1 = 43 \<or> m s1 = 45 then s1 + 1 else s1);
            (s3, base) =
              (if (base0 = 0 \<or> base0 = 16) \<and> m s2 = 48 \<and> m (s2 + 1) = 120 then (s2 + 2, 16)
               else if base0 = 0 \<and> m s2 = 48 then (s2 + 1, 8)
               else if base0 = 0 then (s2, 10)
               else (s2, base0))
        in (case strtol_digits m s3 base 0 of None \<Rightarrow> None
            | Some (val, e) \<Rightarrow> Some (if neg then - val else val, e)))"

section \<open>Lemmas on blocks\<close>

lemma unat_minus_1: "unat ((x :: u32) - 1) = (if x = 0 then 2 ^ 32 - 1 else unat x - 1)"
  by (cases "x = 0") (simp_all add: unat_minus_one unsigned_minus_1_eq_mask mask_eq_exp_minus_1)

lemma unat_minus_4: "unat ((x :: u32) - 4) = (if unat x < 4 then unat x + 2 ^ 32 - 4 else unat x - 4)"
  using unat32_bound [of x] by (simp add: unat_sub_if')

lemma region_step1:
  "Suc k \<le> 2 ^ 32 \<Longrightarrow> unat (a - (p + 1) :: u32) < k \<longleftrightarrow> a \<noteq> p \<and> unat (a - p) < Suc k"
  using unat_minus_1 [of "a - p"] unat_eq_zero [of "a - p"] by (auto simp: diff_diff_eq [symmetric])

lemma region_step4:
  "4 * Suc k \<le> 2 ^ 32 \<Longrightarrow>
    unat (a - (p + 4) :: u32) < 4 * k \<longleftrightarrow> 4 \<le> unat (a - p) \<and> unat (a - p) < 4 * Suc k"
  using unat_minus_4 [of "a - p"] by (auto simp: diff_diff_eq [symmetric])

lemma less_4_cases: "(i :: nat) < 4 \<Longrightarrow> i = 0 \<or> i = 1 \<or> i = 2 \<or> i = 3"
  by arith

lemma unat_diff_eq: "unat (a - p :: u32) = i \<Longrightarrow> a = p + word_of_nat i"
  by (drule sym) simp

lemma st32_apply:
  "st32 m p v a = (if unat (a - p) < 4 then ucast (drop_bit (8 * unat (a - p)) v) else m a)"
proof (cases "unat (a - p) < 4")
  case True
  then consider "a = p" | "a = p + 1" | "a = p + 2" | "a = p + 3"
    using less_4_cases [of "unat (a - p)"] unat_diff_eq [of a p] by fastforce
  then show ?thesis by cases (simp_all add: st32_def)
next
  case False
  then have "a \<noteq> p" "a \<noteq> p + 1" "a \<noteq> p + 2" "a \<noteq> p + 3" by auto
  with False show ?thesis by (simp add: st32_def)
qed

lemma ld32_byte: "i < 4 \<Longrightarrow> (ucast (drop_bit (8 * i) (ld32 m s)) :: u8) = m (s + word_of_nat i)"
proof -
  assume "i < 4"
  then consider "i = 0" | "i = 1" | "i = 2" | "i = 3" by arith
  then show ?thesis
    by cases (rule bit_word_eqI; auto simp: ld32_def bit_simps dest: bit_imp_le_length)+
qed

lemma rep_stosb_apply:
  "k \<le> 2 ^ 32 \<Longrightarrow> rep_stosb m p c k a = (if unat (a - p) < k then c else m a)"
proof (induction k arbitrary: m p)
  case (Suc k)
  then have "rep_stosb m p c (Suc k) a
      = (if unat (a - (p + 1)) < k then c else (m(p := c)) a)"
    by simp
  then show ?case using region_step1 [OF Suc.prems, of a p] by auto
qed simp

lemma rep_stosl_apply:
  assumes "\<And>i. i < 4 \<Longrightarrow> ucast (drop_bit (8 * i) v) = (c :: u8)"
  shows "4 * k \<le> 2 ^ 32 \<Longrightarrow> rep_stosl m p v k a = (if unat (a - p) < 4 * k then c else m a)"
proof (induction k arbitrary: m p)
  case (Suc k)
  then have "rep_stosl m p v (Suc k) a
      = (if unat (a - (p + 4)) < 4 * k then c else st32 m p v a)"
    by simp
  then show ?case
    using region_step4 [OF Suc.prems, of a p] assms by (auto simp: st32_apply)
qed simp

lemma stos_pattern:
  "i < 4 \<Longrightarrow> (ucast (drop_bit (8 * i)
     (push_bit 24 (c AND 0xFF :: u32) OR push_bit 16 (c AND 0xFF) OR push_bit 8 (c AND 0xFF)
       OR (c AND 0xFF))) :: u8) = ucast c"
proof -
  have ff: "(0xFF :: u32) = mask 8" by (simp add: mask_eq_exp_minus_1)
  assume "i < 4"
  then consider "i = 0" | "i = 1" | "i = 2" | "i = 3" by arith
  then show ?thesis
    unfolding ff by cases (rule bit_word_eqI; auto simp: bit_simps)+
qed

lemma unat_div4: "n mod 4 = 0 \<Longrightarrow> 4 * unat (n div 4 :: u32) = unat n"
proof -
  assume "n mod 4 = 0"
  then have "unat n mod 4 = 0" using unat_mod [of n 4] by simp
  then show ?thesis by (simp add: unat_div) presburger
qed

lemma memset_apply: "memset m v c n a = (if unat (a - v) < unat n then ucast c else m a)"
proof -
  have n: "unat n \<le> 2 ^ 32" using unat32_bound [of n] by simp
  show ?thesis
  proof (cases "v mod 4 = 0 \<and> n mod 4 = 0")
    case True
    then show ?thesis
      using rep_stosl_apply [OF stos_pattern [of _ c], of "unat (n div 4)" m v a] n unat_div4 [of n]
      by (auto simp: memset_def Let_def)
  next
    case False
    then show ?thesis
      using rep_stosb_apply [OF n, of m v "ucast c" a] by (auto simp: memset_def)
  qed
qed


lemma unat_diff_wrap: "unat (x - y :: u32) = (if unat y \<le> unat x then unat x - unat y else unat x + 2 ^ 32 - unat y)"
  using unat32_bound [of x] unat32_bound [of y] by (simp add: unat_sub_if')

lemma unat_of_nat32: "k < 2 ^ 32 \<Longrightarrow> unat (word_of_nat k :: u32) = k"
  by (simp add: unsigned_of_nat take_bit_nat_eq_self)

lemma gap_after: "4 \<le> unat x \<Longrightarrow> unat x < k \<Longrightarrow> k \<le> unat y \<Longrightarrow> \<not> unat (x - y :: u32) < 4"
  using unat32_bound [of y] by (simp add: unat_diff_wrap)

lemma gap_before:
  "unat x < k \<Longrightarrow> unat w = k \<Longrightarrow> k + 4 \<le> unat y \<Longrightarrow> \<not> unat (x + y - w :: u32) < 4"
proof -
  assume h: "unat x < k" "unat w = k" "k + 4 \<le> unat y"
  have e: "x + y - w = x + (y - w)" by simp
  have "unat (y - w) = unat y - k" using h by (simp add: unat_diff_wrap)
  moreover have "unat x + (unat y - k) < 2 ^ 32" using h unat32_bound [of y] by simp
  ultimately have "unat (x + y - w) = unat x + (unat y - k)"
    unfolding e by (simp add: unat_word_ariths)
  then show ?thesis using h by simp
qed

lemma gap_index: "unat x < k \<Longrightarrow> unat w = k \<Longrightarrow> k < unat y \<Longrightarrow> x \<noteq> (w - y :: u32)"
  using unat_diff_wrap [of w y] unat32_bound [of y] by auto

lemma rep_movsb_apply:
  "k < 2 ^ 32 \<Longrightarrow> d = s \<or> k \<le> unat (d - s) \<Longrightarrow>
    rep_movsb m d s k a = (if unat (a - d) < k then m (s + (a - d)) else m a)"
proof (induction k arbitrary: m d s)
  case (Suc k)
  let ?m = "m(d := m s)"
  have "rep_movsb m d s (Suc k) a
      = (if unat (a - (d + 1)) < k then ?m (s + (a - d)) else ?m a)"
  proof -
    have "s + 1 + (a - (d + 1)) = s + (a - d)" by (simp add: algebra_simps)
    moreover have "d + 1 = s + 1 \<or> k \<le> unat (d + 1 - (s + 1))" "k < 2 ^ 32"
      using Suc.prems by auto
    ultimately show ?thesis
      using Suc.IH [of "d + 1" "s + 1" ?m] by (simp only: rep_movsb.simps)
  qed
  moreover have "s + (a - d) \<noteq> d" if "a \<noteq> d" "unat (a - d) < Suc k"
  proof
    assume "s + (a - d) = d"
    then have "a - d = d - s" by (simp add: algebra_simps)
    with that Suc.prems show False by auto
  qed
  ultimately show ?case
    using region_step1 [of k a d] Suc.prems by auto
qed simp

lemma rep_movsl_apply:
  "4 * k < 2 ^ 32 \<Longrightarrow> d = s \<or> 4 * k \<le> unat (d - s) \<Longrightarrow>
    rep_movsl m d s k a = (if unat (a - d) < 4 * k then m (s + (a - d)) else m a)"
proof (induction k arbitrary: m d s)
  case (Suc k)
  let ?m = "st32 m d (ld32 m s)"
  have "rep_movsl m d s (Suc k) a
      = (if unat (a - (d + 4)) < 4 * k then ?m (s + (a - d)) else ?m a)"
  proof -
    have "s + 4 + (a - (d + 4)) = s + (a - d)" by (simp add: algebra_simps)
    moreover have "d + 4 = s + 4 \<or> 4 * k \<le> unat (d + 4 - (s + 4))" "4 * k < 2 ^ 32"
      using Suc.prems by auto
    ultimately show ?thesis
      using Suc.IH [of "d + 4" "s + 4" ?m] by (simp only: rep_movsl.simps)
  qed
  moreover have "\<not> unat (s + (a - d) - d) < 4" if "4 \<le> unat (a - d)" "unat (a - d) < 4 * Suc k"
  proof -
    have e: "s + (a - d) - d = (a - d) - (d - s)" by (simp add: algebra_simps)
    show ?thesis
    proof (cases "d = s")
      case False
      then show ?thesis using gap_after [OF that, of "d - s"] Suc.prems unfolding e by simp
    qed (use that in simp)
  qed
  ultimately show ?case
    using region_step4 [of k a d] Suc.prems ld32_byte [of "unat (a - d)" m s]
    by (auto simp: st32_apply)
qed simp

lemma std_rep_movsb_apply:
  "k < 2 ^ 32 \<Longrightarrow> d = s \<or> k \<le> unat (s - d) \<Longrightarrow>
    std_rep_movsb m (d + word_of_nat k - 1) (s + word_of_nat k - 1) k a
      = (if unat (a - d) < k then m (s + (a - d)) else m a)"
proof (induction k arbitrary: m)
  case (Suc k)
  let ?dk = "d + word_of_nat k" and ?sk = "s + word_of_nat k"
  let ?m = "m(?dk := m ?sk)"
  have k: "unat (word_of_nat k :: u32) = k" using Suc.prems by (simp add: unat_of_nat32)
  have eq: "d + word_of_nat (Suc k) - 1 = ?dk" "s + word_of_nat (Suc k) - 1 = ?sk"
    by (simp_all add: algebra_simps)
  have *: "std_rep_movsb m (d + word_of_nat (Suc k) - 1) (s + word_of_nat (Suc k) - 1) (Suc k) a
      = (if unat (a - d) < k then ?m (s + (a - d)) else ?m a)"
  proof -
    have "d = s \<or> k \<le> unat (s - d)" "k < 2 ^ 32" using Suc.prems by auto
    then show ?thesis using Suc.IH [of ?m] by (simp only: eq std_rep_movsb.simps)
  qed
  have ne: "s + (a - d) \<noteq> ?dk" if "unat (a - d) < k"
  proof
    assume "s + (a - d) = ?dk"
    then have "a - d = word_of_nat k - (s - d)" by (simp add: algebra_simps)
    then show False
    proof (cases "d = s")
      case False
      then show ?thesis
        using gap_index [OF that k, of "s - d"] Suc.prems \<open>a - d = _\<close> by simp
    qed (use that k in simp)
  qed
  have at: "a = ?dk \<longleftrightarrow> unat (a - d) = k" using unat_diff_eq [of a d k] k by auto
  show ?case
  proof (cases "unat (a - d) < k")
    case True
    then show ?thesis using * ne by simp
  next
    case False
    have "m ?sk = m (s + (a - d))" if "a = ?dk" by (subst that) (simp add: algebra_simps)
    with False show ?thesis unfolding * using at by (simp add: less_Suc_eq)
  qed
qed simp

lemma std_rep_movsl_apply:
  "4 * k < 2 ^ 32 \<Longrightarrow> d = s \<or> 4 * k \<le> unat (s - d) \<Longrightarrow>
    std_rep_movsl m (d + word_of_nat (4 * k) - 4) (s + word_of_nat (4 * k) - 4) k a
      = (if unat (a - d) < 4 * k then m (s + (a - d)) else m a)"
proof (induction k arbitrary: m)
  case (Suc k)
  let ?w = "word_of_nat (4 * k) :: u32"
  let ?dk = "d + ?w" and ?sk = "s + ?w"
  let ?m = "st32 m ?dk (ld32 m ?sk)"
  have k: "unat ?w = 4 * k" using Suc.prems by (intro unat_of_nat32) simp
  have eq: "d + word_of_nat (4 * Suc k) - 4 = ?dk" "s + word_of_nat (4 * Suc k) - 4 = ?sk"
    by (simp_all add: algebra_simps)
  have *: "std_rep_movsl m (d + word_of_nat (4 * Suc k) - 4) (s + word_of_nat (4 * Suc k) - 4) (Suc k) a
      = (if unat (a - d) < 4 * k then ?m (s + (a - d)) else ?m a)"
  proof -
    have "d = s \<or> 4 * k \<le> unat (s - d)" "4 * k < 2 ^ 32" using Suc.prems by auto
    then show ?thesis using Suc.IH [of ?m] by (simp only: eq std_rep_movsl.simps)
  qed
  have lo: "\<not> unat (s + (a - d) - ?dk) < 4" if "unat (a - d) < 4 * k"
  proof -
    have e: "s + (a - d) - ?dk = (a - d) + (s - d) - ?w" by (simp add: algebra_simps)
    show ?thesis
    proof (cases "d = s")
      case True
      have "unat (a - d - ?w) = unat (a - d) + 2 ^ 32 - 4 * k"
        using that k by (subst unat_diff_wrap) simp
      with True Suc.prems show ?thesis unfolding e by simp
    next
      case False
      then show ?thesis using gap_before [OF that k, of "s - d"] Suc.prems unfolding e by simp
    qed
  qed
  have hi: "unat (a - ?dk) < 4 \<longleftrightarrow> 4 * k \<le> unat (a - d) \<and> unat (a - d) < 4 * Suc k"
    using unat_diff_wrap [of "a - d" ?w] k unat32_bound [of "a - d"] Suc.prems
    by (auto simp: diff_diff_eq)
  have off: "?sk + (a - ?dk) = s + (a - d)" by (simp add: algebra_simps)
  have "ucast (drop_bit (8 * unat (a - ?dk)) (ld32 m ?sk)) = m (s + (a - d))"
    if "unat (a - ?dk) < 4"
    using ld32_byte [OF that, of m ?sk] off by simp
  then show ?case using * lo hi by (auto simp: st32_apply)
qed simp

lemma mod4_unat: "x mod 4 = 0 \<longleftrightarrow> unat (x :: u32) mod 4 = 0"
  using unat_mod [of x 4] unat_eq_zero [of "x mod 4"] by simp

lemma memmove_apply:
  assumes s: "unat s + unat n < 2 ^ 32" and d: "unat d + unat n < 2 ^ 32"
  shows "memmove m d s n a = (if unat (a - d) < unat n then m (s + (a - d)) else m a)"
proof -
  have n: "unat n < 2 ^ 32" by (rule unat32_bound)
  have sn: "unat (s + n) = unat s + unat n" using s by (simp add: unat_word_ariths)
  have n4: "4 * unat (n div 4) = unat n" if "n mod 4 = 0" using unat_div4 [OF that] .
  show ?thesis
  proof (cases "s < d \<and> s + n > d")
    case True
    then have ov: "unat n \<le> unat (s - d)"
      using d unat_diff_wrap [of s d] by (auto simp: word_less_nat_alt)
    show ?thesis
    proof (cases "(s + n) mod 4 = 0 \<and> (d + n) mod 4 = 0 \<and> n mod 4 = 0")
      case al: True
      then have e: "word_of_nat (4 * unat (n div 4)) = n" using n4 by simp
      show ?thesis
        using std_rep_movsl_apply [of "unat (n div 4)" d s m a] True al n n4 ov
        unfolding e by (simp add: memmove_def Let_def)
    next
      case False
      then show ?thesis
        using std_rep_movsb_apply [OF n, of d s m a] True ov
        by (simp only: memmove_def Let_def if_True if_False simp_thms of_nat_unat ucast_id)
    qed
  next
    case False
    then have nov: "d = s \<or> unat n \<le> unat (d - s)"
      using s sn unat_diff_wrap [of d s] word_unat_eq_iff [of d s]
      by (auto simp: word_less_nat_alt)
    show ?thesis
    proof (cases "s mod 4 = 0 \<and> d mod 4 = 0 \<and> n mod 4 = 0")
      case True
      with False show ?thesis
        using rep_movsl_apply [of "unat (n div 4)" d s m a] n n4 nov
        by (auto simp: memmove_def)
    next
      case al: False
      with False show ?thesis
        using rep_movsb_apply [OF n nov, of m a]
        by (simp only: memmove_def if_True if_False simp_thms)
    qed
  qed
qed

lemma memmove_c_up_movsb: "memmove_c_up m d s k = rep_movsb m d s k"
  by (induction k arbitrary: m d s) simp_all

lemma memmove_c_down_movsb: "memmove_c_down m d s k = std_rep_movsb m (d - 1) (s - 1) k"
  by (induction k arbitrary: m d s) simp_all

lemma memset_c_loop_stosb: "memset_c_loop m p c k = rep_stosb m p c k"
  by (induction k arbitrary: m p) simp_all

lemma memset_eq_memset_c: "unat n < 2 ^ 31 \<Longrightarrow> memset m v c n = memset_c m v c n"
proof (rule ext)
  fix a assume n: "unat n < 2 ^ 31"
  then have "sint n = int (unat n)" by (rule sint_small)
  then show "memset m v c n a = memset_c m v c n a"
    using rep_stosb_apply [of "unat n" m v "ucast c" a] n
    by (simp add: memset_apply memset_c_def memset_c_loop_stosb)
qed

lemma memmove_eq_memmove_c:
  assumes s: "unat s + unat n < 2 ^ 32" and d: "unat d + unat n < 2 ^ 32"
  shows "memmove m d s n = memmove_c m d s n"
proof (rule ext)
  fix a
  have n: "unat n < 2 ^ 32" by (rule unat32_bound)
  have sn: "unat (s + n) = unat s + unat n" using s by (simp add: unat_word_ariths)
  show "memmove m d s n a = memmove_c m d s n a"
  proof (cases "s < d \<and> s + n > d")
    case True
    then have ov: "unat n \<le> unat (s - d)"
      using d unat_diff_wrap [of s d] by (auto simp: word_less_nat_alt)
    with True show ?thesis
      using std_rep_movsb_apply [OF n, of d s m a]
      by (simp add: memmove_apply [OF s d] memmove_c_def memmove_c_down_movsb)
  next
    case False
    then have nov: "d = s \<or> unat n \<le> unat (d - s)"
      using s sn unat_diff_wrap [of d s] word_unat_eq_iff [of d s]
      by (auto simp: word_less_nat_alt)
    with False show ?thesis
      using rep_movsb_apply [OF n nov, of m a]
      by (auto simp: memmove_apply [OF s d] memmove_c_def memmove_c_up_movsb)
  qed
qed

section \<open>Lemmas on strings\<close>

text \<open>\<open>cstr m p xs\<close>: a null-terminated string with the characters \<open>xs\<close> starts at \<open>p\<close>.\<close>

fun cstr :: "memory \<Rightarrow> u32 \<Rightarrow> u8 list \<Rightarrow> bool" where
  "cstr m p [] \<longleftrightarrow> m p = 0"
| "cstr m p (x # xs) \<longleftrightarrow> m p = x \<and> x \<noteq> 0 \<and> cstr m (p + 1) xs"

lemma cstr_unique: "cstr m p xs \<Longrightarrow> cstr m p ys \<Longrightarrow> xs = ys"
  by (induction m p xs arbitrary: ys rule: cstr.induct; case_tac ys) auto

lemma strlen_loop_cstr: "cstr m p xs \<Longrightarrow> strlen_loop m p n = Some (n + word_of_nat (length xs))"
  by (induction m p xs arbitrary: n rule: cstr.induct; subst strlen_loop.simps) auto

lemma strlen_cstr: "cstr m p xs \<Longrightarrow> strlen m p = Some (word_of_nat (length xs))"
  by (simp add: strlen_def strlen_loop_cstr)

lemma strnlen_loop_cstr:
  "cstr m p xs \<Longrightarrow> strnlen_loop m p sz n = n + word_of_nat (min (length xs) (unat sz))"
proof (induction m p xs arbitrary: sz n rule: cstr.induct)
  case (2 m p x xs)
  show ?case
  proof (cases "sz = 0")
    case False
    then have u: "unat sz = Suc (unat (sz - 1))"
      using unat_minus_1 [of sz] unat_eq_zero [of sz] by auto
    have "strnlen_loop m p sz n = strnlen_loop m (p + 1) (sz - 1) (n + 1)"
      using 2 False by (subst strnlen_loop.simps) (simp add: word_gt_0)
    also have "\<dots> = n + 1 + word_of_nat (min (length xs) (unat (sz - 1)))"
      using 2 by simp
    finally show ?thesis by (simp add: u)
  qed (subst strnlen_loop.simps, simp)
qed (subst strnlen_loop.simps, simp)

lemma strnlen_cstr: "cstr m p xs \<Longrightarrow> strnlen m p sz = word_of_nat (min (length xs) (unat sz))"
  by (simp add: strnlen_def strnlen_loop_cstr)

text \<open>The order \<open>strcmp\<close> computes, on the lists of characters.\<close>

fun list_cmp :: "u8 list \<Rightarrow> u8 list \<Rightarrow> int" where
  "list_cmp [] [] = 0"
| "list_cmp [] (y # ys) = - uint y"
| "list_cmp (x # xs) [] = uint x"
| "list_cmp (x # xs) (y # ys) = (if x = y then list_cmp xs ys else uint x - uint y)"

lemma strcmp_cstr:
  "cstr m p xs \<Longrightarrow> cstr m q ys \<Longrightarrow> strcmp m p q = Some (list_cmp xs ys)"
proof (induction xs ys arbitrary: p q rule: list_cmp.induct)
  case (4 x xs y ys)
  then show ?case by (subst strcmp.simps) (auto simp: byte_diff_def)
qed (subst strcmp.simps; auto simp: byte_diff_def)+

lemma uint_pos: "(x :: u8) \<noteq> 0 \<Longrightarrow> 0 < uint x"
  by (metis uint_0_iff order_le_less uint_ge_0)

lemma uint_eq_iff8: "uint (x :: u8) = uint y \<longleftrightarrow> x = y"
  by (simp add: word_uint_eq_iff)

lemma list_cmp_0_iff: "0 \<notin> set xs \<Longrightarrow> 0 \<notin> set ys \<Longrightarrow> list_cmp xs ys = 0 \<longleftrightarrow> xs = ys"
  by (induction xs ys rule: list_cmp.induct) (auto simp: uint_0_iff uint_eq_iff8)

lemma list_cmp_neg_iff:
  "0 \<notin> set xs \<Longrightarrow> 0 \<notin> set ys \<Longrightarrow> list_cmp xs ys < 0 \<longleftrightarrow> ord.lexordp (<) xs ys"
proof (induction xs ys rule: list_cmp.induct)
  case (2 y ys)
  then show ?case using uint_pos [of y] by simp
next
  case (3 x xs)
  then show ?case by simp
next
  case (4 x xs y ys)
  then show ?case using uint_eq_iff8 [of x y] by (cases "x = y") (auto simp: word_less_def)
qed simp

lemma cstr_no_zero: "cstr m p xs \<Longrightarrow> 0 \<notin> set xs"
  by (induction m p xs rule: cstr.induct) auto

lemma strfind_cstr:
  "cstr m p xs \<Longrightarrow> strfind m p c = Some (p + word_of_nat (length (takeWhile (\<lambda>x. x \<noteq> c) xs)))"
  by (induction m p xs rule: cstr.induct; subst strfind.simps) auto

lemma strchr_cstr:
  "cstr m p xs \<Longrightarrow> strchr m p c =
    Some (if c \<in> set xs then Some (p + word_of_nat (length (takeWhile (\<lambda>x. x \<noteq> c) xs))) else None)"
  by (induction m p xs rule: cstr.induct; subst strchr.simps) auto

end
