(* ===== verification/Phys_Mem.thy ===== *)
theory Phys_Mem
  imports Mmu Cstring
begin

text \<open>
  Physical memory as the kernel sees it: the physical address \<open>pa\<close> is the kernel virtual
  address \<open>KERNBASE + pa\<close> (kern/pmap.h, \<open>PADDR\<close> and \<open>KADDR\<close>). Everything the page
  table code reads or writes is a 32-bit word of some physical page, so this theory gives those
  words names, \<open>pword m p i\<close> for word \<open>i\<close> of page \<open>p\<close>, and shows how they behave under the
  two ways the code changes them: one 32-bit store, and \<open>memset\<close> of a page.
\<close>

definition kaddr :: "nat \<Rightarrow> nat \<Rightarrow> u32" where
  "kaddr p i = KERNBASE + word_of_nat (4096 * p + 4 * i)"

definition pword :: "memory \<Rightarrow> nat \<Rightarrow> nat \<Rightarrow> u32" where
  "pword m p i = ld32 m (kaddr p i)"

lemma pword_zero [simp]: "pword (\<lambda>_. 0) p i = 0"
  by (simp add: pword_def ld32_def)

text \<open>The page number a page table or directory entry refers to.\<close>

definition pte_page :: "u32 \<Rightarrow> nat" where
  "pte_page e = unat (PGNUM e)"

lemma unat_kaddr:
  assumes "p < 65536" "i < 1024"
  shows "unat (kaddr p i) = 0xF0000000 + 4096 * p + 4 * i"
proof -
  have "4096 * p + 4 * i < 2 ^ 28" using assms by simp
  then have "unat (word_of_nat (4096 * p + 4 * i) :: u32) = 4096 * p + 4 * i"
    by (intro unat_of_nat32) simp
  then show ?thesis
    using assms unfolding kaddr_def KERNBASE_def unat_word_ariths by simp
qed

lemma kaddr_eq_iff:
  assumes "p < 65536" "i < 1024" "q < 65536" "j < 1024"
  shows "kaddr p i = kaddr q j \<longleftrightarrow> p = q \<and> i = j"
proof
  assume "kaddr p i = kaddr q j"
  then have "unat (kaddr p i) = unat (kaddr q j)" by simp
  then have "4096 * p + 4 * i = 4096 * q + 4 * j" using assms by (simp add: unat_kaddr)
  moreover have "(4096 * p + 4 * i) div 4096 = p" "(4096 * q + 4 * j) div 4096 = q"
    using assms by simp_all
  ultimately show "p = q \<and> i = j" by auto
qed simp

lemma pword_st32 [pword_simps]:
  assumes "p < 65536" "i < 1024" "q < 65536" "j < 1024"
  shows "pword (st32 m (kaddr q j) v) p i = (if p = q \<and> i = j then v else pword m p i)"
proof (cases "p = q \<and> i = j")
  case False
  moreover have "unat (kaddr p i) mod 4 = 0" "unat (kaddr q j) mod 4 = 0"
    using assms by (simp_all add: unat_kaddr mod_add_eq [symmetric] mod_mult_eq [symmetric])
  ultimately show ?thesis
    using ld32_st32_other [of "kaddr q j" "kaddr p i" m v] kaddr_eq_iff [OF assms]
    by (auto simp: pword_def)
qed (simp add: pword_def)

lemma ld32_cong4: "(\<And>k. k < 4 \<Longrightarrow> m (a + word_of_nat k) = m' (a + word_of_nat k)) \<Longrightarrow> ld32 m a = ld32 m' a"
proof -
  assume *: "\<And>k. k < 4 \<Longrightarrow> m (a + word_of_nat k) = m' (a + word_of_nat k)"
  show ?thesis using * [of 0] * [of 1] * [of 2] * [of 3] by (simp add: ld32_def)
qed

lemma unat_page_offset:
  assumes "p < 65536" "i < 1024" "q < 65536" "k < 4"
  shows "unat (kaddr p i + word_of_nat k - kaddr q 0) < 4096 \<longleftrightarrow> p = q"
proof -
  have "unat (kaddr p i) mod 4 = 0" using assms by (simp add: unat_kaddr mod_add_eq [symmetric])
  then have "unat (kaddr p i + word_of_nat k) = unat (kaddr p i) + k"
    using assms by (intro unat_add_small) simp_all
  then have u: "unat (kaddr p i + word_of_nat k) = 0xF0000000 + 4096 * p + 4 * i + k"
    using assms by (simp add: unat_kaddr)
  have q: "unat (kaddr q 0) = 0xF0000000 + 4096 * q" using assms by (simp add: unat_kaddr)
  have lo: "4 * i + k < 4096" using assms by simp
  consider "p < q" | "p = q" | "p > q" by linarith
  then show ?thesis
  proof cases
    case 1
    then have "4096 * p + 4096 \<le> 4096 * q" by simp
    then show ?thesis using 1 lo u q assms by (simp add: unat_diff_wrap)
  next
    case 2
    then show ?thesis using lo u q by (simp add: unat_diff_wrap)
  next
    case 3
    then have "4096 * q + 4096 \<le> 4096 * p" by simp
    then show ?thesis using 3 lo u q by (simp add: unat_diff_wrap)
  qed
qed

text \<open>\<open>memset\<close> inside page \<open>q\<close> leaves the words of every other page alone.\<close>

lemma pword_memset_other [pword_simps]:
  assumes "p < 65536" "i < 1024" "q < 65536" "p \<noteq> q" "unat n \<le> 4096"
  shows "pword (memset m (kaddr q 0) c n) p i = pword m p i"
  unfolding pword_def
proof (rule ld32_cong4)
  fix k :: nat assume k: "k < 4"
  show "memset m (kaddr q 0) c n (kaddr p i + word_of_nat k) = m (kaddr p i + word_of_nat k)"
    using unat_page_offset [OF assms(1-3) k] assms(4,5) by (simp add: memset_apply)
qed

lemma pword_memset_zero [pword_simps]:
  assumes "q < 65536" "i < 1024"
  shows "pword (memset m (kaddr q 0) 0 PGSIZE) q i = 0"
proof -
  have "memset m (kaddr q 0) 0 PGSIZE (kaddr q i + word_of_nat k) = 0" if "k < 4" for k
    using unat_page_offset [OF assms(1,2,1) that] by (simp add: memset_apply PGSIZE_def)
  then have "pword (memset m (kaddr q 0) 0 PGSIZE) q i = ld32 (\<lambda>_. 0) (kaddr q i)"
    unfolding pword_def by (intro ld32_cong4) simp
  then show ?thesis by (simp add: ld32_def)
qed

lemma unat_PTE_ADDR: "unat (PTE_ADDR e) = 4096 * pte_page e"
proof -
  have "PTE_ADDR e = push_bit 12 (drop_bit 12 e)"
    by (rule bit_word_eqI) (auto simp: PTE_ADDR_def mask_consts bit_simps)
  then have "PTE_ADDR e = drop_bit 12 e * 4096" by (simp add: push_bit_eq_mult)
  moreover have "unat (drop_bit 12 e) * 4096 < 2 ^ 32"
    using unat32_bound [of e] by (simp add: drop_bit_eq_div unat_div)
  ultimately show ?thesis
    by (simp add: pte_page_def PGNUM_def PTXSHIFT_def unat_word_ariths)
qed

lemma PTE_ADDR_eq: "PTE_ADDR e = word_of_nat (4096 * pte_page e)"
  using unat_PTE_ADDR [of e] by (metis of_nat_unat ucast_id)

lemma PGNUM_PTE_ADDR: "PGNUM (PTE_ADDR e) = PGNUM e"
proof -
  have "unat (PGNUM (PTE_ADDR e)) = unat (PGNUM e)"
    by (simp add: unat_PGNUM unat_PTE_ADDR pte_page_def)
  then show ?thesis by (simp only: word_unat_eq_iff)
qed

lemma pte_page_less: "pte_page e < 2 ^ 20"
  using unat32_bound [of e] by (simp add: pte_page_def unat_PGNUM div_less_iff_less_mult)

text \<open>The addresses the code computes are addresses of words of pages.\<close>

lemma kaddr_entry: "PTE_ADDR e + KERNBASE + 4 * x = kaddr (pte_page e) (unat x)"
  by (simp add: kaddr_def PTE_ADDR_eq algebra_simps)

lemma kaddr_index: "kaddr p 0 + 4 * x = kaddr p (unat x)"
  by (simp add: kaddr_def algebra_simps)

end
