(* ===== verification/Page_Alloc.thy ===== *)
theory Page_Alloc
  imports Phys_Mem
begin

text \<open>
  The physical page allocator of kern/pmap.c with the address conversions of kern/pmap.h, the
  memory detection that sizes it (kern/kclock.c, \<open>i386_detect_memory\<close>) and the boot-time
  allocator it takes over from. The state \<open>kstate\<close> holds the globals of kern/pmap.c, memory, and
  the processor state the paging code changes.

  A \<open>struct PageInfo *\<close> is an index into the array \<open>pages\<close>, with \<open>None\<close> for the null pointer; the
  array is kept apart from the bytes of memory. Following an index outside the array is the
  fault \<open>WildPtr\<close>.
\<close>

section \<open>State\<close>

record page_info =
  pp_link :: "nat option"
  pp_ref :: u16

record kstate =
  npages :: u32
  npages_basemem :: u32
  kern_pgdir :: u32
  pages :: "page_info list"
  pages_va :: u32
  page_free_list :: "nat option"
  nextfree :: u32
  kmem :: memory
  tlb :: "u32 \<Rightarrow> u32 option"
  cr0 :: u32
  cr3 :: u32

text \<open>Access through a \<open>struct PageInfo *\<close>.\<close>

definition get_page :: "kstate \<Rightarrow> nat \<Rightarrow> page_info result" where
  "get_page s pp = (if pp < length (pages s) then Inr (pages s ! pp) else Inl WildPtr)"

definition set_page :: "kstate \<Rightarrow> nat \<Rightarrow> page_info \<Rightarrow> kstate" where
  "set_page s pp v = s\<lparr>pages := (pages s)[pp := v]\<rparr>"

section \<open>Address conversions (kern/pmap.h)\<close>

definition PADDR :: "u32 \<Rightarrow> u32 result" where
  "PADDR kva = (if kva < KERNBASE then Inl (Panic ''PADDR called with invalid kva'')
     else Inr (kva - KERNBASE))"

definition KADDR :: "kstate \<Rightarrow> u32 \<Rightarrow> u32 result" where
  "KADDR s pa = (if PGNUM pa \<ge> npages s then Inl (Panic ''KADDR called with invalid pa'')
     else Inr (pa + KERNBASE))"

definition ALLOC_ZERO :: u32 where [jos_consts]: "ALLOC_ZERO = 1"

definition page2pa :: "nat \<Rightarrow> u32" where
  "page2pa pp = push_bit PGSHIFT (word_of_nat pp)"

definition pa2page :: "kstate \<Rightarrow> u32 \<Rightarrow> nat result" where
  "pa2page s pa = (if PGNUM pa \<ge> npages s then Inl (Panic ''pa2page called with invalid pa'')
     else Inr (unat (PGNUM pa)))"

definition page2kva :: "kstate \<Rightarrow> nat \<Rightarrow> u32 result" where
  "page2kva s pp = KADDR s (page2pa pp)"

section \<open>Detecting memory\<close>

text \<open>
  The CMOS memory of the real-time clock is a map from register numbers to bytes; selecting a
  register and reading it through the ports \<open>0x70\<close> and \<open>0x71\<close> returns the byte.
\<close>

definition mc146818_read :: "(u8 \<Rightarrow> u8) \<Rightarrow> u32 \<Rightarrow> u32" where
  "mc146818_read cmos reg = ucast (cmos (ucast reg))"

definition mc146818_write :: "(u8 \<Rightarrow> u8) \<Rightarrow> u32 \<Rightarrow> u32 \<Rightarrow> (u8 \<Rightarrow> u8)" where
  "mc146818_write cmos reg datum = cmos(ucast reg := ucast datum)"

definition NVRAM_BASELO :: u32 where [jos_consts]: "NVRAM_BASELO = 0xe + 7"
definition NVRAM_EXTLO :: u32 where [jos_consts]: "NVRAM_EXTLO = 0xe + 9"
definition NVRAM_EXT16LO :: u32 where [jos_consts]: "NVRAM_EXT16LO = 0xe + 38"

definition nvram_read :: "(u8 \<Rightarrow> u8) \<Rightarrow> u32 \<Rightarrow> u32" where
  "nvram_read cmos r = mc146818_read cmos r OR push_bit 8 (mc146818_read cmos (r + 1))"

definition i386_detect_memory :: "(u8 \<Rightarrow> u8) \<Rightarrow> kstate \<Rightarrow> kstate" where
  "i386_detect_memory cmos s =
     (let basemem = nvram_read cmos NVRAM_BASELO;
          extmem = nvram_read cmos NVRAM_EXTLO;
          ext16mem = nvram_read cmos NVRAM_EXT16LO * 64;
          totalmem =
            (if ext16mem \<noteq> 0 then 16 * 1024 + ext16mem
             else if extmem \<noteq> 0 then 1 * 1024 + extmem
             else basemem)
      in s\<lparr>npages := totalmem div (PGSIZE div 1024),
           npages_basemem := basemem div (PGSIZE div 1024)\<rparr>)"

section \<open>The boot-time allocator\<close>

text \<open>
  The linker symbol \<open>end\<close> is the parameter \<open>kend\<close>. The function-local static \<open>nextfree\<close> is a field
  of the state, zero until the first call.
\<close>

definition boot_alloc :: "u32 \<Rightarrow> u32 \<Rightarrow> kstate \<Rightarrow> (u32 \<times> kstate) result" where
  "boot_alloc kend n s =
     (let s = (if nextfree s = 0 then s\<lparr>nextfree := ROUNDUP kend PGSIZE\<rparr> else s)
      in if n = 0 then Inr (nextfree s, s)
         else bindR (PADDR (nextfree s)) (\<lambda>pa.
           let volnychBytov = 4 * 1024 * 1024 - pa
           in if n \<le> volnychBytov
              then Inr (nextfree s, s\<lparr>nextfree := ROUNDUP (nextfree s + n) PGSIZE\<rparr>)
              else Inl (Panic ''boot_alloc() - nedostatok volnej pamate'')))"

section \<open>page_init\<close>

text \<open>The first loop puts every page on the free list, so the highest page comes first.\<close>

function page_init_fill :: "u32 \<Rightarrow> kstate \<Rightarrow> kstate result" where
  "page_init_fill i s =
     (if i < npages s
      then (if unat i < length (pages s)
            then page_init_fill (i + 1)
                   (s\<lparr>pages := (pages s)[unat i := \<lparr>pp_link = page_free_list s, pp_ref = 0\<rparr>],
                      page_free_list := Some (unat i)\<rparr>)
            else Inl WildPtr)
      else Inr s)"
  by pat_completeness auto
termination
  by (relation "measure (\<lambda>(i, s). unat (npages s) - unat i)") (auto simp: less_diff_suc)

declare page_init_fill.simps [simp del]

text \<open>
  The second loop walks the list through a pointer to a pointer, \<open>smernik\<close>: the list head or the
  link field of a page. It unlinks the pages from the I/O hole to the end of the boot-time
  allocations, and page 0.
\<close>

datatype slot = Head | LinkOf nat

definition read_slot :: "kstate \<Rightarrow> slot \<Rightarrow> nat option result" where
  "read_slot s sl =
     (case sl of Head \<Rightarrow> Inr (page_free_list s)
      | LinkOf i \<Rightarrow> bindR (get_page s i) (\<lambda>pi. Inr (pp_link pi)))"

definition write_slot :: "kstate \<Rightarrow> slot \<Rightarrow> nat option \<Rightarrow> kstate result" where
  "write_slot s sl v =
     (case sl of Head \<Rightarrow> Inr (s\<lparr>page_free_list := v\<rparr>)
      | LinkOf i \<Rightarrow> bindR (get_page s i) (\<lambda>pi. Inr (set_page s i (pi\<lparr>pp_link := v\<rparr>))))"

definition unlink_page :: "kstate \<Rightarrow> slot \<Rightarrow> nat \<Rightarrow> kstate result" where
  "unlink_page s sl pp =
     bindR (get_page s pp) (\<lambda>pi.
       write_slot (set_page s pp (pi\<lparr>pp_ref := 1, pp_link := None\<rparr>)) sl (pp_link pi))"

definition in_kernel_hole :: "u32 \<Rightarrow> nat \<Rightarrow> kstate \<Rightarrow> (bool \<times> kstate) result" where
  "in_kernel_hole kend pp s =
     (if page2pa pp \<ge> IOPHYSMEM
      then bindR (boot_alloc kend 0 s) (\<lambda>(va, s).
             bindR (PADDR va) (\<lambda>lim. Inr (page2pa pp < lim, s)))
      else Inr (False, s))"

partial_function (option) page_init_scan :: "u32 \<Rightarrow> slot \<Rightarrow> kstate \<Rightarrow> kstate result option" where
  "page_init_scan kend sl s =
     (case read_slot s sl of
        Inl e \<Rightarrow> Some (Inl e)
      | Inr None \<Rightarrow> Some (Inr s)
      | Inr (Some pp) \<Rightarrow>
          (case in_kernel_hole kend pp s of
             Inl e \<Rightarrow> Some (Inl e)
           | Inr (hole, s') \<Rightarrow>
               if hole \<or> page2pa pp = 0
               then (case unlink_page s' sl pp of
                       Inl e \<Rightarrow> Some (Inl e)
                     | Inr s'' \<Rightarrow> page_init_scan kend sl s'')
               else page_init_scan kend (LinkOf pp) s'))"

definition page_init :: "u32 \<Rightarrow> kstate \<Rightarrow> kstate result option" where
  "page_init kend s =
     (case page_init_fill 0 s of Inl e \<Rightarrow> Some (Inl e) | Inr s \<Rightarrow> page_init_scan kend Head s)"

section \<open>page_alloc, page_free, page_decref\<close>

definition page_alloc :: "u32 \<Rightarrow> kstate \<Rightarrow> (nat option \<times> kstate) result" where
  "page_alloc alloc_flags s =
     (case page_free_list s of
        None \<Rightarrow> Inr (None, s)
      | Some pp \<Rightarrow>
          bindR (get_page s pp) (\<lambda>pi.
            let s = s\<lparr>page_free_list := pp_link pi\<rparr>;
                s = set_page s pp (pi\<lparr>pp_link := None\<rparr>)
            in if alloc_flags AND ALLOC_ZERO \<noteq> 0
               then bindR (page2kva s pp) (\<lambda>va.
                      Inr (Some pp, s\<lparr>kmem := memset (kmem s) va 0 PGSIZE\<rparr>))
               else Inr (Some pp, s)))"

definition page_free :: "nat \<Rightarrow> kstate \<Rightarrow> kstate result" where
  "page_free pp s =
     bindR (get_page s pp) (\<lambda>pi.
       if pp_ref pi \<noteq> 0 \<or> pp_link pi \<noteq> None
       then Inl (Panic ''page_free() - pp_ref is nonzero or pp_link is not NULL'')
       else Inr ((set_page s pp (pi\<lparr>pp_link := page_free_list s\<rparr>))\<lparr>page_free_list := Some pp\<rparr>))"

definition page_decref :: "nat \<Rightarrow> kstate \<Rightarrow> kstate result" where
  "page_decref pp s =
     bindR (get_page s pp) (\<lambda>pi.
       let s = set_page s pp (pi\<lparr>pp_ref := pp_ref pi - 1\<rparr>)
       in if pp_ref pi - 1 = 0 then page_free pp s else Inr s)"

section \<open>Lemmas on the address conversions\<close>

lemma unat_page2pa: "p < 2 ^ 20 \<Longrightarrow> unat (page2pa p) = 4096 * p"
proof -
  assume p: "p < 2 ^ 20"
  have "page2pa p = word_of_nat (4096 * p)"
    by (simp add: page2pa_def PGSHIFT_def push_bit_eq_mult)
  also have "unat (word_of_nat (4096 * p) :: u32) = 4096 * p"
    using p by (intro unat_of_nat32) simp
  finally show ?thesis .
qed

lemma PGNUM_page2pa: "p < 2 ^ 20 \<Longrightarrow> unat (PGNUM (page2pa p)) = p"
  by (simp add: unat_PGNUM unat_page2pa)

lemma page2kva_ok:
  "p < unat (npages s) \<Longrightarrow> npages s \<le> 0x10000 \<Longrightarrow> page2kva s p = Inr (kaddr p 0)"
proof -
  assume p: "p < unat (npages s)" and n: "npages s \<le> 0x10000"
  from n have "unat (npages s) \<le> 65536" by (simp add: word_le_nat_alt)
  with p have "p < 65536" by simp
  then have "unat (PGNUM (page2pa p)) = p" by (simp add: PGNUM_page2pa)
  then have "\<not> npages s \<le> PGNUM (page2pa p)" using p by (simp add: word_le_nat_alt)
  moreover have "page2pa p + KERNBASE = kaddr p 0"
    by (simp add: page2pa_def PGSHIFT_def kaddr_def push_bit_eq_mult)
  ultimately show ?thesis by (simp add: page2kva_def KADDR_def)
qed

lemma pa2page_page2pa:
  "p < unat (npages s) \<Longrightarrow> npages s \<le> 0x10000 \<Longrightarrow> pa2page s (page2pa p) = Inr p"
proof -
  assume p: "p < unat (npages s)" and n: "npages s \<le> 0x10000"
  from n have "unat (npages s) \<le> 65536" by (simp add: word_le_nat_alt)
  with p have "unat (PGNUM (page2pa p)) = p" by (simp add: PGNUM_page2pa)
  with p show ?thesis by (simp add: pa2page_def word_le_nat_alt)
qed

section \<open>Lists through the link fields\<close>

text \<open>
  \<open>path ps p xs q\<close>: following the links from \<open>p\<close> visits the pages \<open>xs\<close>, each inside the array,
  and arrives at \<open>q\<close>.
\<close>

fun path :: "page_info list \<Rightarrow> nat option \<Rightarrow> nat list \<Rightarrow> nat option \<Rightarrow> bool" where
  "path ps p [] q \<longleftrightarrow> p = q"
| "path ps p (x # xs) q \<longleftrightarrow> p = Some x \<and> x < length ps \<and> path ps (pp_link (ps ! x)) xs q"

lemma path_append: "path ps p (xs @ ys) q \<longleftrightarrow> (\<exists>r. path ps p xs r \<and> path ps r ys q)"
  by (induction xs arbitrary: p) auto

lemma path_update [simp]: "x \<notin> set xs \<Longrightarrow> path (ps[x := v]) p xs q = path ps p xs q"
  by (induction xs arbitrary: p) auto

lemma path_set: "path ps p xs q \<Longrightarrow> x \<in> set xs \<Longrightarrow> x < length ps"
  by (induction xs arbitrary: p) auto

lemma path_unique: "path ps p xs None \<Longrightarrow> path ps p ys None \<Longrightarrow> xs = ys"
proof (induction xs arbitrary: p ys)
  case Nil
  then show ?case by (cases ys) auto
next
  case (Cons x xs)
  then show ?case by (cases ys) auto
qed

lemma path_distinct: "path ps p xs None \<Longrightarrow> distinct xs"
proof (induction xs arbitrary: p)
  case (Cons x xs)
  have "x \<notin> set xs"
  proof
    assume "x \<in> set xs"
    then obtain us vs where "xs = us @ x # vs" by (auto simp: in_set_conv_decomp)
    with Cons.prems have "path ps (pp_link (ps ! x)) (us @ x # vs) None"
      and "path ps (pp_link (ps ! x)) vs None" by (auto simp: path_append)
    then have "us @ x # vs = vs" by (rule path_unique)
    then have "length (us @ x # vs) = length vs" by simp
    then show False by simp
  qed
  with Cons show ?case by auto
qed simp

section \<open>The allocator invariant\<close>

text \<open>
  \<open>free_chain s xs\<close>: the list headed by \<open>page_free_list\<close> is \<open>xs\<close>, and the pages on it have no
  references. \<open>free_list s xs\<close> adds that every page off the list has a null link, which
  \<open>page_free\<close> checks. Both are about machines with at most 256 MB (\<open>0x10000\<close> pages), the
  memory that fits above \<open>KERNBASE\<close> in the address space.
\<close>

definition free_chain :: "kstate \<Rightarrow> nat list \<Rightarrow> bool" where
  "free_chain s xs \<longleftrightarrow>
     path (pages s) (page_free_list s) xs None \<and>
     length (pages s) = unat (npages s) \<and> npages s \<le> 0x10000 \<and>
     (\<forall>x\<in>set xs. pp_ref (pages s ! x) = 0)"

definition free_list :: "kstate \<Rightarrow> nat list \<Rightarrow> bool" where
  "free_list s xs \<longleftrightarrow> free_chain s xs \<and>
     (\<forall>i<length (pages s). i \<notin> set xs \<longrightarrow> pp_link (pages s ! i) = None)"

text \<open>A page that may be freed: no references, not linked.\<close>

definition loose :: "kstate \<Rightarrow> nat \<Rightarrow> bool" where
  "loose s x \<longleftrightarrow> x < length (pages s) \<and> pp_ref (pages s ! x) = 0 \<and> pp_link (pages s ! x) = None"

lemma free_chainD:
  assumes "free_chain s xs"
  shows "path (pages s) (page_free_list s) xs None" "length (pages s) = unat (npages s)"
    "npages s \<le> 0x10000" "distinct xs" "x \<in> set xs \<Longrightarrow> x < unat (npages s)"
    "x \<in> set xs \<Longrightarrow> pp_ref (pages s ! x) = 0" "x \<in> set xs \<Longrightarrow> x < 65536"
proof -
  show p: "path (pages s) (page_free_list s) xs None" and l: "length (pages s) = unat (npages s)"
    and n: "npages s \<le> 0x10000"
    using assms by (simp_all add: free_chain_def)
  then show "distinct xs" by (blast intro: path_distinct)
  show x: "x \<in> set xs \<Longrightarrow> x < unat (npages s)" using path_set [OF p, of x] l by simp
  then show "x \<in> set xs \<Longrightarrow> x < 65536" using n by (simp add: word_le_nat_alt)
  show "x \<in> set xs \<Longrightarrow> pp_ref (pages s ! x) = 0" using assms by (simp add: free_chain_def)
qed

lemma free_list_chain: "free_list s xs \<Longrightarrow> free_chain s xs"
  by (simp add: free_list_def)

lemma free_list_unlinked:
  "free_list s xs \<Longrightarrow> i < length (pages s) \<Longrightarrow> i \<notin> set xs \<Longrightarrow> pp_link (pages s ! i) = None"
  by (simp add: free_list_def)

lemma free_chain_unique: "free_chain s xs \<Longrightarrow> free_chain s ys \<Longrightarrow> xs = ys"
  by (blast dest: free_chainD(1) intro: path_unique)

section \<open>What the operations do\<close>

text \<open>The state \<open>page_alloc\<close> leaves behind when it hands out page \<open>pp\<close>.\<close>

definition alloc_state :: "u32 \<Rightarrow> nat \<Rightarrow> kstate \<Rightarrow> kstate" where
  "alloc_state flags pp s = s\<lparr>page_free_list := pp_link (pages s ! pp),
     pages := (pages s)[pp := (pages s ! pp)\<lparr>pp_link := None\<rparr>],
     kmem := (if flags AND ALLOC_ZERO \<noteq> 0 then memset (kmem s) (kaddr pp 0) 0 PGSIZE else kmem s)\<rparr>"

text \<open>The state \<open>page_free\<close> leaves behind.\<close>

definition free_state :: "nat \<Rightarrow> kstate \<Rightarrow> kstate" where
  "free_state pp s = s\<lparr>page_free_list := Some pp,
     pages := (pages s)[pp := (pages s ! pp)\<lparr>pp_link := page_free_list s\<rparr>]\<rparr>"

lemma page_alloc_Nil: "free_chain s [] \<Longrightarrow> page_alloc flags s = Inr (None, s)"
  by (auto simp: free_chain_def page_alloc_def)

lemma page_alloc_Cons:
  assumes "free_chain s (x # xs)"
  shows "page_alloc flags s = Inr (Some x, alloc_state flags x s)"
    and "free_chain (alloc_state flags x s) xs"
    and "loose (alloc_state flags x s) x"
    and "loose s y \<Longrightarrow> loose (alloc_state flags x s) y"
proof -
  note f = free_chainD [OF assms]
  have x: "x < length (pages s)" "page_free_list s = Some x" and n: "npages s \<le> 0x10000"
    and px: "path (pages s) (pp_link (pages s ! x)) xs None"
    using f(1,2,3) f(5) [of x] by auto
  have d: "x \<notin> set xs" using f(4) by simp
  have "page2kva (set_page (s\<lparr>page_free_list := pp_link (pages s ! x)\<rparr>) x v) x = Inr (kaddr x 0)" for v
    using x f(2) n by (intro page2kva_ok) (simp_all add: set_page_def)
  then show "page_alloc flags s = Inr (Some x, alloc_state flags x s)"
    using x by (simp add: page_alloc_def get_page_def alloc_state_def set_page_def Let_def)
  show "free_chain (alloc_state flags x s) xs"
    using assms x px d by (auto simp: free_chain_def alloc_state_def nth_list_update)
  show "loose (alloc_state flags x s) x" "loose s y \<Longrightarrow> loose (alloc_state flags x s) y"
    using x f(6) [of x] by (auto simp: loose_def alloc_state_def nth_list_update)
qed

lemma page_free_Cons:
  assumes "free_chain s xs" "x \<notin> set xs" "loose s x"
  shows "page_free x s = Inr (free_state x s)"
    and "free_chain (free_state x s) (x # xs)"
    and "y \<noteq> x \<Longrightarrow> loose s y \<Longrightarrow> loose (free_state x s) y"
  using assms
  by (auto simp: page_free_def get_page_def set_page_def free_chain_def free_state_def loose_def
      nth_list_update)

lemma alloc_state_free_list:
  "free_list s (x # xs) \<Longrightarrow> free_list (alloc_state flags x s) xs"
  using page_alloc_Cons(2) [of s x xs] free_chainD(2) [of s "x # xs"] free_chainD(5) [of s "x # xs" x]
  by (auto simp: free_list_def alloc_state_def nth_list_update)

lemma free_state_free_list:
  "free_list s xs \<Longrightarrow> x \<notin> set xs \<Longrightarrow> loose s x \<Longrightarrow> free_list (free_state x s) (x # xs)"
  using page_free_Cons(2) [of s xs x] by (auto simp: free_list_def free_state_def nth_list_update)

lemma page_free_panics:
  "pp < length (pages s) \<Longrightarrow> \<not> loose s pp \<Longrightarrow>
    page_free pp s = Inl (Panic ''page_free() - pp_ref is nonzero or pp_link is not NULL'')"
  by (auto simp: page_free_def get_page_def loose_def)

text \<open>\<open>page_decref\<close>: one reference fewer; the last one puts the page on the free list.\<close>

definition decref_state :: "nat \<Rightarrow> kstate \<Rightarrow> kstate" where
  "decref_state pp s =
     (if pp_ref (pages s ! pp) = 1
      then s\<lparr>page_free_list := Some pp, pages := (pages s)[pp := \<lparr>pp_link = page_free_list s, pp_ref = 0\<rparr>]\<rparr>
      else s\<lparr>pages := (pages s)[pp := (pages s ! pp)\<lparr>pp_ref := pp_ref (pages s ! pp) - 1\<rparr>]\<rparr>)"

lemma page_decref_ok:
  assumes "pp < length (pages s)" "pp_link (pages s ! pp) = None"
  shows "page_decref pp s = Inr (decref_state pp s)"
proof -
  have "pp_ref (pages s ! pp) - 1 = 0 \<longleftrightarrow> pp_ref (pages s ! pp) = 1" by (rule right_minus_eq)
  then show ?thesis
    using assms by (cases "pages s ! pp")
      (auto simp: page_decref_def page_free_def get_page_def set_page_def decref_state_def Let_def)
qed

lemma decref_state_free_list:
  assumes "free_list s xs" "pp < length (pages s)" "pp \<notin> set xs"
  shows "free_list (decref_state pp s) (if pp_ref (pages s ! pp) = 1 then pp # xs else xs)"
  using assms by (auto simp: free_list_def free_chain_def decref_state_def nth_list_update)

section \<open>The interface of a page source\<close>

text \<open>
  What the users of the allocator rely on: pages are taken from the front of a list and given
  back to its front. \<open>loose\<close> marks the pages a user may give back. The lemmas of the locale are
  the facts its users share; the interpretation discharges the laws for \<open>page_alloc\<close> and
  \<open>page_free\<close>, for any flags.
\<close>

locale page_source =
  fixes alloc :: "'s \<Rightarrow> ('p option \<times> 's) result"
    and release :: "'p \<Rightarrow> 's \<Rightarrow> 's result"
    and chain :: "'s \<Rightarrow> 'p list \<Rightarrow> bool"
    and loose_page :: "'s \<Rightarrow> 'p \<Rightarrow> bool"
  assumes alloc_empty: "chain s [] \<Longrightarrow> alloc s = Inr (None, s)"
    and alloc_front: "chain s (x # xs) \<Longrightarrow>
      \<exists>s'. alloc s = Inr (Some x, s') \<and> chain s' xs \<and> loose_page s' x \<and>
        (\<forall>y. loose_page s y \<longrightarrow> loose_page s' y)"
    and release_front: "chain s xs \<Longrightarrow> x \<notin> set xs \<Longrightarrow> loose_page s x \<Longrightarrow>
      \<exists>s'. release x s = Inr s' \<and> chain s' (x # xs) \<and>
        (\<forall>y. y \<noteq> x \<longrightarrow> loose_page s y \<longrightarrow> loose_page s' y)"
    and chain_distinct: "chain s xs \<Longrightarrow> distinct xs"
begin

text \<open>Three pages in a row are different pages, and all may be given back.\<close>

lemma alloc_three:
  assumes "chain s (x # y # z # xs)"
  shows "\<exists>s1 s2 s3. alloc s = Inr (Some x, s1) \<and> alloc s1 = Inr (Some y, s2) \<and>
    alloc s2 = Inr (Some z, s3) \<and> chain s3 xs \<and>
    loose_page s3 x \<and> loose_page s3 y \<and> loose_page s3 z \<and> distinct [x, y, z]"
proof -
  obtain s1 where 1: "alloc s = Inr (Some x, s1)" "chain s1 (y # z # xs)" "loose_page s1 x"
    using alloc_front [OF assms] by blast
  obtain s2 where 2: "alloc s1 = Inr (Some y, s2)" "chain s2 (z # xs)" "loose_page s2 y"
    "\<forall>y. loose_page s1 y \<longrightarrow> loose_page s2 y"
    using alloc_front [OF 1(2)] by blast
  obtain s3 where 3: "alloc s2 = Inr (Some z, s3)" "chain s3 xs" "loose_page s3 z"
    "\<forall>y. loose_page s2 y \<longrightarrow> loose_page s3 y"
    using alloc_front [OF 2(2)] by blast
  show ?thesis using 1 2 3 chain_distinct [OF assms] by auto
qed

text \<open>A page given back is the next one handed out.\<close>

lemma release_alloc:
  assumes "chain s xs" "x \<notin> set xs" "loose_page s x"
  shows "\<exists>s1 s2. release x s = Inr s1 \<and> alloc s1 = Inr (Some x, s2) \<and> chain s2 xs \<and>
    loose_page s2 x \<and> (\<forall>y. loose_page s y \<longrightarrow> loose_page s2 y)"
proof -
  obtain s1 where 1: "release x s = Inr s1" "chain s1 (x # xs)"
    "\<forall>y. y \<noteq> x \<longrightarrow> loose_page s y \<longrightarrow> loose_page s1 y"
    using release_front [OF assms] by blast
  obtain s2 where 2: "alloc s1 = Inr (Some x, s2)" "chain s2 xs" "loose_page s2 x"
    "\<forall>y. loose_page s1 y \<longrightarrow> loose_page s2 y"
    using alloc_front [OF 1(2)] by blast
  show ?thesis using 1 2 by metis
qed

text \<open>Three pages given back come out in the opposite order.\<close>

lemma release_three:
  assumes "chain s xs" "distinct [x, y, z]" "x \<notin> set xs" "y \<notin> set xs" "z \<notin> set xs"
    "loose_page s x" "loose_page s y" "loose_page s z"
  shows "\<exists>s1 s2 s3. release x s = Inr s1 \<and> release y s1 = Inr s2 \<and> release z s2 = Inr s3 \<and>
    chain s3 (z # y # x # xs)"
proof -
  obtain s1 where 1: "release x s = Inr s1" "chain s1 (x # xs)" "loose_page s1 y" "loose_page s1 z"
    using release_front [OF assms(1,3,6)] assms(2,7,8) by auto
  obtain s2 where 2: "release y s1 = Inr s2" "chain s2 (y # x # xs)" "loose_page s2 z"
    using release_front [OF 1(2), of y] 1 assms(2,4) by auto
  obtain s3 where 3: "release z s2 = Inr s3" "chain s3 (z # y # x # xs)"
    using release_front [OF 2(2), of z] 2 assms(2,5) by auto
  show ?thesis using 1 2 3 by blast
qed

end

interpretation pa: page_source "page_alloc flags" page_free free_chain loose for flags
proof
  show "free_chain s [] \<Longrightarrow> page_alloc flags s = Inr (None, s)" for s by (rule page_alloc_Nil)
  show "free_chain s (x # xs) \<Longrightarrow> \<exists>s'. page_alloc flags s = Inr (Some x, s') \<and> free_chain s' xs \<and>
      loose s' x \<and> (\<forall>y. loose s y \<longrightarrow> loose s' y)" for s x xs
    using page_alloc_Cons [of s x xs] by blast
  show "free_chain s xs \<Longrightarrow> x \<notin> set xs \<Longrightarrow> loose s x \<Longrightarrow> \<exists>s'. page_free x s = Inr s' \<and>
      free_chain s' (x # xs) \<and> (\<forall>y. y \<noteq> x \<longrightarrow> loose s y \<longrightarrow> loose s' y)" for s xs x
    using page_free_Cons [of s xs x] by blast
  show "free_chain s xs \<Longrightarrow> distinct xs" for s xs by (rule free_chainD(4))
qed

section \<open>page_init\<close>

lemma pages_free_idem: "s\<lparr>pages := pages s, page_free_list := page_free_list s\<rparr> = s"
  "s\<lparr>pages := ps, page_free_list := page_free_list s\<rparr> = s\<lparr>pages := ps\<rparr>"
  by (cases s; simp)+

lemma page_init_fill_correct:
  "length (pages s) = unat (npages s) \<Longrightarrow> i \<le> npages s \<Longrightarrow>
    path (pages s) (page_free_list s) (rev [0..<unat i]) None \<Longrightarrow>
    (\<forall>j<unat i. pp_ref (pages s ! j) = 0) \<Longrightarrow>
    \<exists>ps p. page_init_fill i s = Inr (s\<lparr>pages := ps, page_free_list := p\<rparr>) \<and>
      length ps = unat (npages s) \<and> path ps p (rev [0..<unat (npages s)]) None \<and>
      (\<forall>j<unat (npages s). pp_ref (ps ! j) = 0)"
proof (induction i s rule: page_init_fill.induct)
  case (1 i s)
  show ?case
  proof (cases "i < npages s")
    case True
    let ?s = "s\<lparr>pages := (pages s)[unat i := \<lparr>pp_link = page_free_list s, pp_ref = 0\<rparr>],
                page_free_list := Some (unat i)\<rparr>"
    have u: "unat (i + 1) = Suc (unat i)" using unat_Suc [OF True] by simp
    have lt: "unat i < length (pages s)" using True "1.prems"(1) by (simp add: word_less_nat_alt)
    have "i + 1 \<le> npages s" using True by (simp add: word_le_nat_alt word_less_nat_alt u)
    moreover have "path (pages ?s) (page_free_list ?s) (rev [0..<unat (i + 1)]) None"
      using "1.prems"(3) lt by (simp add: u)
    moreover have "\<forall>j<unat (i + 1). pp_ref (pages ?s ! j) = 0"
      using "1.prems"(4) lt by (auto simp: u nth_list_update less_Suc_eq)
    ultimately show ?thesis
      using "1.IH" [OF True lt] "1.prems"(1) True lt by (subst page_init_fill.simps) simp
  next
    case False
    then have "i = npages s" using "1.prems"(2) by simp
    then show ?thesis
      using "1.prems" pages_free_idem(1) [of s]
      by (subst page_init_fill.simps) (auto intro!: exI [of _ "pages s"] exI [of _ "page_free_list s"])
  qed
qed

lemma ex_pages:
  "length ps' = n \<Longrightarrow>
    \<exists>ps. (\<exists>p. s\<lparr>pages := ps'\<rparr> = s\<lparr>pages := ps, page_free_list := p\<rparr>) \<and> length ps = n"
  using pages_free_idem(2) [of s ps'] by metis

text \<open>The pages the scan leaves on the free list, for the end \<open>lim\<close> of the boot-time allocations.\<close>

definition page_usable :: "u32 \<Rightarrow> nat \<Rightarrow> bool" where
  "page_usable lim pp \<longleftrightarrow> pp \<noteq> 0 \<and> \<not> (IOPHYSMEM \<le> page2pa pp \<and> page2pa pp < lim)"

definition slot_at :: "nat list \<Rightarrow> slot" where
  "slot_at xs = (if xs = [] then Head else LinkOf (last xs))"

lemma read_slot_path:
  "path (pages s) (page_free_list s) (xs @ ys) None \<Longrightarrow>
    \<exists>v. read_slot s (slot_at xs) = Inr v \<and> path (pages s) (page_free_list s) xs v \<and> path (pages s) v ys None"
proof (cases xs rule: rev_cases)
  case (snoc zs z)
  assume p: "path (pages s) (page_free_list s) (xs @ ys) None"
  then have "z < length (pages s)" using path_set [OF p, of z] snoc by simp
  then show ?thesis using p snoc by (auto simp: path_append slot_at_def read_slot_def get_page_def)
qed (simp add: slot_at_def read_slot_def)

lemma page2pa_0_iff: "p < 2 ^ 20 \<Longrightarrow> page2pa p = 0 \<longleftrightarrow> p = 0"
  using unat_page2pa [of p] unat_eq_zero [of "page2pa p"] by auto

lemma in_kernel_hole_eq:
  assumes "nextfree s \<noteq> 0" "KERNBASE \<le> nextfree s" "pp < 2 ^ 20"
  shows "\<exists>b. in_kernel_hole kend pp s = Inr (b, s) \<and>
    (b \<or> page2pa pp = 0 \<longleftrightarrow> \<not> page_usable (nextfree s - KERNBASE) pp)"
  using assms page2pa_0_iff [of pp]
  by (auto simp: in_kernel_hole_def boot_alloc_def PADDR_def page_usable_def)

lemma unlink_page_path:
  assumes p: "path (pages s) (page_free_list s) (xs @ y # ys) None"
  shows "\<exists>s'. unlink_page s (slot_at xs) y = Inr s' \<and>
    path (pages s') (page_free_list s') (xs @ ys) None \<and>
    (\<exists>ps p. s' = s\<lparr>pages := ps, page_free_list := p\<rparr> \<and> length ps = length (pages s)) \<and>
    pages s' ! y = \<lparr>pp_link = None, pp_ref = 1\<rparr> \<and>
    (\<forall>i. i \<noteq> y \<longrightarrow> pp_ref (pages s' ! i) = pp_ref (pages s ! i)) \<and>
    (\<forall>i. i \<noteq> y \<longrightarrow> i \<notin> set xs \<longrightarrow> pages s' ! i = pages s ! i)"
proof -
  have y: "y < length (pages s)" using path_set [OF p, of y] by simp
  have d: "distinct (xs @ y # ys)" using p by (rule path_distinct)
  show ?thesis
  proof (cases xs rule: rev_cases)
    case Nil
    then show ?thesis
      using p y d
      by (auto simp: unlink_page_def get_page_def slot_at_def write_slot_def set_page_def)
  next
    case (snoc zs z)
    have z: "z < length (pages s)" "z \<noteq> y" "z \<notin> set zs" "z \<notin> set ys"
      using path_set [OF p, of z] d snoc by auto
    then show ?thesis
      using p y d snoc
      by (auto simp: unlink_page_def get_page_def slot_at_def write_slot_def set_page_def
          path_append nth_list_update list_update_swap intro!: ex_pages)
  qed
qed

lemma page_init_scan_correct:
  "path (pages s) (page_free_list s) (xs @ ys) None \<Longrightarrow>
    nextfree s \<noteq> 0 \<Longrightarrow> KERNBASE \<le> nextfree s \<Longrightarrow> length (pages s) \<le> 2 ^ 20 \<Longrightarrow>
    lim = nextfree s - KERNBASE \<Longrightarrow>
    \<exists>ps p. page_init_scan kend (slot_at xs) s = Some (Inr (s\<lparr>pages := ps, page_free_list := p\<rparr>)) \<and>
      length ps = length (pages s) \<and> path ps p (xs @ filter (page_usable lim) ys) None \<and>
      (\<forall>y\<in>set ys. \<not> page_usable lim y \<longrightarrow> ps ! y = \<lparr>pp_link = None, pp_ref = 1\<rparr>) \<and>
      (\<forall>i. i \<in> set xs \<or> i \<notin> set ys \<or> page_usable lim i \<longrightarrow> pp_ref (ps ! i) = pp_ref (pages s ! i)) \<and>
      (\<forall>i. i \<notin> set xs \<longrightarrow> i \<notin> set ys \<longrightarrow> ps ! i = pages s ! i)"
proof (induction ys arbitrary: xs s)
  case Nil
  then show ?case using read_slot_path [of s xs "[]"]
    by (subst page_init_scan.simps) (auto intro!: exI [of _ "pages s"] exI [of _ "page_free_list s"])
next
  case (Cons y ys)
  have y: "y < length (pages s)" using path_set [OF Cons.prems(1), of y] by simp
  have d: "distinct (xs @ y # ys)" using Cons.prems(1) by (rule path_distinct)
  have rd: "read_slot s (slot_at xs) = Inr (Some y)" using read_slot_path [OF Cons.prems(1)] by simp
  obtain b where b: "in_kernel_hole kend y s = Inr (b, s)"
    "b \<or> page2pa y = 0 \<longleftrightarrow> \<not> page_usable lim y"
    using in_kernel_hole_eq [OF Cons.prems(2,3), of y kend] y Cons.prems(4,5) by auto
  show ?case
  proof (cases "page_usable lim y")
    case True
    have "page_init_scan kend (slot_at xs) s = page_init_scan kend (slot_at (xs @ [y])) s"
      using rd b True by (subst page_init_scan.simps) (simp add: slot_at_def)
    moreover obtain ps p where
      "page_init_scan kend (slot_at (xs @ [y])) s = Some (Inr (s\<lparr>pages := ps, page_free_list := p\<rparr>))"
      "length ps = length (pages s)" "path ps p ((xs @ [y]) @ filter (page_usable lim) ys) None"
      "\<forall>y\<in>set ys. \<not> page_usable lim y \<longrightarrow> ps ! y = \<lparr>pp_link = None, pp_ref = 1\<rparr>"
      "\<forall>i. i \<in> set (xs @ [y]) \<or> i \<notin> set ys \<or> page_usable lim i \<longrightarrow> pp_ref (ps ! i) = pp_ref (pages s ! i)"
      "\<forall>i. i \<notin> set (xs @ [y]) \<longrightarrow> i \<notin> set ys \<longrightarrow> ps ! i = pages s ! i"
      using Cons.IH [of s "xs @ [y]"] Cons.prems by auto
    ultimately show ?thesis
      using True by (intro exI [of _ ps] exI [of _ p]) auto
  next
    case False
    obtain s' ps' p' where s': "unlink_page s (slot_at xs) y = Inr s'"
      "path (pages s') (page_free_list s') (xs @ ys) None"
      "s' = s\<lparr>pages := ps', page_free_list := p'\<rparr>" "length ps' = length (pages s)"
      "pages s' ! y = \<lparr>pp_link = None, pp_ref = 1\<rparr>"
      "\<forall>i. i \<noteq> y \<longrightarrow> pp_ref (pages s' ! i) = pp_ref (pages s ! i)"
      "\<forall>i. i \<noteq> y \<longrightarrow> i \<notin> set xs \<longrightarrow> pages s' ! i = pages s ! i"
      using unlink_page_path [OF Cons.prems(1)] by blast
    have step: "page_init_scan kend (slot_at xs) s = page_init_scan kend (slot_at xs) s'"
      using rd b False s'(1) by (subst page_init_scan.simps) simp
    have fields: "nextfree s' = nextfree s" "length (pages s') = length (pages s)"
      using s'(3,4) by simp_all
    obtain ps p where r: "page_init_scan kend (slot_at xs) s' = Some (Inr (s'\<lparr>pages := ps, page_free_list := p\<rparr>))"
      "length ps = length (pages s')" "path ps p (xs @ filter (page_usable lim) ys) None"
      "\<forall>y\<in>set ys. \<not> page_usable lim y \<longrightarrow> ps ! y = \<lparr>pp_link = None, pp_ref = 1\<rparr>"
      "\<forall>i. i \<in> set xs \<or> i \<notin> set ys \<or> page_usable lim i \<longrightarrow> pp_ref (ps ! i) = pp_ref (pages s' ! i)"
      "\<forall>i. i \<notin> set xs \<longrightarrow> i \<notin> set ys \<longrightarrow> ps ! i = pages s' ! i"
      using Cons.IH [OF s'(2)] Cons.prems(2-5) unfolding fields by blast
    have "s'\<lparr>pages := ps, page_free_list := p\<rparr> = s\<lparr>pages := ps, page_free_list := p\<rparr>"
      using s'(3) by simp
    moreover have "ps ! y = \<lparr>pp_link = None, pp_ref = 1\<rparr>" using r(6) s'(5) d by auto
    ultimately show ?thesis
      using step r s'(6,7) fields d False by (intro exI [of _ ps] exI [of _ p]) auto
  qed
qed

lemma page_init_spec:
  assumes "length (pages s) = unat (npages s)" "npages s \<le> 0x10000" "page_free_list s = None"
    "nextfree s \<noteq> 0" "KERNBASE \<le> nextfree s"
  shows "\<exists>ps p. page_init kend s = Some (Inr (s\<lparr>pages := ps, page_free_list := p\<rparr>)) \<and>
    free_list (s\<lparr>pages := ps, page_free_list := p\<rparr>)
      (filter (page_usable (nextfree s - KERNBASE)) (rev [0..<unat (npages s)])) \<and>
    (\<forall>i<unat (npages s). \<not> page_usable (nextfree s - KERNBASE) i \<longrightarrow> pp_ref (ps ! i) = 1)"
proof -
  let ?n = "unat (npages s)" and ?lim = "nextfree s - KERNBASE"
  obtain ps p where f: "page_init_fill 0 s = Inr (s\<lparr>pages := ps, page_free_list := p\<rparr>)"
    "length ps = ?n" "path ps p (rev [0..<?n]) None" "\<forall>j<?n. pp_ref (ps ! j) = 0"
    using page_init_fill_correct [of s 0] assms(1,3) by auto
  let ?s = "s\<lparr>pages := ps, page_free_list := p\<rparr>"
  have n: "?n \<le> 65536" using assms(2) by (simp add: word_le_nat_alt)
  obtain ps' p' where g: "page_init_scan kend (slot_at []) ?s = Some (Inr (?s\<lparr>pages := ps', page_free_list := p'\<rparr>))"
    "length ps' = ?n" "path ps' p' (filter (page_usable ?lim) (rev [0..<?n])) None"
    "\<forall>y\<in>set (rev [0..<?n]). \<not> page_usable ?lim y \<longrightarrow> ps' ! y = \<lparr>pp_link = None, pp_ref = 1\<rparr>"
    "\<forall>i. page_usable ?lim i \<longrightarrow> pp_ref (ps' ! i) = pp_ref (ps ! i)"
    using page_init_scan_correct [of ?s "[]" "rev [0..<?n]" ?lim kend] f assms(4,5) n by auto
  have "page_init kend s = Some (Inr (s\<lparr>pages := ps', page_free_list := p'\<rparr>))"
    using f(1) g(1) by (simp add: page_init_def slot_at_def)
  moreover have "free_list (s\<lparr>pages := ps', page_free_list := p'\<rparr>)
      (filter (page_usable ?lim) (rev [0..<?n]))"
    using g f(4) assms(2) by (auto simp: free_list_def free_chain_def)
  ultimately show ?thesis using g(4) by (intro exI [of _ ps'] exI [of _ p']) auto
qed

end
