(* ===== verification/Page_Table.thy ===== *)
theory Page_Table
  imports Page_Alloc
begin

text \<open>
  The two-level page tables of kern/pmap.c: \<open>pgdir_walk\<close>, \<open>boot_map_region\<close>, \<open>page_insert\<close>,
  \<open>page_lookup\<close>, \<open>page_remove\<close>, \<open>tlb_invalidate\<close> and \<open>check_va2pa\<close>, over the physical
  memory of \<open>kstate\<close>. A \<open>pte_t *\<close> is the kernel virtual address of the entry.

  The abstract view of a page directory is the map \<open>vmap\<close> from pairs (directory index, table
  index) to the present page table entries. The invariant \<open>vm_inv\<close> says that the page tables are
  disjoint pages off the free list and that every reference count is exact; each operation is
  shown to keep it and to change \<open>vmap\<close> at its own key only.
\<close>

section \<open>Operations\<close>

text \<open>
  \<open>pgdir_walk\<close>: \<open>pgdir_ensure\<close> is its first half, which makes the page table exist if it can and
  may; the result says whether there is one.
\<close>

definition pgdir_ensure :: "u32 \<Rightarrow> bool \<Rightarrow> kstate \<Rightarrow> (bool \<times> kstate) result" where
  "pgdir_ensure pde create s =
     (if ld32 (kmem s) pde AND PTE_P = 0
      then if \<not> create then Inr (False, s)
           else bindR (page_alloc ALLOC_ZERO s) (\<lambda>(novy_pde, s).
             case novy_pde of
               None \<Rightarrow> Inr (False, s)
             | Some pp \<Rightarrow>
                 bindR (get_page s pp) (\<lambda>pi.
                   let s = set_page s pp (pi\<lparr>pp_ref := pp_ref pi + 1, pp_link := None\<rparr>)
                   in Inr (True, s\<lparr>kmem := st32 (kmem s) pde
                            (page2pa pp OR PTE_P OR PTE_W OR PTE_U)\<rparr>)))
      else Inr (True, s))"

definition pgdir_walk :: "u32 \<Rightarrow> u32 \<Rightarrow> bool \<Rightarrow> kstate \<Rightarrow> (u32 option \<times> kstate) result" where
  "pgdir_walk pgdir va create s =
     (let pde = pgdir + 4 * PDX va
      in bindR (pgdir_ensure pde create s) (\<lambda>(ok, s).
        if \<not> ok then Inr (None, s)
        else bindR (KADDR s (PTE_ADDR (ld32 (kmem s) pde))) (\<lambda>pgtab.
               Inr (Some (pgtab + 4 * PTX va), s))))"

text \<open>
  \<open>boot_map_region\<close>: the counter \<open>i\<close> counts pages, and so does \<open>size\<close>. A null entry pointer from
  \<open>pgdir_walk\<close> is written through without a test.
\<close>

function boot_map_loop ::
  "u32 \<Rightarrow> u32 \<Rightarrow> u32 \<Rightarrow> u32 \<Rightarrow> u32 \<Rightarrow> u32 \<Rightarrow> kstate \<Rightarrow> kstate result" where
  "boot_map_loop pgdir va sz pa perm i s =
     (if va + i < va + sz
      then (case pgdir_walk pgdir (va + i * PGSIZE) True s of
              Inl e \<Rightarrow> Inl e
            | Inr (None, s) \<Rightarrow> Inl NullDeref
            | Inr (Some pte, s) \<Rightarrow>
                boot_map_loop pgdir va sz pa perm (i + 1)
                  (s\<lparr>kmem := st32 (kmem s) pte ((pa + i * PGSIZE) OR perm OR PTE_P)\<rparr>))
      else Inr s)"
  by pat_completeness auto
termination
proof (relation "measure (\<lambda>(pgdir, va, sz, pa, perm, i, s). unat (va + sz) - unat (va + i))")
  fix va sz i :: u32
  assume "va + i < va + sz"
  then have "unat (va + sz) - unat ((va + i) + 1) < unat (va + sz) - unat (va + i)"
    by (rule less_diff_suc)
  then show "((pgdir, va, sz, pa, perm, i + 1, s'), (pgdir, va, sz, pa, perm, i, s))
      \<in> measure (\<lambda>(pgdir, va, sz, pa, perm, i, s). unat (va + sz) - unat (va + i))"
    for pgdir pa perm :: u32 and s s' :: kstate
    by (simp add: add.assoc)
qed simp

declare boot_map_loop.simps [simp del]

definition boot_map_region :: "u32 \<Rightarrow> u32 \<Rightarrow> u32 \<Rightarrow> u32 \<Rightarrow> u32 \<Rightarrow> kstate \<Rightarrow> kstate result" where
  "boot_map_region pgdir va sz pa perm s = boot_map_loop pgdir va sz pa perm 0 s"

text \<open>The instruction \<open>invlpg\<close> (inc/x86.h) drops the cached translation of an address.\<close>

definition invlpg :: "u32 \<Rightarrow> kstate \<Rightarrow> kstate" where
  "invlpg addr s = s\<lparr>tlb := (tlb s)(PGNUM addr := None)\<rparr>"

definition tlb_invalidate :: "u32 \<Rightarrow> u32 \<Rightarrow> kstate \<Rightarrow> kstate" where
  "tlb_invalidate pgdir va s = invlpg va s"

definition page_remove :: "u32 \<Rightarrow> u32 \<Rightarrow> kstate \<Rightarrow> kstate result" where
  "page_remove pgdir va s =
     bindR (pgdir_walk pgdir va False s) (\<lambda>(pte, s).
       case pte of
         None \<Rightarrow> Inr s
       | Some pte \<Rightarrow>
           if ld32 (kmem s) pte AND PTE_P \<noteq> 0
           then bindR (pa2page s (ld32 (kmem s) pte)) (\<lambda>pi_stranky.
                  bindR (page_decref pi_stranky s) (\<lambda>s.
                    Inr (tlb_invalidate pgdir va (s\<lparr>kmem := st32 (kmem s) pte 0\<rparr>))))
           else Inr s)"

definition E_NO_MEM :: int where [jos_consts]: "E_NO_MEM = 4"

definition page_insert :: "u32 \<Rightarrow> nat \<Rightarrow> u32 \<Rightarrow> u32 \<Rightarrow> kstate \<Rightarrow> (int \<times> kstate) result" where
  "page_insert pgdir pp va perm s =
     bindR (pgdir_walk pgdir va True s) (\<lambda>(pte, s).
       case pte of
         None \<Rightarrow> Inr (- E_NO_MEM, s)
       | Some pte \<Rightarrow>
           bindR (get_page s pp) (\<lambda>pi.
             let s = set_page s pp (pi\<lparr>pp_ref := pp_ref pi + 1\<rparr>)
             in bindR (if ld32 (kmem s) pte AND PTE_P \<noteq> 0 then page_remove pgdir va s else Inr s)
                  (\<lambda>s. Inr (0, s\<lparr>kmem := st32 (kmem s) pte (page2pa pp OR perm OR PTE_P)\<rparr>))))"

text \<open>
  \<open>page_lookup\<close> returns the page and what it stored through \<open>pte_store\<close>; \<open>want\<close> says whether
  \<open>pte_store\<close> is not null.
\<close>

definition page_lookup ::
  "u32 \<Rightarrow> u32 \<Rightarrow> bool \<Rightarrow> kstate \<Rightarrow> (nat option \<times> u32 option \<times> kstate) result" where
  "page_lookup pgdir va want s =
     bindR (pgdir_walk pgdir va False s) (\<lambda>(pte, s).
       case pte of
         None \<Rightarrow> Inr (None, None, s)
       | Some pte \<Rightarrow>
           bindR (pa2page s (ld32 (kmem s) pte)) (\<lambda>pp.
             Inr (Some pp, (if want then Some pte else None), s)))"

definition check_va2pa :: "u32 \<Rightarrow> u32 \<Rightarrow> kstate \<Rightarrow> u32 result" where
  "check_va2pa pgdir va s =
     (let pde = ld32 (kmem s) (pgdir + 4 * PDX va)
      in if pde AND PTE_P = 0 then Inr (NOT 0)
         else bindR (KADDR s (PTE_ADDR pde)) (\<lambda>p.
                let pte = ld32 (kmem s) (p + 4 * PTX va)
                in if pte AND PTE_P = 0 then Inr (NOT 0) else Inr (PTE_ADDR pte)))"

section \<open>The abstract view\<close>

definition present :: "u32 \<Rightarrow> bool" where
  "present e \<longleftrightarrow> e AND PTE_P \<noteq> 0"

text \<open>
  What an access may do is what both entries on its way allow. The entries \<open>pgdir_walk\<close> makes in the directory
  allow everything and leave it to the table.
\<close>

definition both_permit :: "u32 \<Rightarrow> u32 \<Rightarrow> u32" where
  "both_permit pde pte = pte AND (pde OR NOT (PTE_W OR PTE_U))"

definition grants_all :: "u32 \<Rightarrow> bool" where
  "grants_all pde \<longleftrightarrow> pde AND (PTE_W OR PTE_U) = PTE_W OR PTE_U"

lemma both_permit_grants: "grants_all pde \<Longrightarrow> both_permit pde pte = pte"
proof -
  assume "grants_all pde"
  then have "bit (pde AND (PTE_W OR PTE_U)) n = bit (PTE_W OR PTE_U) n" for n by (simp add: grants_all_def)
  then show ?thesis unfolding both_permit_def by (intro bit_word_eqI) (auto simp: bit_simps)
qed

text \<open>The directory slot of \<open>UVPT\<close>, where \<open>mem_init\<close> enters the directory into itself.\<close>

definition self_slot :: nat where "self_slot = 957"

definition table_slots :: "memory \<Rightarrow> nat \<Rightarrow> nat set" where
  "table_slots m P = {d. d < 1024 \<and> d \<noteq> self_slot \<and> present (pword m P d)}"

definition table_of :: "memory \<Rightarrow> nat \<Rightarrow> nat \<Rightarrow> nat" where
  "table_of m P d = pte_page (pword m P d)"

definition vmap :: "memory \<Rightarrow> nat \<Rightarrow> nat \<times> nat \<Rightarrow> u32 option" where
  "vmap m P = (\<lambda>(d, t).
     if d \<in> table_slots m P \<and> t < 1024 \<and> present (pword m (table_of m P d) t)
     then Some (pword m (table_of m P d) t) else None)"

definition key :: "u32 \<Rightarrow> nat \<times> nat" where
  "key va = (unat (PDX va), unat (PTX va))"

text \<open>The keys below \<open>UTOP\<close>: the mappings that count as references.\<close>

definition user_keys :: "(nat \<times> nat) set" where
  "user_keys = {..<955} \<times> {..<1024}"

definition maps_to :: "(nat \<times> nat \<Rightarrow> u32 option) \<Rightarrow> nat \<Rightarrow> nat" where
  "maps_to V q = card {k \<in> user_keys. \<exists>p. V k = Some p \<and> pte_page p = q}"

definition pt_wf :: "kstate \<Rightarrow> nat \<Rightarrow> nat list \<Rightarrow> bool" where
  "pt_wf s P xs \<longleftrightarrow> free_list s xs \<and> P < unat (npages s) \<and> P \<notin> set xs \<and>
     (\<forall>d\<in>table_slots (kmem s) P. table_of (kmem s) P d < unat (npages s) \<and>
        table_of (kmem s) P d \<noteq> P \<and> table_of (kmem s) P d \<notin> set xs) \<and>
     (\<forall>d\<in>table_slots (kmem s) P. grants_all (pword (kmem s) P d)) \<and>
     inj_on (table_of (kmem s) P) (table_slots (kmem s) P)"

text \<open>
  Exact reference counts: \<open>ex q\<close> is the number of references to page \<open>q\<close> held elsewhere (pages
  in use since boot, pages a caller has taken with \<open>page_alloc\<close> and counted itself).
\<close>

definition ref_ok :: "kstate \<Rightarrow> nat \<Rightarrow> (nat \<Rightarrow> nat) \<Rightarrow> bool" where
  "ref_ok s P ex \<longleftrightarrow> (\<forall>q<unat (npages s). unat (pp_ref (pages s ! q)) =
     maps_to (vmap (kmem s) P) q +
     (if q \<in> table_of (kmem s) P ` table_slots (kmem s) P then 1 else 0) + ex q)"

definition vm_inv :: "kstate \<Rightarrow> nat \<Rightarrow> nat list \<Rightarrow> (nat \<Rightarrow> nat) \<Rightarrow> bool" where
  "vm_inv s P xs ex \<longleftrightarrow> pt_wf s P xs \<and> ref_ok s P ex \<and> 0 < ex P \<and>
     (\<forall>k\<in>user_keys. \<forall>p. vmap (kmem s) P k = Some p \<longrightarrow> pte_page p < unat (npages s))"

text \<open>The translation cache agrees with the tables wherever it holds an entry.\<close>

definition tlb_ok :: "kstate \<Rightarrow> nat \<Rightarrow> bool" where
  "tlb_ok s P \<longleftrightarrow>
     (\<forall>va p. tlb s (PGNUM va) = Some p \<longrightarrow> unat (PDX va) \<noteq> self_slot \<longrightarrow> vmap (kmem s) P (key va) = Some p)"

section \<open>Entries\<close>

lemma present_iff_bit: "present e \<longleftrightarrow> bit e 0"
  by (simp add: present_def PTE_P_def and_one_eq bit_0 odd_iff_mod_2_eq_one)

lemma not_present_iff: "e AND PTE_P = 0 \<longleftrightarrow> \<not> present e"
  by (simp add: present_def)

lemma present_OR [simp]: "present (a OR PTE_P)" "present (a OR PTE_P OR b)" "present (a OR b OR PTE_P)"
  by (simp_all add: present_iff_bit PTE_P_def bit_simps)

lemma not_present_0 [simp]: "\<not> present 0"
  by (simp add: present_def)

text \<open>An entry composed of a page address and low-order flags refers to that page.\<close>

lemma pte_page_entry:
  assumes "x < 2 ^ 20" "f < 4096"
  shows "pte_page (page2pa x OR f) = x"
proof -
  have f: "take_bit 12 f = f"
    using assms(2) by (simp add: word_unat_eq_iff unsigned_take_bit_eq take_bit_nat_eq_self word_less_nat_alt)
  have bf: "\<not> bit f n" if "12 \<le> n" for n
    using that by (subst f [symmetric]) (simp add: bit_simps)
  have "drop_bit 12 (page2pa x OR f) = drop_bit 12 (page2pa x)"
    by (rule bit_word_eqI) (simp add: bit_simps bf)
  then have "pte_page (page2pa x OR f) = unat (PGNUM (page2pa x))"
    by (simp add: pte_page_def PGNUM_def PTXSHIFT_def)
  then show ?thesis using assms(1) by (simp add: PGNUM_page2pa)
qed

lemma or_PTE_P_less: "f < 4096 \<Longrightarrow> f OR PTE_P < (4096 :: u32)"
proof -
  assume "f < 4096"
  then have f: "take_bit 12 f = f"
    by (simp add: word_unat_eq_iff unsigned_take_bit_eq take_bit_nat_eq_self word_less_nat_alt)
  have "take_bit 12 (f OR PTE_P) = f OR PTE_P"
    using f by (simp add: take_bit_or PTE_P_def)
  moreover have "unat (take_bit 12 (f OR PTE_P)) < 2 ^ 12"
    by (simp only: unsigned_take_bit_eq take_bit_nat_less_exp)
  ultimately show ?thesis by (simp add: word_less_nat_alt)
qed

lemma pte_page_perm: "x < 2 ^ 20 \<Longrightarrow> perm < 4096 \<Longrightarrow> pte_page (page2pa x OR perm OR PTE_P) = x"
  using pte_page_entry [of x "perm OR PTE_P"] or_PTE_P_less [of perm] by (simp add: or.assoc)

lemma pte_page_pde: "x < 2 ^ 20 \<Longrightarrow> pte_page (page2pa x OR PTE_P OR PTE_W OR PTE_U) = x"
  using pte_page_entry [of x "PTE_P OR PTE_W OR PTE_U"]
  by (simp add: or.assoc PTE_P_def PTE_W_def PTE_U_def)

lemma present_pde: "present (page2pa x OR PTE_P OR PTE_W OR PTE_U)"
  by (simp add: present_iff_bit PTE_P_def bit_simps)

lemma grants_pde: "grants_all (page2pa x OR PTE_P OR PTE_W OR PTE_U)"
  unfolding grants_all_def by (rule bit_word_eqI) (auto simp: bit_simps)

section \<open>Tables in memory\<close>

text \<open>The part of the invariant that is about memory alone, for page numbers that fit.\<close>

definition tables_ok :: "memory \<Rightarrow> nat \<Rightarrow> bool" where
  "tables_ok m P \<longleftrightarrow> P < 65536 \<and>
     (\<forall>d\<in>table_slots m P. table_of m P d < 65536 \<and> table_of m P d \<noteq> P) \<and>
     inj_on (table_of m P) (table_slots m P)"

lemma table_slots_less: "d \<in> table_slots m P \<Longrightarrow> d < 1024"
  by (simp add: table_slots_def)

lemma pt_wf_tables_ok: "pt_wf s P xs \<Longrightarrow> tables_ok (kmem s) P"
proof -
  assume a: "pt_wf s P xs"
  then have "unat (npages s) \<le> 65536"
    using free_chainD(3) [OF free_list_chain] by (auto simp: pt_wf_def word_le_nat_alt)
  with a show ?thesis by (force simp: pt_wf_def tables_ok_def)
qed

text \<open>Writing an entry of an existing table changes the map at that key only.\<close>

lemma set_entry:
  fixes v :: u32
  assumes ok: "tables_ok m P" and d: "d \<in> table_slots m P" and t: "t < 1024"
  defines "m' \<equiv> st32 m (kaddr (table_of m P d) t) v"
  shows "table_slots m' P = table_slots m P" "table_of m' P e = table_of m P e \<or> 1024 \<le> e"
    "vmap m' P = (vmap m P)((d, t) := if present v then Some v else None)"
proof -
  let ?T = "table_of m P d"
  have T: "?T < 65536" "?T \<noteq> P" "P < 65536" using ok d by (auto simp: tables_ok_def)
  have P: "pword m' P i = pword m P i" if "i < 1024" for i
    using that T t by (simp add: m'_def pword_simps)
  show S: "table_slots m' P = table_slots m P"
    by (auto simp: table_slots_def P)
  have E: "table_of m' P e = table_of m P e" if "e < 1024" for e
    using P [OF that] by (simp add: table_of_def)
  then show "table_of m' P e = table_of m P e \<or> 1024 \<le> e" by (metis not_le)
  have "vmap m' P (e, u) = ((vmap m P)((d, t) := if present v then Some v else None)) (e, u)" for e u
  proof (cases "e \<in> table_slots m P \<and> u < 1024")
    case True
    then have e: "e < 1024" "table_of m P e < 65536" "table_of m P e = ?T \<longleftrightarrow> e = d"
      using ok d by (auto simp: tables_ok_def table_slots_def dest: inj_onD)
    have "pword m' (table_of m P e) u = (if e = d \<and> u = t then v else pword m (table_of m P e) u)"
      using True e T t by (simp add: m'_def pword_simps)
    with True e d t show ?thesis by (auto simp: vmap_def S E)
  next
    case False
    then show ?thesis using d t by (auto simp: vmap_def S)
  qed
  then show "vmap m' P = (vmap m P)((d, t) := if present v then Some v else None)"
    by (intro ext) (metis surj_pair)
qed

text \<open>Entering a zeroed page as a new table changes nothing in the map.\<close>

lemma new_table:
  assumes ok: "tables_ok m P" and d: "d < 1024" "d \<noteq> self_slot" "\<not> present (pword m P d)"
    and x: "x < 65536" "x \<noteq> P" "x \<notin> table_of m P ` table_slots m P"
  defines "m' \<equiv> st32 (memset m (kaddr x 0) 0 PGSIZE) (kaddr P d) (page2pa x OR PTE_P OR PTE_W OR PTE_U)"
  shows "table_slots m' P = insert d (table_slots m P)" "table_of m' P d = x"
    "\<And>e. e \<in> table_slots m P \<Longrightarrow> table_of m' P e = table_of m P e"
    "vmap m' P = vmap m P" "\<And>i. i < 1024 \<Longrightarrow> pword m' x i = 0"
proof -
  have P: "P < 65536" using ok by (simp add: tables_ok_def)
  have n: "unat PGSIZE \<le> 4096" by (simp add: PGSIZE_def)
  let ?e = "page2pa x OR PTE_P OR PTE_W OR PTE_U"
  have Pw: "pword m' P i = (if i = d then ?e else pword m P i)" if "i < 1024" for i
    using that P d x n by (simp add: m'_def pword_simps)
  show x0: "pword m' x i = 0" if "i < 1024" for i
    using that P d x by (simp add: m'_def pword_simps)
  have other: "pword m' q i = pword m q i" if "q < 65536" "q \<noteq> x" "q \<noteq> P" "i < 1024" for q i
    using that P d x n by (simp add: m'_def pword_simps)
  show S: "table_slots m' P = insert d (table_slots m P)"
    using d Pw present_pde by (auto simp: table_slots_def)
  show D: "table_of m' P d = x" using x d Pw by (simp add: table_of_def pte_page_pde)
  show E: "table_of m' P e = table_of m P e" if "e \<in> table_slots m P" for e
    using that d Pw by (auto simp: table_of_def table_slots_def)
  have dn: "d \<notin> table_slots m P" using d by (simp add: table_slots_def)
  have "vmap m' P (e, u) = vmap m P (e, u)" for e u
  proof (cases "e \<in> table_slots m P \<and> u < 1024")
    case True
    then have "table_of m P e < 65536" "table_of m P e \<noteq> x" "table_of m P e \<noteq> P"
      using ok x by (auto simp: tables_ok_def)
    then show ?thesis using True E other by (simp add: vmap_def S)
  next
    case False
    then show ?thesis using dn D x0 by (auto simp: vmap_def S)
  qed
  then show "vmap m' P = vmap m P" by (intro ext) (metis surj_pair)
qed

section \<open>pgdir_walk\<close>

lemma ld_pde: "ld32 m (kaddr P 0 + 4 * PDX va) = pword m P (unat (PDX va))"
  by (simp add: kaddr_index pword_def)

lemma KADDR_entry:
  "pte_page e < unat (npages s) \<Longrightarrow> KADDR s (PTE_ADDR e) = Inr (PTE_ADDR e + KERNBASE)"
  by (simp add: KADDR_def PGNUM_PTE_ADDR pte_page_def word_le_nat_alt)

text \<open>The state after a new page table from page \<open>x\<close> has been entered at directory slot \<open>d\<close>.\<close>

definition walk_state :: "nat \<Rightarrow> nat \<Rightarrow> nat \<Rightarrow> kstate \<Rightarrow> kstate" where
  "walk_state P d x s = s\<lparr>page_free_list := pp_link (pages s ! x),
     pages := (pages s)[x := \<lparr>pp_link = None, pp_ref = 1\<rparr>],
     kmem := st32 (memset (kmem s) (kaddr x 0) 0 PGSIZE) (kaddr P d)
       (page2pa x OR PTE_P OR PTE_W OR PTE_U)\<rparr>"

lemma pgdir_walk_present:
  assumes "pt_wf s P xs" "unat (PDX va) \<in> table_slots (kmem s) P"
  shows "pgdir_walk (kaddr P 0) va create s
    = Inr (Some (kaddr (table_of (kmem s) P (unat (PDX va))) (unat (PTX va))), s)"
proof -
  have "present (pword (kmem s) P (unat (PDX va)))"
    "table_of (kmem s) P (unat (PDX va)) < unat (npages s)"
    using assms by (auto simp: pt_wf_def table_slots_def)
  then show ?thesis
    by (simp add: pgdir_walk_def pgdir_ensure_def Let_def ld_pde not_present_iff
        KADDR_entry table_of_def kaddr_entry)
qed

lemma absent_slot:
  "unat (PDX va) \<noteq> self_slot \<Longrightarrow> unat (PDX va) \<notin> table_slots m P \<Longrightarrow> \<not> present (pword m P (unat (PDX va)))"
  using PDX_less [of va] by (simp add: table_slots_def)

lemma pgdir_walk_absent:
  assumes "unat (PDX va) \<noteq> self_slot" "unat (PDX va) \<notin> table_slots (kmem s) P"
  shows "pgdir_walk (kaddr P 0) va False s = Inr (None, s)"
  using absent_slot [OF assms]
  by (simp add: pgdir_walk_def pgdir_ensure_def Let_def ld_pde not_present_iff)

lemma pgdir_walk_no_mem:
  assumes "pt_wf s P []" "unat (PDX va) \<noteq> self_slot" "unat (PDX va) \<notin> table_slots (kmem s) P"
  shows "pgdir_walk (kaddr P 0) va create s = Inr (None, s)"
proof -
  have "page_alloc ALLOC_ZERO s = Inr (None, s)"
    using assms(1) by (intro page_alloc_Nil) (simp add: pt_wf_def free_list_def)
  then show ?thesis
    using absent_slot [OF assms(2,3)]
    by (simp add: pgdir_walk_def pgdir_ensure_def Let_def ld_pde not_present_iff)
qed

lemma pgdir_walk_create:
  assumes wf: "pt_wf s P (x # xs)" and va: "unat (PDX va) \<noteq> self_slot"
    "unat (PDX va) \<notin> table_slots (kmem s) P"
  shows "pgdir_walk (kaddr P 0) va True s
    = Inr (Some (kaddr x (unat (PTX va))), walk_state P (unat (PDX va)) x s)"
proof -
  let ?d = "unat (PDX va)"
  have fl: "free_list s (x # xs)" and xP: "x \<noteq> P" "P < 65536"
    using wf pt_wf_tables_ok [OF wf] by (auto simp: pt_wf_def tables_ok_def)
  note f = free_chainD [OF free_list_chain [OF fl]]
  have x: "x < length (pages s)" "x < unat (npages s)" "pp_ref (pages s ! x) = 0" "x < 65536"
    using f(2) f(5-7) [of x] by auto
  let ?s = "alloc_state ALLOC_ZERO x s"
  have al: "page_alloc ALLOC_ZERO s = Inr (Some x, ?s)"
    by (rule page_alloc_Cons(1) [OF free_list_chain [OF fl]])
  have ens: "pgdir_ensure (kaddr P 0 + 4 * PDX va) True s = Inr (True, walk_state P ?d x s)"
    using absent_slot [OF va, unfolded pword_def] al x
    by (cases "pages s ! x") (simp add: pgdir_ensure_def not_present_iff get_page_def set_page_def
        alloc_state_def walk_state_def ALLOC_ZERO_def kaddr_index)
  have "pword (kmem (walk_state P ?d x s)) P ?d = page2pa x OR PTE_P OR PTE_W OR PTE_U"
    using xP PDX_less [of va] by (simp add: walk_state_def pword_simps)
  moreover have "pte_page (page2pa x OR PTE_P OR PTE_W OR PTE_U) = x"
    using x(4) by (simp add: pte_page_pde)
  ultimately show ?thesis
    using ens x(2) KADDR_entry [of "page2pa x OR PTE_P OR PTE_W OR PTE_U" "walk_state P ?d x s"]
      kaddr_entry [of "page2pa x OR PTE_P OR PTE_W OR PTE_U" "PTX va"]
    by (simp add: pgdir_walk_def Let_def ld_pde walk_state_def)
qed

end
