(* ===== verification/Vm_Invariant.thy ===== *)
theory Vm_Invariant
  imports Page_Table
begin

text \<open>
  The invariant of the page tables under the operations of kern/pmap.c. Each operation is split
  into steps (a new table, a reference taken, a mapping entered, a mapping dropped), each step
  is shown to keep \<open>vm_inv\<close>, and \<open>page_insert\<close> and \<open>page_remove\<close> are their compositions.
\<close>

section \<open>Counting mappings\<close>

definition hits :: "u32 option \<Rightarrow> nat \<Rightarrow> nat" where
  "hits v q = (case v of None \<Rightarrow> 0 | Some p \<Rightarrow> if pte_page p = q then 1 else 0)"

lemma finite_user_keys: "finite user_keys"
  by (simp add: user_keys_def)

lemma maps_to_upd:
  assumes "k \<in> user_keys"
  shows "maps_to (V(k := v)) q + hits (V k) q = maps_to V q + hits v q"
proof -
  let ?R = "{j \<in> user_keys. j \<noteq> k \<and> (\<exists>p. V j = Some p \<and> pte_page p = q)}"
  have fin: "finite ?R" by (rule finite_subset [OF _ finite_user_keys]) auto
  have "maps_to W q = card ?R + hits (W k) q" if "\<And>j. j \<noteq> k \<Longrightarrow> W j = V j" for W
  proof -
    have "{j \<in> user_keys. \<exists>p. W j = Some p \<and> pte_page p = q}
        = (if hits (W k) q = 1 then insert k ?R else ?R)"
    proof (rule set_eqI)
      fix j
      show "j \<in> {j \<in> user_keys. \<exists>p. W j = Some p \<and> pte_page p = q}
          \<longleftrightarrow> j \<in> (if hits (W k) q = 1 then insert k ?R else ?R)"
      proof (cases "j = k")
        case True
        then show ?thesis using assms by (auto simp: hits_def split: option.splits)
      next
        case False
        then show ?thesis using that [OF False] by simp
      qed
    qed
    then show ?thesis
      using fin by (auto simp: maps_to_def hits_def split: option.splits if_splits)
  qed
  from this [of V] this [of "V(k := v)"] show ?thesis by simp
qed

lemma hits_Some [simp]: "hits (Some p) q = (if pte_page p = q then 1 else 0)" "hits None q = 0"
  by (simp_all add: hits_def)

section \<open>What every operation leaves alone\<close>

text \<open>
  \<open>vm_step P s s'\<close>: the globals other than the page array, the list and memory are kept; tables
  are never moved or dropped; and pages that are neither the directory nor one of its tables
  keep their contents.
\<close>

definition vm_step :: "nat \<Rightarrow> kstate \<Rightarrow> kstate \<Rightarrow> bool" where
  "vm_step P s s' \<longleftrightarrow>
     npages s' = npages s \<and> npages_basemem s' = npages_basemem s \<and> kern_pgdir s' = kern_pgdir s \<and>
     pages_va s' = pages_va s \<and> nextfree s' = nextfree s \<and> cr0 s' = cr0 s \<and> cr3 s' = cr3 s \<and>
     table_slots (kmem s) P \<subseteq> table_slots (kmem s') P \<and>
     (\<forall>d\<in>table_slots (kmem s) P. table_of (kmem s') P d = table_of (kmem s) P d) \<and>
     (\<forall>p<65536. p \<noteq> P \<longrightarrow> p \<notin> table_of (kmem s') P ` table_slots (kmem s') P \<longrightarrow>
        (\<forall>i<1024. pword (kmem s') p i = pword (kmem s) p i))"

lemma vm_step_refl: "vm_step P s s"
  by (simp add: vm_step_def)

lemma vm_step_trans: "vm_step P s s' \<Longrightarrow> vm_step P s' s'' \<Longrightarrow> vm_step P s s''"
proof -
  assume a: "vm_step P s s'" and b: "vm_step P s' s''"
  have "table_of (kmem s') P d \<in> table_of (kmem s'') P ` table_slots (kmem s'') P"
    if "d \<in> table_slots (kmem s') P" for d
    using b that by (metis (no_types, lifting) image_eqI subsetD vm_step_def)
  then have sub: "p \<notin> table_of (kmem s') P ` table_slots (kmem s') P"
    if "p \<notin> table_of (kmem s'') P ` table_slots (kmem s'') P" for p
    using that by blast
  have "pword (kmem s'') p i = pword (kmem s) p i"
    if "p < 65536" "p \<noteq> P" "p \<notin> table_of (kmem s'') P ` table_slots (kmem s'') P" "i < 1024" for p i
    using a b that sub [OF that(3)] by (simp add: vm_step_def)
  moreover have "table_of (kmem s'') P d = table_of (kmem s) P d" if "d \<in> table_slots (kmem s) P" for d
    using a b that by (simp add: vm_step_def subset_iff)
  moreover have "table_slots (kmem s) P \<subseteq> table_slots (kmem s'') P"
    using a b unfolding vm_step_def by blast
  ultimately show ?thesis using a b by (simp add: vm_step_def)
qed

lemma pt_wf_simps:
  assumes "pt_wf s P xs"
  shows "free_list s xs" "free_chain s xs" "length (pages s) = unat (npages s)"
    "unat (npages s) \<le> 65536" "P < unat (npages s)" "P \<notin> set xs"
    "d \<in> table_slots (kmem s) P \<Longrightarrow> table_of (kmem s) P d < unat (npages s)"
    "d \<in> table_slots (kmem s) P \<Longrightarrow> table_of (kmem s) P d \<notin> set xs"
    "d \<in> table_slots (kmem s) P \<Longrightarrow> table_of (kmem s) P d \<noteq> P"
    "inj_on (table_of (kmem s) P) (table_slots (kmem s) P)"
    "d \<in> table_slots (kmem s) P \<Longrightarrow> grants_all (pword (kmem s) P d)"
proof -
  show fl: "free_list s xs" and "P < unat (npages s)" "P \<notin> set xs"
    "d \<in> table_slots (kmem s) P \<Longrightarrow> table_of (kmem s) P d < unat (npages s)"
    "d \<in> table_slots (kmem s) P \<Longrightarrow> table_of (kmem s) P d \<notin> set xs"
    "d \<in> table_slots (kmem s) P \<Longrightarrow> table_of (kmem s) P d \<noteq> P"
    "inj_on (table_of (kmem s) P) (table_slots (kmem s) P)"
    "d \<in> table_slots (kmem s) P \<Longrightarrow> grants_all (pword (kmem s) P d)"
    using assms by (auto simp: pt_wf_def)
  then show fc: "free_chain s xs" by (blast intro: free_list_chain)
  show "length (pages s) = unat (npages s)" "unat (npages s) \<le> 65536"
    using free_chainD(2,3) [OF fc] by (simp_all add: word_le_nat_alt)
qed

lemma ref_okD:
  "ref_ok s P ex \<Longrightarrow> q < unat (npages s) \<Longrightarrow> unat (pp_ref (pages s ! q)) =
     maps_to (vmap (kmem s) P) q +
     (if q \<in> table_of (kmem s) P ` table_slots (kmem s) P then 1 else 0) + ex q"
  by (simp add: ref_ok_def)

section \<open>A new page table keeps the invariant\<close>

lemma walk_state_step:
  assumes inv: "vm_inv s P (x # xs) ex" and d: "d < 1024" "d \<noteq> self_slot" "d \<notin> table_slots (kmem s) P"
  shows "vm_inv (walk_state P d x s) P xs ex" "vmap (kmem (walk_state P d x s)) P = vmap (kmem s) P"
    "vm_step P s (walk_state P d x s)" "d \<in> table_slots (kmem (walk_state P d x s)) P"
    "table_of (kmem (walk_state P d x s)) P d = x"
    "length (pages (walk_state P d x s)) = length (pages s)"
    "q \<noteq> x \<Longrightarrow> pages (walk_state P d x s) ! q = pages s ! q"
    "table_slots (kmem (walk_state P d x s)) P = insert d (table_slots (kmem s) P)"
proof -
  let ?s = "walk_state P d x s"
  have wf: "pt_wf s P (x # xs)" and ref: "ref_ok s P ex"
    and rng: "\<forall>k\<in>user_keys. \<forall>p. vmap (kmem s) P k = Some p \<longrightarrow> pte_page p < unat (npages s)"
    and exP: "0 < ex P"
    using inv by (auto simp: vm_inv_def)
  note w = pt_wf_simps [OF wf] and ok = pt_wf_tables_ok [OF wf]
  note f = free_chainD [OF w(2)]
  have x: "x < unat (npages s)" "x < 65536" "pp_ref (pages s ! x) = 0" "x \<noteq> P" "x \<notin> set xs"
    using f(4) f(5) [of x] f(6) [of x] f(7) [of x] w(6) by auto
  have xt: "x \<notin> table_of (kmem s) P ` table_slots (kmem s) P" using w(8) by auto
  have dp: "\<not> present (pword (kmem s) P d)" using d by (simp add: table_slots_def)
  note n = new_table [OF ok d(1,2) dp x(2,4) xt]
  have km: "kmem ?s = st32 (memset (kmem s) (kaddr x 0) 0 PGSIZE) (kaddr P d) (page2pa x OR PTE_P OR PTE_W OR PTE_U)"
    and pg: "pages ?s = (pages s)[x := \<lparr>pp_link = None, pp_ref = 1\<rparr>]" and np: "npages ?s = npages s"
    by (simp_all add: walk_state_def)
  show V: "vmap (kmem ?s) P = vmap (kmem s) P" and D: "d \<in> table_slots (kmem ?s) P"
    and T: "table_of (kmem ?s) P d = x"
    and "table_slots (kmem ?s) P = insert d (table_slots (kmem s) P)"
    using n(1,2,4) by (simp_all add: km)
  show L: "length (pages ?s) = length (pages s)" and Q: "q \<noteq> x \<Longrightarrow> pages ?s ! q = pages s ! q" for q
    by (simp_all add: pg)
  have img: "table_of (kmem ?s) P ` table_slots (kmem ?s) P = insert x (table_of (kmem s) P ` table_slots (kmem s) P)"
    using n(1,2,3) by (auto simp: km image_iff)
  have inj: "inj_on (table_of (kmem ?s) P) (table_slots (kmem ?s) P)"
  proof -
    have "inj_on (table_of (kmem ?s) P) (table_slots (kmem s) P)"
      using w(10) n(3) by (simp add: km inj_on_def)
    moreover have "table_of (kmem ?s) P ` table_slots (kmem s) P = table_of (kmem s) P ` table_slots (kmem s) P"
      using n(3) by (simp add: km)
    ultimately show ?thesis using xt n(1,2) by (simp add: km) blast
  qed
  have fl: "free_list ?s xs"
    using alloc_state_free_list [OF w(1)] x(5) x(1) w(3)
    by (auto simp: free_list_def free_chain_def alloc_state_def walk_state_def nth_list_update)
  have "grants_all (pword (kmem ?s) P e)" if e: "e \<in> insert d (table_slots (kmem s) P)" for e
  proof -
    have "e < 1024" using e d(1) table_slots_less by auto
    then have "pword (kmem ?s) P e = (if e = d then page2pa x OR PTE_P OR PTE_W OR PTE_U else pword (kmem s) P e)"
      using w(4,5) x(2,4) d(1) by (simp add: km pword_simps PGSIZE_def)
    then show ?thesis using e w(11) [of e] grants_pde [of x] by auto
  qed
  then have wf': "pt_wf ?s P xs"
    using fl w inj n(1,2,3) x(1,4,5) by (auto simp: pt_wf_def km np)
  have "maps_to (vmap (kmem s) P) x = 0" "ex x = 0"
    using ref_okD [OF ref x(1)] x(3) by simp_all
  then have ref': "ref_ok ?s P ex"
    using ref x(1) xt w(3) unfolding ref_ok_def V img np by (auto simp: pg nth_list_update)
  show "vm_inv ?s P xs ex" using wf' ref' rng exP by (simp add: vm_inv_def V np)
  have "pword (kmem ?s) p i = pword (kmem s) p i"
    if "p < 65536" "i < 1024" "p \<noteq> P" "p \<noteq> x" for p i
    using that x(2) d(1) w(4,5) by (simp add: km pword_simps PGSIZE_def)
  then show "vm_step P s ?s"
    using n(1,3) img by (auto simp: vm_step_def km [symmetric]) (auto simp: walk_state_def)
qed

section \<open>Taking a reference, entering and dropping a mapping\<close>

lemma user_keys_iff: "(d, t) \<in> user_keys \<longleftrightarrow> d < 955 \<and> t < 1024"
  by (auto simp: user_keys_def)

lemma vmap_SomeD: "vmap m P (d, t) = Some p \<Longrightarrow>
    d \<in> table_slots m P \<and> t < 1024 \<and> p = pword m (table_of m P d) t \<and> present p"
  by (auto simp: vmap_def split: if_splits)

lemma st32_entry_step:
  assumes "pt_wf s P xs" "d \<in> table_slots (kmem s) P" "t < 1024"
  shows "vm_step P s (s\<lparr>kmem := st32 (kmem s) (kaddr (table_of (kmem s) P d) t) v\<rparr>)"
proof -
  note w = pt_wf_simps [OF assms(1)] and ok = pt_wf_tables_ok [OF assms(1)]
  note e = set_entry [OF ok assms(2,3), of v]
  have T: "table_of (kmem s) P d < 65536" using w(7) [OF assms(2)] w(4) by simp
  have keep: "table_of (st32 (kmem s) (kaddr (table_of (kmem s) P d) t) v) P e = table_of (kmem s) P e"
    if "e \<in> table_slots (kmem s) P" for e
    using set_entry(2) [OF ok assms(2,3), of v e] table_slots_less [OF that] by auto
  have "table_of (kmem s) P d \<in> table_of (st32 (kmem s) (kaddr (table_of (kmem s) P d) t) v) P ` table_slots (kmem s) P"
    using keep [OF assms(2)] assms(2) by (metis image_eqI)
  then show ?thesis
    using e(1) keep T assms(3) by (auto simp: vm_step_def pword_st32)
qed

lemma st32_entry_wf:
  assumes "pt_wf s P xs" "d \<in> table_slots (kmem s) P" "t < 1024"
  shows "pt_wf (s\<lparr>kmem := st32 (kmem s) (kaddr (table_of (kmem s) P d) t) v\<rparr>) P xs"
    "table_of (st32 (kmem s) (kaddr (table_of (kmem s) P d) t) v) P ` table_slots (kmem s) P
       = table_of (kmem s) P ` table_slots (kmem s) P"
proof -
  note ok = pt_wf_tables_ok [OF assms(1)]
  note e = set_entry(1) [OF ok assms(2,3), of v]
  have keep: "table_of (st32 (kmem s) (kaddr (table_of (kmem s) P d) t) v) P e = table_of (kmem s) P e"
    if "e \<in> table_slots (kmem s) P" for e
    using set_entry(2) [OF ok assms(2,3), of v e] table_slots_less [OF that] by auto
  have "pword (st32 (kmem s) (kaddr (table_of (kmem s) P d) t) v) P e = pword (kmem s) P e"
    if "e \<in> table_slots (kmem s) P" for e
    using ok assms(2,3) table_slots_less [OF that] by (auto simp: tables_ok_def pword_st32)
  with keep show "pt_wf (s\<lparr>kmem := st32 (kmem s) (kaddr (table_of (kmem s) P d) t) v\<rparr>) P xs"
    using assms(1) e by (auto simp: pt_wf_def free_list_def free_chain_def inj_on_def)
  show "table_of (st32 (kmem s) (kaddr (table_of (kmem s) P d) t) v) P ` table_slots (kmem s) P
       = table_of (kmem s) P ` table_slots (kmem s) P"
    using keep by simp
qed

definition take_ref :: "nat \<Rightarrow> kstate \<Rightarrow> kstate" where
  "take_ref pp s = set_page s pp ((pages s ! pp)\<lparr>pp_ref := pp_ref (pages s ! pp) + 1\<rparr>)"

lemma take_ref_simps [simp]:
  "kmem (take_ref pp s) = kmem s" "npages (take_ref pp s) = npages s" "tlb (take_ref pp s) = tlb s"
  "length (pages (take_ref pp s)) = length (pages s)"
  by (simp_all add: take_ref_def set_page_def)

lemma take_ref_step: "vm_step P s (take_ref pp s)"
  by (simp add: vm_step_def take_ref_def set_page_def)

lemma unat_u16_Suc: "unat (r :: u16) < 65535 \<Longrightarrow> unat (r + 1) = unat r + 1"
  by (simp add: unat_word_ariths)

lemma take_ref_inv:
  assumes inv: "vm_inv s P xs ex" and pp: "pp < unat (npages s)" "pp \<notin> set xs"
    and r: "unat (pp_ref (pages s ! pp)) < 65535"
  shows "vm_inv (take_ref pp s) P xs (ex(pp := ex pp + 1))"
proof -
  have wf: "pt_wf s P xs" and ref: "ref_ok s P ex" using inv by (simp_all add: vm_inv_def)
  note w = pt_wf_simps [OF wf]
  have "free_list (take_ref pp s) xs"
    using w(1,3) pp by (auto simp: free_list_def free_chain_def take_ref_def set_page_def nth_list_update)
  then have "pt_wf (take_ref pp s) P xs" using wf by (simp add: pt_wf_def)
  moreover have "ref_ok (take_ref pp s) P (ex(pp := ex pp + 1))"
    using ref pp r w(3)
    by (auto simp: ref_ok_def take_ref_def set_page_def nth_list_update unat_u16_Suc)
  ultimately show ?thesis using inv by (auto simp: vm_inv_def)
qed

lemma enter_mapping:
  assumes inv: "vm_inv s P xs (ex(pp := ex pp + 1))" and d: "d \<in> table_slots (kmem s) P"
    and k: "(d, t) \<in> user_keys" and new: "vmap (kmem s) P (d, t) = None"
    and e: "present e" "pte_page e = pp" "pp < unat (npages s)" and exP: "0 < ex P"
  defines "s' \<equiv> s\<lparr>kmem := st32 (kmem s) (kaddr (table_of (kmem s) P d) t) e\<rparr>"
  shows "vm_inv s' P xs ex" "vmap (kmem s') P = (vmap (kmem s) P)((d, t) := Some e)"
proof -
  have wf: "pt_wf s P xs" and ref: "ref_ok s P (ex(pp := ex pp + 1))" using inv by (simp_all add: vm_inv_def)
  have t: "t < 1024" using k by (simp add: user_keys_iff)
  note wf' = st32_entry_wf [OF wf d t, of e]
  note se = set_entry [OF pt_wf_tables_ok [OF wf] d t, of e]
  have km: "kmem s' = st32 (kmem s) (kaddr (table_of (kmem s) P d) t) e" by (simp add: s'_def)
  show V: "vmap (kmem s') P = (vmap (kmem s) P)((d, t) := Some e)"
    using se(3) e(1) by (simp add: km)
  have "ref_ok s' P ex"
    unfolding ref_ok_def
  proof (intro allI impI)
    fix q assume q: "q < unat (npages s')"
    have "maps_to (vmap (kmem s') P) q = maps_to (vmap (kmem s) P) q + (if q = pp then 1 else 0)"
      using maps_to_upd [OF k, of "vmap (kmem s) P" "Some e" q] new e(2) by (auto simp: V)
    moreover have "table_of (kmem s') P ` table_slots (kmem s') P = table_of (kmem s) P ` table_slots (kmem s) P"
      using wf'(2) se(1) by (simp add: km)
    ultimately show "unat (pp_ref (pages s' ! q)) = maps_to (vmap (kmem s') P) q +
        (if q \<in> table_of (kmem s') P ` table_slots (kmem s') P then 1 else 0) + ex q"
      using ref_okD [OF ref, of q] q by (auto simp: s'_def)
  qed
  moreover have "\<forall>k\<in>user_keys. \<forall>p. vmap (kmem s') P k = Some p \<longrightarrow> pte_page p < unat (npages s')"
    using inv e(2,3) unfolding V by (auto simp: vm_inv_def s'_def)
  ultimately show "vm_inv s' P xs ex" using wf'(1) exP by (simp add: vm_inv_def s'_def)
qed

text \<open>The page that was mapped: it can be given up, and it is freed with its last reference.\<close>

lemma mapped_page:
  assumes inv: "vm_inv s P xs ex" and k: "k \<in> user_keys" and m: "vmap (kmem s) P k = Some p"
  shows "pte_page p < unat (npages s)" "pp_ref (pages s ! pte_page p) \<noteq> 0" "pte_page p \<notin> set xs"
    "pp_link (pages s ! pte_page p) = None"
    "pp_ref (pages s ! pte_page p) = 1 \<Longrightarrow> pte_page p \<noteq> P"
    "pp_ref (pages s ! pte_page p) = 1 \<Longrightarrow> pte_page p \<notin> table_of (kmem s) P ` table_slots (kmem s) P"
    "0 < maps_to (vmap (kmem s) P) (pte_page p)"
proof -
  let ?q = "pte_page p"
  have wf: "pt_wf s P xs" and ref: "ref_ok s P ex" and exP: "0 < ex P"
    using inv by (simp_all add: vm_inv_def)
  note w = pt_wf_simps [OF wf]
  show q: "?q < unat (npages s)" using inv k m by (auto simp: vm_inv_def)
  show mt: "0 < maps_to (vmap (kmem s) P) ?q"
    using maps_to_upd [OF k, of "vmap (kmem s) P" None ?q] m by simp
  note r = ref_okD [OF ref q]
  show nz: "pp_ref (pages s ! ?q) \<noteq> 0" using r mt by auto
  show xs: "?q \<notin> set xs" using free_chainD(6) [OF w(2), of ?q] nz by auto
  show "pp_link (pages s ! ?q) = None" using free_list_unlinked [OF w(1) _ xs] q w(3) by simp
  show "?q \<noteq> P" if "pp_ref (pages s ! ?q) = 1" using r mt exP that by auto
  show "?q \<notin> table_of (kmem s) P ` table_slots (kmem s) P" if "pp_ref (pages s ! ?q) = 1"
    using r mt that by auto
qed

definition drop_state :: "nat \<Rightarrow> nat \<Rightarrow> nat \<Rightarrow> kstate \<Rightarrow> kstate" where
  "drop_state P d t s = (decref_state (pte_page (pword (kmem s) (table_of (kmem s) P d) t)) s)
     \<lparr>kmem := st32 (kmem s) (kaddr (table_of (kmem s) P d) t) 0\<rparr>"

lemma unat_u16_pred: "(r :: u16) \<noteq> 0 \<Longrightarrow> unat (r - 1) = unat r - 1"
  by (simp add: unat_minus_one)

lemma decref_state_simps [simp]:
  "kmem (decref_state q s) = kmem s" "npages (decref_state q s) = npages s" "tlb (decref_state q s) = tlb s"
  "length (pages (decref_state q s)) = length (pages s)"
  by (simp_all add: decref_state_def)

lemma decref_state_ref:
  "q < length (pages s) \<Longrightarrow> pp_ref (pages s ! q) \<noteq> 0 \<Longrightarrow>
    unat (pp_ref (pages (decref_state q s) ! j)) = (if j = q then unat (pp_ref (pages s ! q)) - 1 else unat (pp_ref (pages s ! j)))"
  by (auto simp: decref_state_def nth_list_update unat_u16_pred)

lemma drop_mapping:
  assumes inv: "vm_inv s P xs ex" and k: "(d, t) \<in> user_keys" and m: "vmap (kmem s) P (d, t) = Some p"
  shows "vm_inv (drop_state P d t s) P (if pp_ref (pages s ! pte_page p) = 1 then pte_page p # xs else xs) ex"
    "vmap (kmem (drop_state P d t s)) P = (vmap (kmem s) P)((d, t) := None)"
    "vm_step P s (drop_state P d t s)"
proof -
  let ?q = "pte_page p" and ?s = "drop_state P d t s" and ?ds = "decref_state (pte_page p) s"
  let ?ys = "if pp_ref (pages s ! ?q) = 1 then ?q # xs else xs"
  have wf: "pt_wf s P xs" and ref: "ref_ok s P ex" using inv by (simp_all add: vm_inv_def)
  note w = pt_wf_simps [OF wf]
  have p: "d \<in> table_slots (kmem s) P" "t < 1024" "p = pword (kmem s) (table_of (kmem s) P d) t"
    using vmap_SomeD [OF m] by simp_all
  note q = mapped_page [OF inv k m]
  have S: "?s = ?ds\<lparr>kmem := st32 (kmem ?ds) (kaddr (table_of (kmem ?ds) P d) t) 0\<rparr>"
    using p(3) by (simp add: drop_state_def)
  have fl: "free_list ?ds ?ys" using decref_state_free_list [OF w(1) _ q(3)] q(1) w(3) by simp
  have "table_of (kmem s) P e \<notin> set ?ys" if "e \<in> table_slots (kmem s) P" for e
    using w(8) [OF that] q(6) imageI [OF that, of "table_of (kmem s) P"] by auto
  then have dwf: "pt_wf ?ds P ?ys" using wf fl q(5) by (auto simp: pt_wf_def)
  have dm: "d \<in> table_slots (kmem ?ds) P" using p(1) by simp
  note wf' = st32_entry_wf [OF dwf dm p(2), of 0]
  note se = set_entry [OF pt_wf_tables_ok [OF wf] p(1,2), of 0]
  show V: "vmap (kmem ?s) P = (vmap (kmem s) P)((d, t) := None)" using se(3) by (simp add: S)
  have "ref_ok ?s P ex"
    unfolding ref_ok_def
  proof (intro allI impI)
    fix j assume j: "j < unat (npages ?s)"
    have "maps_to (vmap (kmem ?s) P) j + (if j = ?q then 1 else 0) = maps_to (vmap (kmem s) P) j"
      using maps_to_upd [OF k, of "vmap (kmem s) P" None j] m by (auto simp: V)
    moreover have "table_of (kmem ?s) P ` table_slots (kmem ?s) P = table_of (kmem s) P ` table_slots (kmem s) P"
      using wf'(2) se(1) by (simp add: S)
    moreover have "unat (pp_ref (pages ?s ! j)) = (if j = ?q then unat (pp_ref (pages s ! ?q)) - 1 else unat (pp_ref (pages s ! j)))"
      using decref_state_ref [OF _ q(2)] q(1) w(3) by (simp add: S)
    ultimately show "unat (pp_ref (pages ?s ! j)) = maps_to (vmap (kmem ?s) P) j +
        (if j \<in> table_of (kmem ?s) P ` table_slots (kmem ?s) P then 1 else 0) + ex j"
      using ref_okD [OF ref, of j] j by (auto simp: S)
  qed
  moreover have "pt_wf ?s P ?ys" using wf'(1) by (simp add: S)
  moreover have "\<forall>k\<in>user_keys. \<forall>p. vmap (kmem ?s) P k = Some p \<longrightarrow> pte_page p < unat (npages ?s)"
    using inv unfolding V by (auto simp: vm_inv_def S)
  ultimately show "vm_inv ?s P ?ys ex" using inv by (simp add: vm_inv_def)
  have "vm_step P s ?ds" by (simp add: vm_step_def decref_state_def)
  then show "vm_step P s ?s"
    using st32_entry_step [OF dwf dm p(2), of 0] unfolding S by (rule vm_step_trans)
qed

section \<open>page_remove and page_insert\<close>

lemma key_eq_iff: "key va = key va' \<longleftrightarrow> PGNUM va = PGNUM va'"
  unfolding key_def PGNUM_eq_iff by (simp add: word_unat_eq_iff)

lemma key_user: "key va \<in> user_keys \<longleftrightarrow> unat (PDX va) < 955"
  using PTX_less [of va] by (simp add: key_def user_keys_iff)

lemma user_not_self: "key va \<in> user_keys \<Longrightarrow> unat (PDX va) \<noteq> self_slot"
  by (simp add: key_user self_slot_def)

lemma ld_pte: "ld32 m (kaddr p i) = pword m p i"
  by (simp add: pword_def)

lemma vmap_key:
  "unat (PDX va) \<in> table_slots m P \<Longrightarrow> vmap m P (key va) =
    (if present (pword m (table_of m P (unat (PDX va))) (unat (PTX va)))
     then Some (pword m (table_of m P (unat (PDX va))) (unat (PTX va))) else None)"
  using PTX_less [of va] by (simp add: vmap_def key_def)

definition unmap_state :: "nat \<Rightarrow> u32 \<Rightarrow> kstate \<Rightarrow> kstate" where
  "unmap_state P va s = tlb_invalidate (kaddr P 0) va (drop_state P (unat (PDX va)) (unat (PTX va)) s)"

lemma page_remove_mapped:
  assumes inv: "vm_inv s P xs ex" and k: "key va \<in> user_keys" and m: "vmap (kmem s) P (key va) = Some p"
  shows "page_remove (kaddr P 0) va s = Inr (unmap_state P va s)"
proof -
  let ?d = "unat (PDX va)" and ?t = "unat (PTX va)"
  have wf: "pt_wf s P xs" using inv by (simp add: vm_inv_def)
  have p: "?d \<in> table_slots (kmem s) P" "p = pword (kmem s) (table_of (kmem s) P ?d) ?t" "present p"
    using vmap_SomeD [of "kmem s" P ?d ?t p] m by (auto simp: key_def)
  note q = mapped_page [OF inv k m]
  have "pa2page s p = Inr (pte_page p)"
    using q(1) by (simp add: pa2page_def pte_page_def word_le_nat_alt)
  moreover have "page_decref (pte_page p) s = Inr (decref_state (pte_page p) s)"
    using q(1,4) pt_wf_simps(3) [OF wf] by (intro page_decref_ok) simp_all
  ultimately show ?thesis
    using p pgdir_walk_present [OF wf p(1), of False]
    by (simp add: page_remove_def ld_pte present_def unmap_state_def drop_state_def)
qed

lemma page_remove_unmapped:
  assumes wf: "pt_wf s P xs" and va: "unat (PDX va) \<noteq> self_slot" and m: "vmap (kmem s) P (key va) = None"
  shows "page_remove (kaddr P 0) va s = Inr s"
proof (cases "unat (PDX va) \<in> table_slots (kmem s) P")
  case True
  then have "\<not> present (pword (kmem s) (table_of (kmem s) P (unat (PDX va))) (unat (PTX va)))"
    using m by (simp add: vmap_key split: if_splits)
  then show ?thesis
    using pgdir_walk_present [OF wf True, of False] by (simp add: page_remove_def ld_pte present_def)
next
  case False
  then show ?thesis using pgdir_walk_absent [OF va False] by (simp add: page_remove_def)
qed

lemma unmap_state_inv:
  assumes inv: "vm_inv s P xs ex" and k: "key va \<in> user_keys" and m: "vmap (kmem s) P (key va) = Some p"
  shows "vm_inv (unmap_state P va s) P (if pp_ref (pages s ! pte_page p) = 1 then pte_page p # xs else xs) ex"
    "vmap (kmem (unmap_state P va s)) P = (vmap (kmem s) P)(key va := None)"
    "vm_step P s (unmap_state P va s)" "tlb (unmap_state P va s) = (tlb s)(PGNUM va := None)"
  using drop_mapping [OF inv k [unfolded key_def] m [unfolded key_def]]
  by (auto simp: unmap_state_def tlb_invalidate_def invlpg_def vm_inv_def pt_wf_def free_list_def
      free_chain_def ref_ok_def vm_step_def key_def drop_state_def)

text \<open>The entry \<open>page_insert\<close> writes.\<close>

definition pte_entry :: "nat \<Rightarrow> u32 \<Rightarrow> u32" where
  "pte_entry pp perm = page2pa pp OR perm OR PTE_P"

text \<open>
  \<open>page_insert\<close> where the page table exists: the outcome of the reference, the removal of what was
  mapped and the store.
\<close>

lemma page_insert_table:
  assumes inv: "vm_inv s P xs ex" and k: "key va \<in> user_keys"
    and d: "unat (PDX va) \<in> table_slots (kmem s) P"
    and walk: "pgdir_walk (kaddr P 0) va True s0
      = Inr (Some (kaddr (table_of (kmem s) P (unat (PDX va))) (unat (PTX va))), s)"
    and pp: "pp < unat (npages s)" "pp \<notin> set xs" "unat (pp_ref (pages s ! pp)) < 65535"
    and perm: "perm < 4096"
  shows "\<exists>s' ys. page_insert (kaddr P 0) pp va perm s0 = Inr (0, s') \<and> vm_inv s' P ys ex \<and>
    vmap (kmem s') P = (vmap (kmem s) P)(key va := Some (pte_entry pp perm)) \<and> vm_step P s s' \<and>
    (tlb_ok s P \<longrightarrow> tlb_ok s' P)"
proof -
  let ?d = "unat (PDX va)" and ?t = "unat (PTX va)" and ?T = "table_of (kmem s) P (unat (PDX va))"
  let ?ex = "ex(pp := ex pp + 1)" and ?s1 = "take_ref pp s"
  let ?e = "pte_entry pp perm"
  have wf: "pt_wf s P xs" and exP: "0 < ex P" using inv by (simp_all add: vm_inv_def)
  have len: "pp < length (pages s)" "pp < 2 ^ 20" using pt_wf_simps(3,4) [OF wf] pp(1) by simp_all
  have e: "present ?e" "pte_page ?e = pp" using pte_page_perm [OF len(2) perm] by (simp_all add: pte_entry_def)
  have inv1: "vm_inv ?s1 P xs ?ex" using take_ref_inv [OF inv pp] .
  have wf1: "pt_wf ?s1 P xs" using inv1 by (simp add: vm_inv_def)
  obtain s2 ys where s2: "(if present (pword (kmem ?s1) ?T ?t) then page_remove (kaddr P 0) va ?s1 else Inr ?s1) = Inr s2"
    "vm_inv s2 P ys ?ex" "vmap (kmem s2) P = (vmap (kmem s) P)(key va := None)" "vm_step P ?s1 s2"
    "tlb_ok s P \<longrightarrow> tlb s2 (PGNUM va) = None \<and> (\<forall>vn. vn \<noteq> PGNUM va \<longrightarrow> tlb s2 vn = tlb s vn)"
  proof (cases "present (pword (kmem ?s1) ?T ?t)")
    case True
    then have m: "vmap (kmem ?s1) P (key va) = Some (pword (kmem s) ?T ?t)" using d by (simp add: vmap_key)
    show ?thesis
      using that [OF _ unmap_state_inv(1-3) [OF inv1 k m, simplified take_ref_simps]]
        page_remove_mapped [OF inv1 k m] True unmap_state_inv(4) [OF inv1 k m] by simp
  next
    case False
    then have n: "vmap (kmem s) P (key va) = None" using d by (simp add: vmap_key)
    then have "(vmap (kmem s) P)(key va := None) = vmap (kmem s) P" by auto
    moreover have "tlb_ok s P \<longrightarrow> tlb s (PGNUM va) = None"
      using n user_not_self [OF k] by (metis tlb_ok_def option.exhaust option.discI)
    ultimately show ?thesis using that [of ?s1 xs] inv1 False vm_step_refl by simp
  qed
  have d2: "?d \<in> table_slots (kmem s2) P" "table_of (kmem s2) P ?d = ?T" "npages s2 = npages s"
    using s2(4) d by (auto simp: vm_step_def)
  let ?s' = "s2\<lparr>kmem := st32 (kmem s2) (kaddr ?T ?t) ?e\<rparr>"
  have new: "vmap (kmem s2) P (?d, ?t) = None" by (simp add: s2(3) key_def)
  have k': "(?d, ?t) \<in> user_keys" using k by (simp add: key_def)
  have ppn: "pp < unat (npages s2)" using pp(1) d2(3) by simp
  note em = enter_mapping [OF s2(2) d2(1) k' new e ppn exP, unfolded d2(2)]
  have wf2: "pt_wf s2 P ys" using s2(2) by (simp add: vm_inv_def)
  have "page_insert (kaddr P 0) pp va perm s0
      = bindR (if present (pword (kmem ?s1) ?T ?t) then page_remove (kaddr P 0) va ?s1 else Inr ?s1)
          (\<lambda>s. Inr (0, s\<lparr>kmem := st32 (kmem s) (kaddr ?T ?t) ?e\<rparr>))"
    using walk len(1)
    by (simp add: page_insert_def get_page_def ld_pte present_def take_ref_def [symmetric] pte_entry_def)
  also have "\<dots> = Inr (0, ?s')" by (simp only: s2(1) bindR_simps)
  finally have "page_insert (kaddr P 0) pp va perm s0 = Inr (0, ?s')" .
  moreover have V: "vmap (kmem ?s') P = (vmap (kmem s) P)(key va := Some ?e)"
    using em(2) s2(3) by (simp add: key_def)
  moreover have "vm_step P s ?s'"
    using vm_step_trans [OF take_ref_step vm_step_trans [OF s2(4)
      st32_entry_step [OF wf2 d2(1) PTX_less, unfolded d2(2)]]] .
  moreover have "tlb_ok ?s' P" if tl: "tlb_ok s P"
    unfolding tlb_ok_def
  proof (intro allI impI)
    fix va' p assume h: "tlb ?s' (PGNUM va') = Some p" "unat (PDX va') \<noteq> self_slot"
    then have "PGNUM va' \<noteq> PGNUM va" using s2(5) tl by auto
    then show "vmap (kmem ?s') P (key va') = Some p"
      using h s2(5) tl unfolding V by (simp add: key_eq_iff) (simp add: tlb_ok_def)
  qed
  ultimately show ?thesis using em(1) by blast
qed

lemma page_insert_no_mem:
  assumes "pt_wf s P []" "unat (PDX va) \<noteq> self_slot" "unat (PDX va) \<notin> table_slots (kmem s) P"
  shows "page_insert (kaddr P 0) pp va perm s = Inr (- E_NO_MEM, s)"
  using pgdir_walk_no_mem [OF assms] by (simp add: page_insert_def)

text \<open>The two ways \<open>page_insert\<close> finds a page table, joined.\<close>

lemma page_insert_ok:
  assumes inv: "vm_inv s P xs ex" and k: "key va \<in> user_keys"
    and mem: "unat (PDX va) \<in> table_slots (kmem s) P \<or> xs \<noteq> []"
    and pp: "pp < unat (npages s)" "pp \<notin> set xs" "unat (pp_ref (pages s ! pp)) < 65535"
    and perm: "perm < 4096"
  shows "\<exists>s' ys. page_insert (kaddr P 0) pp va perm s = Inr (0, s') \<and> vm_inv s' P ys ex \<and>
    vmap (kmem s') P = (vmap (kmem s) P)(key va := Some (pte_entry pp perm)) \<and> vm_step P s s' \<and>
    (tlb_ok s P \<longrightarrow> tlb_ok s' P)"
proof (cases "unat (PDX va) \<in> table_slots (kmem s) P")
  case True
  have wf: "pt_wf s P xs" using inv by (simp add: vm_inv_def)
  show ?thesis
    using page_insert_table [OF inv k True pgdir_walk_present [OF wf True] pp perm] .
next
  case False
  then obtain x zs where xs: "xs = x # zs" using mem by (cases xs) auto
  have inv': "vm_inv s P (x # zs) ex" using inv xs by simp
  then have wf: "pt_wf s P (x # zs)" by (simp add: vm_inv_def)
  let ?s = "walk_state P (unat (PDX va)) x s"
  note ws = walk_state_step [OF inv' PDX_less user_not_self [OF k] False]
  have "pgdir_walk (kaddr P 0) va True s
      = Inr (Some (kaddr (table_of (kmem ?s) P (unat (PDX va))) (unat (PTX va))), ?s)"
    using pgdir_walk_create [OF wf user_not_self [OF k] False] ws(5) by simp
  moreover have "npages ?s = npages s" "tlb ?s = tlb s" by (simp_all add: walk_state_def)
  moreover have "pp \<noteq> x" "pp \<notin> set zs" using pp(2) xs by auto
  ultimately obtain s' ys where "page_insert (kaddr P 0) pp va perm s = Inr (0, s')" "vm_inv s' P ys ex"
    "vmap (kmem s') P = (vmap (kmem ?s) P)(key va := Some (pte_entry pp perm))" "vm_step P ?s s'"
    "tlb_ok ?s P \<longrightarrow> tlb_ok s' P"
    using page_insert_table [OF ws(1) k ws(4), of s pp perm] pp perm ws(7) [of pp] by auto
  moreover have "tlb_ok s P \<longrightarrow> tlb_ok ?s P" by (simp add: tlb_ok_def ws(2)) (simp add: walk_state_def)
  ultimately show ?thesis using ws(2,3) vm_step_trans by metis
qed

end
