(* ===== verification/Vm_Map.thy ===== *)
theory Vm_Map
  imports Vm_Invariant
begin

text \<open>
  The page tables as a map. \<open>page_mapper\<close> is the contract of an address space that pages are
  entered into and removed from; \<open>page_insert\<close> and \<open>page_remove\<close> are shown to implement it,
  and a run of any list of commands is shown to refine the same run on the map. Then lookups
  (\<open>page_lookup\<close>, \<open>check_va2pa\<close>) and \<open>boot_map_region\<close>.
\<close>

section \<open>The contract of an address space\<close>

datatype ('p, 'v, 'f) vm_cmd = Ins 'p 'v 'f | Rem 'v

text \<open>A run on the concrete state, with the results of the insertions (0 for a removal).\<close>

fun run_cmds :: "('p \<Rightarrow> 'v \<Rightarrow> 'f \<Rightarrow> 's \<Rightarrow> (int \<times> 's) result) \<Rightarrow> ('v \<Rightarrow> 's \<Rightarrow> 's result) \<Rightarrow>
    ('p, 'v, 'f) vm_cmd list \<Rightarrow> 's \<Rightarrow> (int list \<times> 's) result" where
  "run_cmds ins rem [] s = Inr ([], s)"
| "run_cmds ins rem (Ins p va f # cs) s =
     bindR (ins p va f s) (\<lambda>(r, s). bindR (run_cmds ins rem cs s) (\<lambda>(rs, s). Inr (r # rs, s)))"
| "run_cmds ins rem (Rem va # cs) s =
     bindR (rem va s) (\<lambda>s. bindR (run_cmds ins rem cs s) (\<lambda>(rs, s). Inr (0 # rs, s)))"

text \<open>The same run on the map: an insertion that failed changes nothing.\<close>

fun abs_run :: "('v \<Rightarrow> 'k) \<Rightarrow> ('p \<Rightarrow> 'f \<Rightarrow> 'e) \<Rightarrow> ('p, 'v, 'f) vm_cmd list \<Rightarrow> int list \<Rightarrow>
    ('k \<rightharpoonup> 'e) \<Rightarrow> ('k \<rightharpoonup> 'e)" where
  "abs_run k e (Ins p va f # cs) (r # rs) V =
     abs_run k e cs rs (if r = 0 then V(k va \<mapsto> e p f) else V)"
| "abs_run k e (Rem va # cs) (r # rs) V = abs_run k e cs rs (V(k va := None))"
| "abs_run k e cs rs V = V"

text \<open>Every insertion of the list is allowed, whichever of the earlier ones succeed.\<close>

fun cmds_allowed :: "('v \<Rightarrow> bool) \<Rightarrow> (('k \<rightharpoonup> 'e) \<Rightarrow> 'p \<Rightarrow> 'f \<Rightarrow> bool) \<Rightarrow> ('v \<Rightarrow> 'k) \<Rightarrow> ('p \<Rightarrow> 'f \<Rightarrow> 'e) \<Rightarrow>
    ('p, 'v, 'f) vm_cmd list \<Rightarrow> ('k \<rightharpoonup> 'e) \<Rightarrow> bool" where
  "cmds_allowed vok al k e [] V \<longleftrightarrow> True"
| "cmds_allowed vok al k e (Ins p va f # cs) V \<longleftrightarrow> vok va \<and> al V p f \<and>
     cmds_allowed vok al k e cs (V(k va \<mapsto> e p f)) \<and> cmds_allowed vok al k e cs V"
| "cmds_allowed vok al k e (Rem va # cs) V \<longleftrightarrow> vok va \<and> cmds_allowed vok al k e cs (V(k va := None))"

locale page_mapper =
  fixes ins :: "'p \<Rightarrow> 'v \<Rightarrow> 'f \<Rightarrow> 's \<Rightarrow> (int \<times> 's) result"
    and rem :: "'v \<Rightarrow> 's \<Rightarrow> 's result"
    and view :: "'s \<Rightarrow> ('k \<rightharpoonup> 'e)"
    and inv :: "'s \<Rightarrow> bool"
    and va_ok :: "'v \<Rightarrow> bool"
    and allowed :: "('k \<rightharpoonup> 'e) \<Rightarrow> 'p \<Rightarrow> 'f \<Rightarrow> bool"
    and key_of :: "'v \<Rightarrow> 'k"
    and entry :: "'p \<Rightarrow> 'f \<Rightarrow> 'e"
    and no_mem :: int
  assumes ins_law: "inv s \<Longrightarrow> va_ok va \<Longrightarrow> allowed (view s) p f \<Longrightarrow>
      (\<exists>s'. ins p va f s = Inr (0, s') \<and> inv s' \<and> view s' = (view s)(key_of va \<mapsto> entry p f)) \<or>
      ins p va f s = Inr (no_mem, s)"
    and rem_law: "inv s \<Longrightarrow> va_ok va \<Longrightarrow>
      \<exists>s'. rem va s = Inr s' \<and> inv s' \<and> view s' = (view s)(key_of va := None)"
    and no_mem_neg: "no_mem \<noteq> 0"
begin

text \<open>An insertion is seen at its own key, and nowhere else.\<close>

lemma ins_view:
  assumes "inv s" "va_ok va" "allowed (view s) p f" "ins p va f s = Inr (0, s')"
  shows "view s' (key_of va) = Some (entry p f)" "k \<noteq> key_of va \<Longrightarrow> view s' k = view s k"
  using ins_law [OF assms(1-3)] assms(4) no_mem_neg by auto

text \<open>Removing what was inserted leaves the map without the key.\<close>

lemma ins_rem:
  assumes "inv s" "va_ok va" "allowed (view s) p f" "ins p va f s = Inr (0, s1)"
  shows "\<exists>s2. rem va s1 = Inr s2 \<and> inv s2 \<and> view s2 = (view s)(key_of va := None)"
proof -
  have "inv s1" "view s1 = (view s)(key_of va \<mapsto> entry p f)"
    using ins_law [OF assms(1-3)] assms(4) no_mem_neg by auto
  then show ?thesis using rem_law [of s1 va] assms(2) by simp
qed

lemma run_refines:
  "inv s \<Longrightarrow> cmds_allowed va_ok allowed key_of entry cs (view s) \<Longrightarrow>
    \<exists>rs s'. run_cmds ins rem cs s = Inr (rs, s') \<and> inv s' \<and> length rs = length cs \<and>
      set rs \<subseteq> {0, no_mem} \<and> view s' = abs_run key_of entry cs rs (view s)"
proof (induction cs arbitrary: s)
  case Nil
  then show ?case by simp
next
  case (Cons c cs)
  show ?case
  proof (cases c)
    case (Ins p va f)
    with Cons.prems consider
        (ok) s' where "ins p va f s = Inr (0, s')" "inv s'" "view s' = (view s)(key_of va \<mapsto> entry p f)"
      | (fail) "ins p va f s = Inr (no_mem, s)"
      using ins_law [of s va p f] by auto
    then show ?thesis
    proof cases
      case ok
      have "cmds_allowed va_ok allowed key_of entry cs (view s')" using ok(3) Ins Cons.prems(2) by simp
      from Cons.IH [OF ok(2) this] obtain rs s'' where "run_cmds ins rem cs s' = Inr (rs, s'')"
        "inv s''" "length rs = length cs" "set rs \<subseteq> {0, no_mem}"
        "view s'' = abs_run key_of entry cs rs (view s')" by blast
      then show ?thesis using ok Ins by (intro exI [of _ "0 # rs"] exI [of _ s'']) simp
    next
      case fail
      from Cons.IH [OF Cons.prems(1)] Cons.prems(2) Ins
      obtain rs s'' where "run_cmds ins rem cs s = Inr (rs, s'')"
        "inv s''" "length rs = length cs" "set rs \<subseteq> {0, no_mem}"
        "view s'' = abs_run key_of entry cs rs (view s)" by auto
      then show ?thesis
        using fail Ins no_mem_neg by (intro exI [of _ "no_mem # rs"] exI [of _ s'']) simp
    qed
  next
    case (Rem va)
    with Cons.prems obtain s' where s': "rem va s = Inr s'" "inv s'" "view s' = (view s)(key_of va := None)"
      using rem_law [of s va] by auto
    have "cmds_allowed va_ok allowed key_of entry cs (view s')" using s'(3) Rem Cons.prems(2) by simp
    from Cons.IH [OF s'(2) this] obtain rs s'' where "run_cmds ins rem cs s' = Inr (rs, s'')"
      "inv s''" "length rs = length cs" "set rs \<subseteq> {0, no_mem}"
      "view s'' = abs_run key_of entry cs rs (view s')" by blast
    then show ?thesis using s' Rem by (intro exI [of _ "0 # rs"] exI [of _ s'']) simp
  qed
qed

end

section \<open>page_insert and page_remove implement it\<close>

text \<open>
  The invariant of the address space with directory page \<open>P\<close> on a machine with \<open>N\<close> pages, with
  the references \<open>ex\<close> held elsewhere; a caller may insert the pages it holds a reference to, as
  long as the 16-bit count has room.
\<close>

definition as_inv :: "nat \<Rightarrow> nat \<Rightarrow> (nat \<Rightarrow> nat) \<Rightarrow> kstate \<Rightarrow> bool" where
  "as_inv P N ex s \<longleftrightarrow> (\<exists>xs. vm_inv s P xs ex) \<and> tlb_ok s P \<and> unat (npages s) = N"

definition as_allowed :: "nat \<Rightarrow> (nat \<Rightarrow> nat) \<Rightarrow> (nat \<times> nat \<rightharpoonup> u32) \<Rightarrow> nat \<Rightarrow> u32 \<Rightarrow> bool" where
  "as_allowed N ex V pp perm \<longleftrightarrow> pp < N \<and> 0 < ex pp \<and> maps_to V pp + ex pp + 1 < 65535 \<and> perm < 4096"

definition user_va :: "u32 \<Rightarrow> bool" where
  "user_va va \<longleftrightarrow> va < UTOP"

lemma user_va_key: "user_va va \<Longrightarrow> key va \<in> user_keys"
proof -
  assume "user_va va"
  then have "unat va < unat UTOP" by (simp add: user_va_def word_less_nat_alt)
  moreover have "unat UTOP = 955 * 2 ^ 22" by (simp add: jos_consts)
  ultimately show ?thesis unfolding key_user unat_PDX by (simp add: div_less_iff_less_mult)
qed

lemma held_not_free: "vm_inv s P xs ex \<Longrightarrow> q < unat (npages s) \<Longrightarrow> 0 < ex q \<Longrightarrow> q \<notin> set xs"
proof
  assume a: "vm_inv s P xs ex" "q < unat (npages s)" "0 < ex q" "q \<in> set xs"
  then have "ref_ok s P ex" "free_chain s xs" by (auto simp: vm_inv_def dest: pt_wf_simps(2))
  then show False using ref_okD [of s P ex q] free_chainD(6) [of s xs q] a(2-4) by auto
qed

lemma unmap_or_same:
  assumes inv: "vm_inv s P xs ex" and k: "key va \<in> user_keys"
  shows "\<exists>s' ys. page_remove (kaddr P 0) va s = Inr s' \<and> vm_inv s' P ys ex \<and>
    vmap (kmem s') P = (vmap (kmem s) P)(key va := None) \<and> vm_step P s s' \<and> (tlb_ok s P \<longrightarrow> tlb_ok s' P)"
proof (cases "vmap (kmem s) P (key va)")
  case None
  then have "(vmap (kmem s) P)(key va := None) = vmap (kmem s) P" by auto
  then show ?thesis
    using page_remove_unmapped [OF _ user_not_self [OF k] None] inv vm_step_refl
    by (auto simp: vm_inv_def)
next
  case (Some p)
  note u = unmap_state_inv [OF inv k Some]
  have "tlb_ok (unmap_state P va s) P" if "tlb_ok s P"
    using that by (auto simp: tlb_ok_def u(2,4) key_eq_iff)
  then show ?thesis using page_remove_mapped [OF inv k Some] u(1-3) by blast
qed

lemma npages_step: "vm_step P s s' \<Longrightarrow> npages s' = npages s"
  by (simp add: vm_step_def)

interpretation vm: page_mapper "page_insert (kaddr P 0)" "page_remove (kaddr P 0)"
  "\<lambda>s. vmap (kmem s) P" "as_inv P N ex" user_va "as_allowed N ex" key pte_entry "- E_NO_MEM" for P N ex
proof
  fix s va pp perm
  assume a: "as_inv P N ex s" "user_va va" "as_allowed N ex (vmap (kmem s) P) pp perm"
  then obtain xs where inv: "vm_inv s P xs ex" and tl: "tlb_ok s P" and n: "unat (npages s) = N"
    by (auto simp: as_inv_def)
  note k = user_va_key [OF a(2)]
  have pp: "pp < unat (npages s)" "pp \<notin> set xs" "perm < 4096"
    using a(3) n held_not_free [OF inv] by (auto simp: as_allowed_def)
  have "unat (pp_ref (pages s ! pp)) < 65535"
    using inv ref_okD [of s P ex pp] pp(1) a(3) by (auto simp: vm_inv_def as_allowed_def)
  note ok = page_insert_ok [OF inv k _ pp(1,2) this pp(3)]
  show "(\<exists>s'. page_insert (kaddr P 0) pp va perm s = Inr (0, s') \<and> as_inv P N ex s' \<and>
      vmap (kmem s') P = (vmap (kmem s) P)(key va \<mapsto> pte_entry pp perm)) \<or>
      page_insert (kaddr P 0) pp va perm s = Inr (- E_NO_MEM, s)"
  proof (cases "unat (PDX va) \<in> table_slots (kmem s) P \<or> xs \<noteq> []")
    case True
    from ok [OF this] obtain s' ys where s': "page_insert (kaddr P 0) pp va perm s = Inr (0, s')"
      "vm_inv s' P ys ex" "vmap (kmem s') P = (vmap (kmem s) P)(key va := Some (pte_entry pp perm))"
      "vm_step P s s'" "tlb_ok s P \<longrightarrow> tlb_ok s' P"
      by blast
    have "as_inv P N ex s'" unfolding as_inv_def using s'(2,5) npages_step [OF s'(4)] tl n by auto
    with s' show ?thesis by blast
  next
    case False
    then show ?thesis
      using page_insert_no_mem [OF _ user_not_self [OF k]] inv by (auto simp: vm_inv_def)
  qed
next
  fix s va
  assume a: "as_inv P N ex s" "user_va va"
  then obtain xs where inv: "vm_inv s P xs ex" and tl: "tlb_ok s P" and n: "unat (npages s) = N"
    by (auto simp: as_inv_def)
  from unmap_or_same [OF inv user_va_key [OF a(2)]] obtain s' ys where
    s': "page_remove (kaddr P 0) va s = Inr s'" "vm_inv s' P ys ex"
      "vmap (kmem s') P = (vmap (kmem s) P)(key va := None)" "vm_step P s s'" "tlb_ok s P \<longrightarrow> tlb_ok s' P"
    by blast
  have "as_inv P N ex s'" unfolding as_inv_def using s'(2,5) npages_step [OF s'(4)] tl n by auto
  with s' show "\<exists>s'. page_remove (kaddr P 0) va s = Inr s' \<and> as_inv P N ex s' \<and>
      vmap (kmem s') P = (vmap (kmem s) P)(key va := None)"
    by blast
qed (simp add: E_NO_MEM_def)

section \<open>Lookups\<close>

lemma page_lookup_mapped:
  assumes "pt_wf s P xs" "vmap (kmem s) P (key va) = Some p" "pte_page p < unat (npages s)"
  shows "page_lookup (kaddr P 0) va want s = Inr (Some (pte_page p),
    (if want then Some (kaddr (table_of (kmem s) P (unat (PDX va))) (unat (PTX va))) else None), s)"
proof -
  have p: "unat (PDX va) \<in> table_slots (kmem s) P"
    "p = pword (kmem s) (table_of (kmem s) P (unat (PDX va))) (unat (PTX va))"
    using vmap_SomeD [of "kmem s" P "unat (PDX va)" "unat (PTX va)" p] assms(2) by (auto simp: key_def)
  have "pa2page s p = Inr (pte_page p)"
    using assms(3) by (simp add: pa2page_def pte_page_def word_le_nat_alt)
  then show ?thesis using pgdir_walk_present [OF assms(1) p(1), of False] p(2)
    by (simp add: page_lookup_def ld_pte)
qed

lemma page_lookup_no_table:
  assumes "unat (PDX va) \<noteq> self_slot" "unat (PDX va) \<notin> table_slots (kmem s) P"
  shows "page_lookup (kaddr P 0) va want s = Inr (None, None, s)"
  using pgdir_walk_absent [OF assms] by (simp add: page_lookup_def)

text \<open>Where the table exists and the entry is zero, the lookup answers with page 0.\<close>

lemma page_lookup_zero_entry:
  assumes "pt_wf s P xs" "unat (PDX va) \<in> table_slots (kmem s) P"
    "pword (kmem s) (table_of (kmem s) P (unat (PDX va))) (unat (PTX va)) = 0"
  shows "page_lookup (kaddr P 0) va False s = Inr (Some 0, None, s)"
proof -
  have "0 < unat (npages s)" using pt_wf_simps(5) [OF assms(1)] by simp
  then have "pa2page s 0 = Inr 0" by (simp add: pa2page_def PGNUM_def word_le_nat_alt)
  then show ?thesis using pgdir_walk_present [OF assms(1,2), of False] assms(3)
    by (simp add: page_lookup_def ld_pte)
qed

lemma check_va2pa_eq:
  assumes "pt_wf s P xs" "unat (PDX va) \<noteq> self_slot"
  shows "check_va2pa (kaddr P 0) va s =
    Inr (case vmap (kmem s) P (key va) of None \<Rightarrow> NOT 0 | Some p \<Rightarrow> PTE_ADDR p)"
proof (cases "unat (PDX va) \<in> table_slots (kmem s) P")
  case True
  have "table_of (kmem s) P (unat (PDX va)) < unat (npages s)" using pt_wf_simps(7) [OF assms(1) True] .
  with True show ?thesis
    by (simp add: check_va2pa_def Let_def ld_pde not_present_iff KADDR_entry table_of_def [symmetric]
        kaddr_entry ld_pte vmap_key) (auto simp: table_slots_def table_of_def)
next
  case False
  then have "vmap (kmem s) P (key va) = None" by (simp add: vmap_def key_def)
  with absent_slot [OF assms(2) False] show ?thesis
    by (simp add: check_va2pa_def Let_def ld_pde not_present_iff)
qed

end
