(* ===== verification/Boot_Map.thy ===== *)
theory Boot_Map
  imports Vm_Map
begin

text \<open>
  \<open>boot_map_region\<close>: the loop is total while there are pages for the tables it needs, keeps the
  invariant of the page tables, and enters exactly the entries of its region.
\<close>

section \<open>The directory\<close>

text \<open>
  \<open>dir_step P s s'\<close>: directory entries change only where there was no page table, and there to
  an entry for a new table with all permissions.
\<close>

definition dir_step :: "nat \<Rightarrow> kstate \<Rightarrow> kstate \<Rightarrow> bool" where
  "dir_step P s s' \<longleftrightarrow> (\<forall>d<1024. pword (kmem s') P d = pword (kmem s) P d \<or>
     d \<notin> table_slots (kmem s) P \<and> d \<noteq> self_slot \<and>
     (\<exists>x. pword (kmem s') P d = page2pa x OR PTE_P OR PTE_W OR PTE_U))"

lemma dir_step_refl: "dir_step P s s"
  by (simp add: dir_step_def)

lemma dir_step_trans: "dir_step P s s' \<Longrightarrow> dir_step P s' s'' \<Longrightarrow> vm_step P s s' \<Longrightarrow> dir_step P s s''"
  unfolding dir_step_def vm_step_def by (metis subsetD)

lemma walk_state_dir:
  assumes "P < 65536" "x < 65536" "x \<noteq> P" "d < 1024" "d \<noteq> self_slot" "d \<notin> table_slots (kmem s) P"
  shows "dir_step P s (walk_state P d x s)"
proof -
  have n: "unat PGSIZE \<le> 4096" by (simp add: PGSIZE_def)
  have "pword (kmem (walk_state P d x s)) P i = (if i = d then page2pa x OR PTE_P OR PTE_W OR PTE_U else pword (kmem s) P i)"
    if "i < 1024" for i
    using that assms n by (simp add: walk_state_def pword_simps)
  then show ?thesis using assms(5,6) by (auto simp: dir_step_def)
qed

text \<open>The pages that hold page tables.\<close>

definition table_pages :: "kstate \<Rightarrow> nat \<Rightarrow> nat set" where
  "table_pages s P = table_of (kmem s) P ` table_slots (kmem s) P"

lemma table_pages_same:
  "vm_step P s s' \<Longrightarrow> table_slots (kmem s') P = table_slots (kmem s) P \<Longrightarrow> table_pages s' P = table_pages s P"
  by (simp add: table_pages_def vm_step_def)

lemma table_pages_new:
  "vm_step P s s' \<Longrightarrow> table_slots (kmem s') P = insert d (table_slots (kmem s) P) \<Longrightarrow>
    table_of (kmem s') P d = x \<Longrightarrow> table_pages s' P = insert x (table_pages s P)"
  by (simp add: table_pages_def vm_step_def)

text \<open>
  The counts of a step that takes the pages \<open>ns\<close> for new tables and changes no mapping below
  \<open>UTOP\<close>: those pages go from no reference to one, every other count stays.
\<close>

lemma new_table_counts:
  assumes "vm_inv s P xs ex" "vm_inv s' P ys ex" "npages s' = npages s"
    and "\<And>q. maps_to (vmap (kmem s') P) q = maps_to (vmap (kmem s) P) q"
    and "table_pages s' P = table_pages s P \<union> set ns" "set ns \<subseteq> set xs" "q < unat (npages s)"
  shows "if q \<in> set ns then pp_ref (pages s ! q) = 0 \<and> pp_ref (pages s' ! q) = 1
    else pp_ref (pages s' ! q) = pp_ref (pages s ! q)"
proof -
  have wf: "pt_wf s P xs" and r: "ref_ok s P ex" "ref_ok s' P ex" using assms(1,2) by (simp_all add: vm_inv_def)
  note w = pt_wf_simps [OF wf]
  have z: "pp_ref (pages s ! q) = 0" "q \<notin> table_pages s P" if "q \<in> set ns"
    using free_chainD(6) [OF w(2)] w(8) that assms(6) by (auto simp: table_pages_def)
  have "unat (pp_ref (pages s' ! q)) + (if q \<in> table_pages s P then 1 else 0)
      = unat (pp_ref (pages s ! q)) + (if q \<in> table_pages s' P then 1 else 0)"
    using r assms(3,4,7) by (simp add: ref_ok_def table_pages_def)
  then show ?thesis using z by (auto simp: assms(5) word_unat_eq_iff split: if_splits)
qed

section \<open>Walking with creation\<close>

lemma walk_any:
  assumes inv: "vm_inv s P xs ex" and d: "unat (PDX va) \<noteq> self_slot"
    and mem: "unat (PDX va) \<in> table_slots (kmem s) P \<or> xs \<noteq> []"
  shows "\<exists>s' ys. pgdir_walk (kaddr P 0) va True s
      = Inr (Some (kaddr (table_of (kmem s') P (unat (PDX va))) (unat (PTX va))), s') \<and>
    vm_inv s' P ys ex \<and> vmap (kmem s') P = vmap (kmem s) P \<and> vm_step P s s' \<and>
    table_slots (kmem s') P = insert (unat (PDX va)) (table_slots (kmem s) P) \<and>
    ys = drop (if unat (PDX va) \<in> table_slots (kmem s) P then 0 else 1) xs \<and> dir_step P s s' \<and>
    table_pages s' P = table_pages s P \<union> set (take (if unat (PDX va) \<in> table_slots (kmem s) P then 0 else 1) xs)"
proof (cases "unat (PDX va) \<in> table_slots (kmem s) P")
  case True
  have wf: "pt_wf s P xs" using inv by (simp add: vm_inv_def)
  show ?thesis
    using pgdir_walk_present [OF wf True] inv True vm_step_refl dir_step_refl by (auto simp: insert_absorb)
next
  case False
  then obtain x zs where xs: "xs = x # zs" using mem by (cases xs) auto
  have inv': "vm_inv s P (x # zs) ex" using inv xs by simp
  then have wf: "pt_wf s P (x # zs)" by (simp add: vm_inv_def)
  note ws = walk_state_step [OF inv' PDX_less d False] and w = pt_wf_simps [OF wf]
  have "x < 65536" "x \<noteq> P" "P < 65536" using free_chainD(7) [OF w(2), of x] w(4-6) by auto
  then have "dir_step P s (walk_state P (unat (PDX va)) x s)" using PDX_less d False by (intro walk_state_dir) auto
  then show ?thesis
    using pgdir_walk_create [OF wf d False] ws(1,2,3,5,8) table_pages_new [OF ws(3,8,5)] False xs
    by (intro exI [of _ "walk_state P (unat (PDX va)) x s"] exI [of _ zs]) simp
qed

section \<open>Entries above the user part\<close>

lemma maps_to_kernel: "k \<notin> user_keys \<Longrightarrow> maps_to (V(k := v)) q = maps_to V q"
proof -
  assume "k \<notin> user_keys"
  then have "{j \<in> user_keys. \<exists>p. (V(k := v)) j = Some p \<and> pte_page p = q}
      = {j \<in> user_keys. \<exists>p. V j = Some p \<and> pte_page p = q}" by auto
  then show ?thesis by (simp only: maps_to_def)
qed

lemma kernel_entry:
  assumes inv: "vm_inv s P xs ex" and d: "d \<in> table_slots (kmem s) P" and t: "t < 1024"
    and k: "(d, t) \<notin> user_keys" and e: "present e"
  defines "s' \<equiv> s\<lparr>kmem := st32 (kmem s) (kaddr (table_of (kmem s) P d) t) e\<rparr>"
  shows "vm_inv s' P xs ex" "vmap (kmem s') P = (vmap (kmem s) P)((d, t) \<mapsto> e)" "vm_step P s s'"
    "table_slots (kmem s') P = table_slots (kmem s) P" "dir_step P s s'"
proof -
  have wf: "pt_wf s P xs" and ref: "ref_ok s P ex" using inv by (simp_all add: vm_inv_def)
  note wf' = st32_entry_wf [OF wf d t, of e]
  note se = set_entry [OF pt_wf_tables_ok [OF wf] d t, of e]
  have km: "kmem s' = st32 (kmem s) (kaddr (table_of (kmem s) P d) t) e" by (simp add: s'_def)
  show V: "vmap (kmem s') P = (vmap (kmem s) P)((d, t) \<mapsto> e)" using se(3) e by (simp add: km)
  show S: "table_slots (kmem s') P = table_slots (kmem s) P" using se(1) by (simp add: km)
  have "table_of (kmem s') P ` table_slots (kmem s') P = table_of (kmem s) P ` table_slots (kmem s) P"
    using wf'(2) S by (simp add: km)
  then have "ref_ok s' P ex"
    using ref k by (simp add: ref_ok_def V maps_to_kernel) (simp add: s'_def)
  moreover have "\<forall>k\<in>user_keys. \<forall>p. vmap (kmem s') P k = Some p \<longrightarrow> pte_page p < unat (npages s')"
    using inv k unfolding V by (auto simp: vm_inv_def s'_def)
  ultimately show "vm_inv s' P xs ex" using wf'(1) inv by (simp add: vm_inv_def s'_def)
  show "vm_step P s s'" unfolding s'_def by (rule st32_entry_step [OF wf d t])
  note w = pt_wf_simps [OF wf]
  have "table_of (kmem s) P d < 65536" "P < 65536" "table_of (kmem s) P d \<noteq> P" using w(4,5) w(7,9) [OF d] by simp_all
  then show "dir_step P s s'" using t by (simp add: dir_step_def km pword_st32)
qed

section \<open>The region\<close>

text \<open>The address and the entry of page \<open>j\<close> of a region, and the map with pages \<open>js\<close> entered.\<close>

definition region_va :: "u32 \<Rightarrow> nat \<Rightarrow> u32" where
  "region_va va j = va + word_of_nat j * PGSIZE"

definition region_entry :: "u32 \<Rightarrow> u32 \<Rightarrow> nat \<Rightarrow> u32" where
  "region_entry pa perm j = (pa + word_of_nat j * PGSIZE) OR perm OR PTE_P"

definition enter_region :: "u32 \<Rightarrow> u32 \<Rightarrow> u32 \<Rightarrow> nat list \<Rightarrow> (nat \<times> nat \<rightharpoonup> u32) \<Rightarrow> (nat \<times> nat \<rightharpoonup> u32)" where
  "enter_region va pa perm js V = fold (\<lambda>j V. V(key (region_va va j) \<mapsto> region_entry pa perm j)) js V"

definition region_slots :: "u32 \<Rightarrow> nat set \<Rightarrow> nat set" where
  "region_slots va js = (\<lambda>j. unat (PDX (region_va va j))) ` js"

lemma region_slots_Suc: "i < n \<Longrightarrow> region_slots va {i..<n} = insert (unat (PDX (region_va va i))) (region_slots va {Suc i..<n})"
proof -
  assume "i < n"
  then have "{i..<n} = insert i {Suc i..<n}" by auto
  then show ?thesis by (simp add: region_slots_def)
qed

text \<open>The slots of a region that have no table yet are the pages it needs.\<close>

definition tables_needed :: "memory \<Rightarrow> nat \<Rightarrow> u32 \<Rightarrow> nat set \<Rightarrow> nat" where
  "tables_needed m P va js = card (region_slots va js - table_slots m P)"

lemma boot_map_loop_correct:
  fixes va sz pa perm i :: u32
  assumes sz: "unat va + unat sz < 2 ^ 32"
    and above: "\<forall>j<unat sz. 955 \<le> unat (PDX (region_va va j)) \<and> unat (PDX (region_va va j)) \<noteq> self_slot"
  shows "n = unat sz - unat i \<Longrightarrow> i \<le> sz \<Longrightarrow> vm_inv s P xs ex \<Longrightarrow>
    tables_needed (kmem s) P va {unat i..<unat sz} \<le> length xs \<Longrightarrow>
    \<exists>s' ys. boot_map_loop (kaddr P 0) va sz pa perm i s = Inr s' \<and> vm_inv s' P ys ex \<and>
      vm_step P s s' \<and> vmap (kmem s') P = enter_region va pa perm [unat i..<unat sz] (vmap (kmem s) P) \<and>
      table_slots (kmem s') P = table_slots (kmem s) P \<union> region_slots va {unat i..<unat sz} \<and>
      ys = drop (tables_needed (kmem s) P va {unat i..<unat sz}) xs \<and> dir_step P s s' \<and>
      table_pages s' P = table_pages s P \<union> set (take (tables_needed (kmem s) P va {unat i..<unat sz}) xs)"
proof (induction n arbitrary: i s xs)
  case 0
  then have "i = sz" by (simp add: word_le_nat_alt word_unat_eq_iff)
  then show ?case using 0 vm_step_refl dir_step_refl
    by (subst boot_map_loop.simps) (auto simp: enter_region_def region_slots_def tables_needed_def)
next
  case (Suc n)
  let ?va = "region_va va (unat i)" and ?e = "region_entry pa perm (unat i)"
  let ?d = "unat (PDX ?va)" and ?R = "region_slots va {unat i..<unat sz} - table_slots (kmem s) P"
  have lt: "unat i < unat sz" "i < sz" using Suc.prems(1) by (simp_all add: word_less_nat_alt)
  have i1: "unat (i + 1) = Suc (unat i)" using unat_Suc [OF lt(2)] by simp
  have c: "va + i < va + sz" using lt sz by (simp add: word_less_nat_alt unat_word_ariths)
  have d: "?d \<noteq> self_slot" "955 \<le> ?d" using above lt by auto
  have fin: "finite ?R" by (simp add: region_slots_def)
  have dR: "?d \<in> table_slots (kmem s) P \<or> ?d \<in> ?R" using lt by (auto simp: region_slots_def)
  then have mem: "?d \<in> table_slots (kmem s) P \<or> xs \<noteq> []"
    using Suc.prems(4) fin by (auto simp: tables_needed_def)
  obtain s1 ys where w: "pgdir_walk (kaddr P 0) ?va True s
      = Inr (Some (kaddr (table_of (kmem s1) P ?d) (unat (PTX ?va))), s1)" "vm_inv s1 P ys ex"
    "vmap (kmem s1) P = vmap (kmem s) P" "vm_step P s s1"
    "table_slots (kmem s1) P = insert ?d (table_slots (kmem s) P)"
    "ys = drop (if ?d \<in> table_slots (kmem s) P then 0 else 1) xs" "dir_step P s s1"
    "table_pages s1 P = table_pages s P \<union> set (take (if ?d \<in> table_slots (kmem s) P then 0 else 1) xs)"
    using walk_any [OF Suc.prems(3) d(1) mem] by blast
  let ?s2 = "s1\<lparr>kmem := st32 (kmem s1) (kaddr (table_of (kmem s1) P ?d) (unat (PTX ?va))) ?e\<rparr>"
  have "(?d, unat (PTX ?va)) \<notin> user_keys" "?d \<in> table_slots (kmem s1) P" "present ?e"
    using d w(5) by (auto simp: user_keys_iff region_entry_def)
  then have k: "vm_inv ?s2 P ys ex" "vmap (kmem ?s2) P = (vmap (kmem s) P)(key ?va \<mapsto> ?e)" "vm_step P s ?s2"
    "table_slots (kmem ?s2) P = insert ?d (table_slots (kmem s) P)" "dir_step P s ?s2"
    using kernel_entry [OF w(2) _ PTX_less] w(3-5) vm_step_trans [OF w(4)] dir_step_trans [OF w(7) _ w(4)]
    by (auto simp: key_def)
  have s2: "vm_step P s1 ?s2" "table_slots (kmem ?s2) P = table_slots (kmem s1) P"
    using kernel_entry(3,4) [OF w(2) \<open>?d \<in> table_slots (kmem s1) P\<close> PTX_less \<open>(?d, unat (PTX ?va)) \<notin> user_keys\<close> \<open>present ?e\<close>]
    by simp_all
  have sl: "region_slots va {unat i..<unat sz} = insert ?d (region_slots va {unat (i + 1)..<unat sz})"
    using lt(1) by (simp add: region_slots_Suc i1)
  have "region_slots va {unat (i + 1)..<unat sz} - table_slots (kmem ?s2) P = ?R - {?d}"
    unfolding sl k(4) by auto
  then have tn: "tables_needed (kmem ?s2) P va {unat (i + 1)..<unat sz} =
      tables_needed (kmem s) P va {unat i..<unat sz} - (if ?d \<in> table_slots (kmem s) P then 0 else 1)"
    using dR fin by (auto simp: tables_needed_def card_Diff_singleton_if)
  then have need: "tables_needed (kmem ?s2) P va {unat (i + 1)..<unat sz} \<le> length ys"
    using Suc.prems(4) w(6) by auto
  have i2: "n = unat sz - unat (i + 1)" "i + 1 \<le> sz"
    using Suc.prems(1) lt by (simp_all add: i1 word_le_nat_alt)
  obtain s' zs where r: "boot_map_loop (kaddr P 0) va sz pa perm (i + 1) ?s2 = Inr s'"
    "vm_inv s' P zs ex" "vm_step P ?s2 s'"
    "vmap (kmem s') P = enter_region va pa perm [unat (i + 1)..<unat sz] (vmap (kmem ?s2) P)"
    "table_slots (kmem s') P = table_slots (kmem ?s2) P \<union> region_slots va {unat (i + 1)..<unat sz}"
    "zs = drop (tables_needed (kmem ?s2) P va {unat (i + 1)..<unat sz}) ys" "dir_step P ?s2 s'"
    "table_pages s' P = table_pages ?s2 P \<union> set (take (tables_needed (kmem ?s2) P va {unat (i + 1)..<unat sz}) ys)"
    using Suc.IH [OF i2 k(1) need] by blast
  have "boot_map_loop (kaddr P 0) va sz pa perm i s = Inr s'"
    using c w(1) r(1) by (subst boot_map_loop.simps) (simp add: region_va_def region_entry_def)
  moreover have "enter_region va pa perm [unat i..<unat sz] (vmap (kmem s) P) = vmap (kmem s') P"
    using lt(1) k(2) by (simp add: r(4) i1 upt_conv_Cons enter_region_def)
  moreover have "table_slots (kmem s') P = table_slots (kmem s) P \<union> region_slots va {unat i..<unat sz}"
    unfolding r(5) sl k(4) by auto
  moreover have "zs = drop (tables_needed (kmem s) P va {unat i..<unat sz}) xs"
  proof (cases "?d \<in> table_slots (kmem s) P")
    case False
    then have "0 < tables_needed (kmem s) P va {unat i..<unat sz}"
      using dR fin by (auto simp: tables_needed_def card_gt_0_iff)
    then show ?thesis using False r(6) tn w(6) by simp
  qed (use r(6) tn w(6) in simp)
  moreover have "table_pages s' P = table_pages s P \<union> set (take (tables_needed (kmem s) P va {unat i..<unat sz}) xs)"
  proof (cases "?d \<in> table_slots (kmem s) P")
    case True
    then show ?thesis using r(8) w(6,8) tn table_pages_same [OF s2] by simp
  next
    case False
    then have "0 < tables_needed (kmem s) P va {unat i..<unat sz}"
      using dR fin by (auto simp: tables_needed_def card_gt_0_iff)
    then obtain m where m: "tables_needed (kmem s) P va {unat i..<unat sz} = Suc m" using gr0_conv_Suc by blast
    obtain x zs where "xs = x # zs" using mem False by (cases xs) auto
    then show ?thesis using r(8) w(6,8) tn m False table_pages_same [OF s2] by auto
  qed
  ultimately show ?case using r(2) vm_step_trans [OF k(3) r(3)] dir_step_trans [OF k(5) r(7) k(3)] by auto
qed

text \<open>Where the addresses do not wrap around, the keys of a region are different.\<close>

lemma region_key_inj:
  assumes "unat va + 4096 * n \<le> 2 ^ 32" "i < n" "j < n" "key (region_va va i) = key (region_va va j)"
  shows "i = j"
proof -
  have u: "unat (region_va va j) = unat va + 4096 * j" if "j < n" for j
  proof -
    have "unat va + 4096 * j < 2 ^ 32" using assms(1) that by simp
    then have "unat va + 4096 * j = unat (word_of_nat (unat va + 4096 * j) :: u32)"
      by (rule unat_of_nat32 [symmetric])
    then show ?thesis by (simp add: region_va_def PGSIZE_def mult.commute)
  qed
  have "unat (PGNUM (region_va va i)) = unat (PGNUM (region_va va j))"
    using assms(4) by (simp add: key_def PGNUM_split)
  then have "(unat va + 4096 * i) div 4096 = (unat va + 4096 * j) div 4096"
    using u [OF assms(2)] u [OF assms(3)] by (simp add: unat_PGNUM)
  then show ?thesis by simp
qed

lemma enter_region_other:
  "(\<forall>j\<in>set js. k \<noteq> key (region_va va j)) \<Longrightarrow> enter_region va pa perm js V k = V k"
  by (induction js arbitrary: V) (auto simp: enter_region_def)

lemma enter_region_at:
  "j \<in> set js \<Longrightarrow> distinct js \<Longrightarrow> (\<forall>i\<in>set js. key (region_va va i) = key (region_va va j) \<longrightarrow> i = j) \<Longrightarrow>
    enter_region va pa perm js V (key (region_va va j)) = Some (region_entry pa perm j)"
proof (induction js arbitrary: V)
  case (Cons i js)
  show ?case
  proof (cases "j \<in> set js")
    case True
    then show ?thesis using Cons by (simp add: enter_region_def)
  next
    case False
    then have "i = j" "\<forall>i\<in>set js. key (region_va va j) \<noteq> key (region_va va i)" using Cons.prems by auto
    then show ?thesis using enter_region_other [of js "key (region_va va j)" va pa perm]
      by (simp add: enter_region_def)
  qed
qed simp

lemma boot_map_region_spec:
  assumes inv: "vm_inv s P xs ex" and nowrap: "unat va + 4096 * unat sz \<le> 2 ^ 32"
    and sz: "unat va + unat sz < 2 ^ 32"
    and above: "\<forall>j<unat sz. 955 \<le> unat (PDX (region_va va j)) \<and> unat (PDX (region_va va j)) \<noteq> self_slot"
    and mem: "tables_needed (kmem s) P va {..<unat sz} \<le> length xs"
  shows "\<exists>s' ys. boot_map_region (kaddr P 0) va sz pa perm s = Inr s' \<and> vm_inv s' P ys ex \<and> vm_step P s s' \<and>
    (\<forall>j<unat sz. vmap (kmem s') P (key (region_va va j)) = Some (region_entry pa perm j)) \<and>
    (\<forall>k. (\<forall>j<unat sz. k \<noteq> key (region_va va j)) \<longrightarrow> vmap (kmem s') P k = vmap (kmem s) P k) \<and>
    table_slots (kmem s') P = table_slots (kmem s) P \<union> region_slots va {..<unat sz} \<and>
    ys = drop (tables_needed (kmem s) P va {..<unat sz}) xs \<and> dir_step P s s' \<and>
    table_pages s' P = table_pages s P \<union> set (take (tables_needed (kmem s) P va {..<unat sz}) xs)"
proof -
  have "tables_needed (kmem s) P va {unat (0 :: u32)..<unat sz} \<le> length xs"
    using mem by (simp add: atLeast0LessThan)
  from boot_map_loop_correct [OF sz above refl _ inv this, where pa = pa and perm = perm] obtain s' ys where
    r: "boot_map_loop (kaddr P 0) va sz pa perm 0 s = Inr s'" "vm_inv s' P ys ex" "vm_step P s s'"
      "vmap (kmem s') P = enter_region va pa perm [0..<unat sz] (vmap (kmem s) P)"
      "table_slots (kmem s') P = table_slots (kmem s) P \<union> region_slots va {..<unat sz}"
      "ys = drop (tables_needed (kmem s) P va {..<unat sz}) xs" "dir_step P s s'"
      "table_pages s' P = table_pages s P \<union> set (take (tables_needed (kmem s) P va {..<unat sz}) xs)"
    by (simp only: unat_0 word_zero_le simp_thms atLeast0LessThan) blast
  have "vmap (kmem s') P (key (region_va va j)) = Some (region_entry pa perm j)" if "j < unat sz" for j
    unfolding r(4) using that region_key_inj [OF nowrap _ that] by (intro enter_region_at) auto
  moreover have "vmap (kmem s') P k = vmap (kmem s) P k" if "\<forall>j<unat sz. k \<noteq> key (region_va va j)" for k
    unfolding r(4) using that by (intro enter_region_other) auto
  ultimately show ?thesis using r(1-3,5-8) by (auto simp: boot_map_region_def)
qed

text \<open>No key of a region above \<open>UTOP\<close> counts as a reference.\<close>

lemma region_maps_to:
  assumes "\<forall>j<n. 955 \<le> unat (PDX (region_va va j))"
    and "\<forall>k. (\<forall>j<n. k \<noteq> key (region_va va j)) \<longrightarrow> V' k = V k"
  shows "maps_to V' q = maps_to V q"
proof -
  have "V' k = V k" if "k \<in> user_keys" for k
  proof -
    have "fst k < 955" using that by (cases k) (simp add: user_keys_iff)
    then have "\<forall>j<n. k \<noteq> key (region_va va j)" using assms(1) by (auto simp: key_def)
    then show ?thesis using assms(2) by blast
  qed
  then show ?thesis unfolding maps_to_def by (metis (lifting))
qed

text \<open>The counts after \<open>boot_map_region\<close>.\<close>

lemma boot_map_region_counts:
  assumes inv: "vm_inv s P xs ex" "vm_inv s' P ys ex" and step: "vm_step P s s'"
    and above: "\<forall>j<unat sz. 955 \<le> unat (PDX (region_va va j))"
    and same: "\<forall>k. (\<forall>j<unat sz. k \<noteq> key (region_va va j)) \<longrightarrow> vmap (kmem s') P k = vmap (kmem s) P k"
    and tabs: "table_pages s' P = table_pages s P \<union> set (take n xs)" and q: "q < unat (npages s)"
  shows "if q \<in> set (take n xs) then pp_ref (pages s ! q) = 0 \<and> pp_ref (pages s' ! q) = 1
    else pp_ref (pages s' ! q) = pp_ref (pages s ! q)"
  using new_table_counts [OF inv _ region_maps_to [OF above same] tabs set_take_subset q] step
  by (simp add: vm_step_def)

end
