(* ===== verification/Kern_Check.thy ===== *)
theory Kern_Check
  imports Boot_Map Vm_Map
begin

text \<open>
  The self-tests of kern/pmap.c and \<open>mem_init\<close>, which runs them. An \<open>assert\<close> that fails is a panic.
  The success messages are not modelled. The tests with the kernel's page directory installed go
  through the processor's address translation, modelled here with its translation cache.
\<close>

section \<open>check_page_free_list\<close>

text \<open>A loop over the free list; the body works on the state and an accumulator.\<close>

partial_function (option) for_list ::
  "(nat \<Rightarrow> 'a \<Rightarrow> kstate \<Rightarrow> ('a \<times> kstate) result) \<Rightarrow> nat option \<Rightarrow> 'a \<Rightarrow> kstate \<Rightarrow> ('a \<times> kstate) result option" where
  "for_list body p acc s =
     (case p of
        None \<Rightarrow> Some (Inr (acc, s))
      | Some pp \<Rightarrow>
          (case body pp acc s of
             Inl e \<Rightarrow> Some (Inl e)
           | Inr (acc, s) \<Rightarrow>
               (case get_page s pp of
                  Inl e \<Rightarrow> Some (Inl e)
                | Inr pi \<Rightarrow> for_list body (pp_link pi) acc s)))"

text \<open>
  The reordering: \<open>tp[0]\<close> and \<open>tp[1]\<close> point to the local variables \<open>pp1\<close> and \<open>pp2\<close> at first and then to the
  link field of the last page moved. A \<open>tail\<close> is such a pointer, \<open>None\<close> for the variable, with the
  value of the variable.
\<close>

type_synonym tail = "nat option \<times> nat option"

definition write_tail :: "tail \<Rightarrow> nat option \<Rightarrow> kstate \<Rightarrow> (nat option \<times> kstate) result" where
  "write_tail t v s =
     (case t of (None, var) \<Rightarrow> Inr (v, s)
      | (Some q, var) \<Rightarrow> bindR (get_page s q) (\<lambda>pi. Inr (var, set_page s q (pi\<lparr>pp_link := v\<rparr>))))"

definition split_body :: "u32 \<Rightarrow> nat \<Rightarrow> tail \<times> tail \<Rightarrow> kstate \<Rightarrow> ((tail \<times> tail) \<times> kstate) result" where
  "split_body pdx_limit pp = (\<lambda>(t0, t1) s.
     if PDX (page2pa pp) \<ge> pdx_limit
     then bindR (write_tail t1 (Some pp) s) (\<lambda>(pp2, s). Inr ((t0, (Some pp, pp2)), s))
     else bindR (write_tail t0 (Some pp) s) (\<lambda>(pp1, s). Inr (((Some pp, pp1), t1), s)))"

definition low_first :: "u32 \<Rightarrow> kstate \<Rightarrow> kstate result" where
  "low_first pdx_limit s =
     bindR (joinR (for_list (split_body pdx_limit) (page_free_list s) ((None, None), (None, None)) s)) (\<lambda>((t0, t1), s).
       bindR (write_tail t1 None s) (\<lambda>(pp2, s).
         bindR (write_tail t0 pp2 s) (\<lambda>(pp1, s). Inr (s\<lparr>page_free_list := pp1\<rparr>))))"

definition dirty_body :: "u32 \<Rightarrow> nat \<Rightarrow> unit \<Rightarrow> kstate \<Rightarrow> (unit \<times> kstate) result" where
  "dirty_body pdx_limit pp u s =
     (if PDX (page2pa pp) < pdx_limit
      then bindR (page2kva s pp) (\<lambda>va. Inr ((), s\<lparr>kmem := memset (kmem s) va 0x97 128\<rparr>))
      else Inr ((), s))"

text \<open>The tests that \<open>pp\<close> is not below \<open>pages\<close> and lies on an entry hold of every index.\<close>

definition test_body :: "u32 \<Rightarrow> nat \<Rightarrow> nat \<times> nat \<Rightarrow> kstate \<Rightarrow> ((nat \<times> nat) \<times> kstate) result" where
  "test_body first_free_page pp = (\<lambda>(nfree_basemem, nfree_extmem) s.
     assertR (pp < unat (npages s)) ''pp < pages + npages''
     (assertR (page2pa pp \<noteq> 0) ''page2pa(pp) != 0''
     (assertR (page2pa pp \<noteq> IOPHYSMEM) ''page2pa(pp) != IOPHYSMEM''
     (assertR (page2pa pp \<noteq> EXTPHYSMEM - PGSIZE) ''page2pa(pp) != EXTPHYSMEM - PGSIZE''
     (assertR (page2pa pp \<noteq> EXTPHYSMEM) ''page2pa(pp) != EXTPHYSMEM''
     (bindR (if page2pa pp < EXTPHYSMEM then Inr True
             else bindR (page2kva s pp) (\<lambda>va. Inr (va \<ge> first_free_page))) (\<lambda>ok.
      assertR ok ''page2pa(pp) < EXTPHYSMEM || (char * ) page2kva(pp) >= first_free_page''
        (Inr (if page2pa pp < EXTPHYSMEM then (nfree_basemem + 1, nfree_extmem)
              else (nfree_basemem, nfree_extmem + 1), s)))))))))"

definition check_page_free_list :: "u32 \<Rightarrow> bool \<Rightarrow> kstate \<Rightarrow> kstate result" where
  "check_page_free_list kend only_low_memory s =
     (let pdx_limit = (if only_low_memory then 1 else NPDENTRIES)
      in if page_free_list s = None then Inl (Panic ''page_free_list is a null pointer!'')
         else bindR (if only_low_memory then low_first pdx_limit s else Inr s) (\<lambda>s.
           bindR (joinR (for_list (dirty_body pdx_limit) (page_free_list s) () s)) (\<lambda>(_, s).
             bindR (boot_alloc kend 0 s) (\<lambda>(first_free_page, s).
               bindR (joinR (for_list (test_body first_free_page) (page_free_list s) (0, 0) s))
                 (\<lambda>((nfree_basemem, nfree_extmem), s).
                   assertR (nfree_basemem > 0) ''nfree_basemem > 0''
                   (assertR (nfree_extmem > 0) ''nfree_extmem > 0'' (Inr s)))))))"

section \<open>check_page_alloc\<close>

definition count_free :: "kstate \<Rightarrow> nat result" where
  "count_free s = bindR (joinR (for_list (\<lambda>pp n s. Inr (n + 1, s)) (page_free_list s) 0 s)) (\<lambda>(n, s). Inr n)"

text \<open>\<open>assert((pp = page_alloc(flags)))\<close>.\<close>

definition take_page :: "u32 \<Rightarrow> kstate \<Rightarrow> (nat \<times> kstate) result" where
  "take_page flags s =
     bindR (page_alloc flags s) (\<lambda>(p, s).
       case p of None \<Rightarrow> Inl (Panic ''assertion failed: page_alloc'') | Some pp \<Rightarrow> Inr (pp, s))"

text \<open>\<open>assert(!page_alloc(0))\<close>.\<close>

definition no_page :: "kstate \<Rightarrow> kstate result" where
  "no_page s = bindR (page_alloc 0 s) (\<lambda>(p, s). assertR (p = None) ''!page_alloc(0)'' (Inr s))"

text \<open>Three pages allocated, and the tests that they differ.\<close>

definition take_three :: "kstate \<Rightarrow> (nat \<times> nat \<times> nat \<times> kstate) result" where
  "take_three s =
     bindR (take_page 0 s) (\<lambda>(pp0, s).
       bindR (take_page 0 s) (\<lambda>(pp1, s).
         bindR (take_page 0 s) (\<lambda>(pp2, s).
           assertR (pp1 \<noteq> pp0) ''pp1 && pp1 != pp0''
           (assertR (pp2 \<noteq> pp1 \<and> pp2 \<noteq> pp0) ''pp2 && pp2 != pp1 && pp2 != pp0''
           (Inr (pp0, pp1, pp2, s))))))"

definition free_three :: "nat \<Rightarrow> nat \<Rightarrow> nat \<Rightarrow> kstate \<Rightarrow> kstate result" where
  "free_three pp0 pp1 pp2 s =
     bindR (page_free pp0 s) (\<lambda>s. bindR (page_free pp1 s) (\<lambda>s. page_free pp2 s))"

definition check_page_alloc :: "kstate \<Rightarrow> kstate result" where
  "check_page_alloc s =
     (if pages_va s = 0 then Inl (Panic ''pages is a null pointer!'') else
     bindR (count_free s) (\<lambda>nfree.
     bindR (take_three s) (\<lambda>(pp0, pp1, pp2, s).
     assertR (page2pa pp0 < npages s * PGSIZE) ''page2pa(pp0) < npages*PGSIZE''
     (assertR (page2pa pp1 < npages s * PGSIZE) ''page2pa(pp1) < npages*PGSIZE''
     (assertR (page2pa pp2 < npages s * PGSIZE) ''page2pa(pp2) < npages*PGSIZE''
     (let fl = page_free_list s; s = s\<lparr>page_free_list := None\<rparr> in
      bindR (no_page s) (\<lambda>s.
      bindR (free_three pp0 pp1 pp2 s) (\<lambda>s.
      bindR (take_three s) (\<lambda>(pp0, pp1, pp2, s).
      bindR (no_page s) (\<lambda>s.
      bindR (page2kva s pp0) (\<lambda>va.
      bindR (page_free pp0 (s\<lparr>kmem := memset (kmem s) va 1 PGSIZE\<rparr>)) (\<lambda>s.
      bindR (take_page ALLOC_ZERO s) (\<lambda>(pp, s).
      assertR (pp0 = pp) ''pp && pp0 == pp''
      (bindR (page2kva s pp) (\<lambda>c.
      assertR (\<forall>i<unat PGSIZE. kmem s (c + word_of_nat i) = 0) ''c[i] == 0''
      (let s = s\<lparr>page_free_list := fl\<rparr> in
       bindR (free_three pp0 pp1 pp2 s) (\<lambda>s.
       bindR (count_free s) (\<lambda>n.
       assertR (nfree = n) ''nfree == 0'' (Inr s)))))))))))))))))))"

section \<open>check_kern_pgdir\<close>

text \<open>\<open>for (i = 0; i < n; i += PGSIZE)\<close> with a test in the body.\<close>

partial_function (option) for_pages :: "(u32 \<Rightarrow> unit result) \<Rightarrow> u32 \<Rightarrow> u32 \<Rightarrow> unit result option" where
  "for_pages f i n =
     (if i < n
      then (case f i of Inl e \<Rightarrow> Some (Inl e) | Inr _ \<Rightarrow> for_pages f (i + PGSIZE) n)
      else Some (Inr ()))"

text \<open>\<open>assert(check_va2pa(pgdir, va) == pa)\<close>.\<close>

definition va2pa_is :: "u32 \<Rightarrow> u32 \<Rightarrow> kstate \<Rightarrow> unit result" where
  "va2pa_is va pa s =
     bindR (check_va2pa (kern_pgdir s) va s) (\<lambda>x. assertR (x = pa) ''check_va2pa(pgdir, va) == pa'' (Inr ()))"

definition check_pde :: "kstate \<Rightarrow> u32 \<Rightarrow> unit result" where
  "check_pde s i =
     (let pde = ld32 (kmem s) (kern_pgdir s + 4 * i)
      in if i = PDX UVPT \<or> i = PDX (KSTACKTOP - 1) \<or> i = PDX UPAGES
         then assertR (pde AND PTE_P \<noteq> 0) ''pgdir[i] & PTE_P'' (Inr ())
         else if i \<ge> PDX KERNBASE
         then assertR (pde AND PTE_P \<noteq> 0) ''pgdir[i] & PTE_P''
                (assertR (pde AND PTE_W \<noteq> 0) ''pgdir[i] & PTE_W'' (Inr ()))
         else assertR (pde = 0) ''pgdir[i] == 0'' (Inr ()))"

fun all_results :: "('a \<Rightarrow> unit result) \<Rightarrow> 'a list \<Rightarrow> unit result" where
  "all_results f [] = Inr ()"
| "all_results f (x # xs) = bindR (f x) (\<lambda>_. all_results f xs)"

definition page_info_size :: u32 where "page_info_size = 8"

definition check_kern_pgdir :: "u32 \<Rightarrow> kstate \<Rightarrow> unit result" where
  "check_kern_pgdir bootstack s =
     bindR (PADDR (pages_va s)) (\<lambda>pages_pa.
     bindR (joinR (for_pages (\<lambda>i. va2pa_is (UPAGES + i) (pages_pa + i) s) 0
       (ROUNDUP (npages s * page_info_size) PGSIZE))) (\<lambda>_.
     bindR (joinR (for_pages (\<lambda>i. va2pa_is (KERNBASE + i) i s) 0 (npages s * PGSIZE))) (\<lambda>_.
     bindR (PADDR bootstack) (\<lambda>stack_pa.
     bindR (joinR (for_pages (\<lambda>i. va2pa_is (KSTACKTOP - KSTKSIZE + i) (stack_pa + i) s) 0 KSTKSIZE)) (\<lambda>_.
     bindR (va2pa_is (KSTACKTOP - PTSIZE) (NOT 0) s) (\<lambda>_.
       all_results (check_pde s) (map word_of_nat [0..<unat NPDENTRIES])))))))"

section \<open>check_page\<close>

text \<open>The statements of \<open>check_page\<close>, each a step from a state to a state.\<close>

fun run_steps :: "(kstate \<Rightarrow> kstate result) list \<Rightarrow> kstate \<Rightarrow> kstate result" where
  "run_steps [] s = Inr s"
| "run_steps (f # fs) s = bindR (f s) (run_steps fs)"

definition lookup_null :: "u32 \<Rightarrow> kstate \<Rightarrow> kstate result" where
  "lookup_null va s =
     bindR (page_lookup (kern_pgdir s) va True s) (\<lambda>(p, _, s). assertR (p = None) ''page_lookup == NULL'' (Inr s))"

definition insert_ok :: "nat \<Rightarrow> u32 \<Rightarrow> u32 \<Rightarrow> kstate \<Rightarrow> kstate result" where
  "insert_ok pp va perm s =
     bindR (page_insert (kern_pgdir s) pp va perm s) (\<lambda>(r, s). assertR (r = 0) ''page_insert == 0'' (Inr s))"

definition insert_fails :: "nat \<Rightarrow> u32 \<Rightarrow> u32 \<Rightarrow> kstate \<Rightarrow> kstate result" where
  "insert_fails pp va perm s =
     bindR (page_insert (kern_pgdir s) pp va perm s) (\<lambda>(r, s). assertR (r < 0) ''page_insert < 0'' (Inr s))"

definition remove_at :: "u32 \<Rightarrow> kstate \<Rightarrow> kstate result" where
  "remove_at va s = page_remove (kern_pgdir s) va s"

definition maps_at :: "u32 \<Rightarrow> u32 \<Rightarrow> kstate \<Rightarrow> kstate result" where
  "maps_at va pa s = bindR (va2pa_is va pa s) (\<lambda>_. Inr s)"

definition ref_is :: "nat \<Rightarrow> u16 \<Rightarrow> kstate \<Rightarrow> kstate result" where
  "ref_is pp n s = bindR (get_page s pp) (\<lambda>pi. assertR (pp_ref pi = n) ''pp->pp_ref == n'' (Inr s))"

definition still_used :: "nat \<Rightarrow> kstate \<Rightarrow> kstate result" where
  "still_used pp s =
     bindR (get_page s pp) (\<lambda>pi. assertR (pp_ref pi \<noteq> 0) ''pp1->pp_ref''
       (assertR (pp_link pi = None) ''pp1->pp_link == NULL'' (Inr s)))"

definition alloc_is :: "nat \<Rightarrow> kstate \<Rightarrow> kstate result" where
  "alloc_is pp s = bindR (take_page 0 s) (\<lambda>(p, s). assertR (p = pp) ''(pp = page_alloc(0)) && pp == ...'' (Inr s))"

definition pde_at :: "u32 \<Rightarrow> kstate \<Rightarrow> u32" where
  "pde_at i s = ld32 (kmem s) (kern_pgdir s + 4 * i)"

definition pde_is :: "u32 \<Rightarrow> nat \<Rightarrow> kstate \<Rightarrow> kstate result" where
  "pde_is i pp s = assertR (PTE_ADDR (pde_at i s) = page2pa pp) ''PTE_ADDR(kern_pgdir[0]) == page2pa(pp0)'' (Inr s)"

definition pde_has :: "u32 \<Rightarrow> u32 \<Rightarrow> kstate \<Rightarrow> kstate result" where
  "pde_has i flag s = assertR (pde_at i s AND flag \<noteq> 0) ''kern_pgdir[0] & PTE_U'' (Inr s)"

definition clear_pde :: "u32 \<Rightarrow> kstate \<Rightarrow> kstate result" where
  "clear_pde i s = Inr (s\<lparr>kmem := st32 (kmem s) (kern_pgdir s + 4 * i) 0\<rparr>)"

definition set_ref :: "nat \<Rightarrow> u16 \<Rightarrow> kstate \<Rightarrow> kstate result" where
  "set_ref pp n s = bindR (get_page s pp) (\<lambda>pi. Inr (set_page s pp (pi\<lparr>pp_ref := n\<rparr>)))"

definition pte_test :: "u32 \<Rightarrow> (u32 \<Rightarrow> bool) \<Rightarrow> kstate \<Rightarrow> kstate result" where
  "pte_test va ok s =
     bindR (pgdir_walk (kern_pgdir s) va False s) (\<lambda>(p, s).
       case p of None \<Rightarrow> Inl NullDeref
       | Some p \<Rightarrow> assertR (ok (ld32 (kmem s) p)) ''*pgdir_walk & flag'' (Inr s))"

definition walk_is :: "u32 \<Rightarrow> bool \<Rightarrow> kstate \<Rightarrow> kstate result" where
  "walk_is va create s =
     bindR (pgdir_walk (kern_pgdir s) va create s) (\<lambda>(ptep, s).
       bindR (KADDR s (PTE_ADDR (pde_at (PDX va) s))) (\<lambda>ptep1.
         assertR (ptep = Some (ptep1 + 4 * PTX va)) ''ptep == ptep1 + PTX(va)'' (Inr s)))"

definition fill_page :: "nat \<Rightarrow> u32 \<Rightarrow> kstate \<Rightarrow> kstate result" where
  "fill_page pp c s = bindR (page2kva s pp) (\<lambda>va. Inr (s\<lparr>kmem := memset (kmem s) va c PGSIZE\<rparr>))"

definition walk_create :: "u32 \<Rightarrow> kstate \<Rightarrow> kstate result" where
  "walk_create va s = bindR (pgdir_walk (kern_pgdir s) va True s) (\<lambda>(_, s). Inr s)"

definition table_empty :: "nat \<Rightarrow> kstate \<Rightarrow> kstate result" where
  "table_empty pp s =
     bindR (page2kva s pp) (\<lambda>ptep.
       assertR (\<forall>i<unat NPTENTRIES. ld32 (kmem s) (ptep + 4 * word_of_nat i) AND PTE_P = 0)
         ''(ptep[i] & PTE_P) == 0'' (Inr s))"

definition restore_list :: "nat option \<Rightarrow> kstate \<Rightarrow> kstate result" where
  "restore_list fl s = Inr (s\<lparr>page_free_list := fl\<rparr>)"

definition check_page_steps :: "nat \<Rightarrow> nat \<Rightarrow> nat \<Rightarrow> nat option \<Rightarrow> (kstate \<Rightarrow> kstate result) list" where
  "check_page_steps pp0 pp1 pp2 fl =
     [restore_list None, no_page, lookup_null 0, insert_fails pp1 0 PTE_W,
      page_free pp0, insert_ok pp1 0 PTE_W, pde_is 0 pp0, maps_at 0 (page2pa pp1), ref_is pp1 1, ref_is pp0 1,
      insert_ok pp2 PGSIZE PTE_W, maps_at PGSIZE (page2pa pp2), ref_is pp2 1, no_page,
      insert_ok pp2 PGSIZE PTE_W, maps_at PGSIZE (page2pa pp2), ref_is pp2 1, no_page,
      walk_is PGSIZE False,
      insert_ok pp2 PGSIZE (PTE_W OR PTE_U), maps_at PGSIZE (page2pa pp2), ref_is pp2 1,
      pte_test PGSIZE (\<lambda>e. e AND PTE_U \<noteq> 0), pde_has 0 PTE_U,
      insert_ok pp2 PGSIZE PTE_W, pte_test PGSIZE (\<lambda>e. e AND PTE_W \<noteq> 0), pte_test PGSIZE (\<lambda>e. e AND PTE_U = 0),
      insert_fails pp0 PTSIZE PTE_W,
      insert_ok pp1 PGSIZE PTE_W, pte_test PGSIZE (\<lambda>e. e AND PTE_U = 0),
      maps_at 0 (page2pa pp1), maps_at PGSIZE (page2pa pp1), ref_is pp1 2, ref_is pp2 0,
      alloc_is pp2,
      remove_at 0, maps_at 0 (NOT 0), maps_at PGSIZE (page2pa pp1), ref_is pp1 1, ref_is pp2 0,
      insert_ok pp1 PGSIZE 0, still_used pp1,
      remove_at PGSIZE, maps_at 0 (NOT 0), maps_at PGSIZE (NOT 0), ref_is pp1 0, ref_is pp2 0,
      alloc_is pp1, no_page,
      pde_is 0 pp0, clear_pde 0, ref_is pp0 1, set_ref pp0 0,
      page_free pp0, walk_is (PGSIZE * NPDENTRIES + PGSIZE) True, clear_pde (PDX (PGSIZE * NPDENTRIES + PGSIZE)),
      set_ref pp0 0,
      fill_page pp0 0xFF, page_free pp0, walk_create 0, table_empty pp0, clear_pde 0, set_ref pp0 0,
      restore_list fl, free_three pp0 pp1 pp2]"

definition check_page :: "kstate \<Rightarrow> kstate result" where
  "check_page s =
     bindR (take_three s) (\<lambda>(pp0, pp1, pp2, s).
       run_steps (check_page_steps pp0 pp1 pp2 (page_free_list s)) s)"

section \<open>The processor's translation\<close>

text \<open>
  An access to a virtual address: the entry comes from the translation cache or from the tables
  that \<open>cr3\<close> points to, with the permissions of the directory's and of the table's entry, and is cached;
  there is a page fault where there is none, and where a write goes to a page that is not writable.
\<close>

definition mmu_entry :: "u32 \<Rightarrow> kstate \<Rightarrow> (u32 \<times> kstate) result" where
  "mmu_entry va s =
     (case tlb s (PGNUM va) of
        Some e \<Rightarrow> Inr (e, s)
      | None \<Rightarrow>
          let pde = ld32 (kmem s) (KERNBASE + PTE_ADDR (cr3 s) + 4 * PDX va);
              pte = ld32 (kmem s) (KERNBASE + PTE_ADDR pde + 4 * PTX va)
          in if pde AND PTE_P = 0 \<or> pte AND PTE_P = 0 then Inl WildPtr
             else Inr (both_permit pde pte, s\<lparr>tlb := (tlb s)(PGNUM va := Some (both_permit pde pte))\<rparr>))"

definition vm_read :: "u32 \<Rightarrow> kstate \<Rightarrow> (u32 \<times> kstate) result" where
  "vm_read va s =
     bindR (mmu_entry va s) (\<lambda>(e, s). Inr (ld32 (kmem s) (KERNBASE + PTE_ADDR e + PGOFF va), s))"

definition vm_write :: "u32 \<Rightarrow> u32 \<Rightarrow> kstate \<Rightarrow> kstate result" where
  "vm_write va v s =
     bindR (mmu_entry va s) (\<lambda>(e, s).
       if e AND PTE_W = 0 then Inl WildPtr
       else Inr (s\<lparr>kmem := st32 (kmem s) (KERNBASE + PTE_ADDR e + PGOFF va) v\<rparr>))"

text \<open>Loading \<open>cr3\<close> empties the translation cache.\<close>

definition lcr3 :: "u32 \<Rightarrow> kstate \<Rightarrow> kstate" where
  "lcr3 v s = s\<lparr>cr3 := v, tlb := (\<lambda>_. None)\<rparr>"

section \<open>check_page_installed_pgdir\<close>

definition insert_any :: "nat \<Rightarrow> u32 \<Rightarrow> u32 \<Rightarrow> kstate \<Rightarrow> kstate result" where
  "insert_any pp va perm s = bindR (page_insert (kern_pgdir s) pp va perm s) (\<lambda>(_, s). Inr s)"

definition reads_word :: "u32 \<Rightarrow> u32 \<Rightarrow> kstate \<Rightarrow> kstate result" where
  "reads_word va v s = bindR (vm_read va s) (\<lambda>(x, s). assertR (x = v) ''*(uint32_t * )PGSIZE == v'' (Inr s))"

definition page_word_is :: "nat \<Rightarrow> u32 \<Rightarrow> kstate \<Rightarrow> kstate result" where
  "page_word_is pp v s =
     bindR (page2kva s pp) (\<lambda>va. assertR (ld32 (kmem s) va = v) ''*(uint32_t * )page2kva(pp2) == v'' (Inr s))"

definition installed_steps :: "nat \<Rightarrow> nat \<Rightarrow> nat \<Rightarrow> (kstate \<Rightarrow> kstate result) list" where
  "installed_steps pp0 pp1 pp2 =
     [page_free pp0, fill_page pp1 1, fill_page pp2 2,
      insert_any pp1 PGSIZE PTE_W, ref_is pp1 1, reads_word PGSIZE 0x01010101,
      insert_any pp2 PGSIZE PTE_W, reads_word PGSIZE 0x02020202, ref_is pp2 1, ref_is pp1 0,
      vm_write PGSIZE 0x03030303, page_word_is pp2 0x03030303,
      remove_at PGSIZE, ref_is pp2 0,
      pde_is 0 pp0, clear_pde 0, ref_is pp0 1, set_ref pp0 0, page_free pp0]"

definition check_page_installed_pgdir :: "kstate \<Rightarrow> kstate result" where
  "check_page_installed_pgdir s =
     bindR (take_page 0 s) (\<lambda>(pp0, s).
     bindR (take_page 0 s) (\<lambda>(pp1, s).
     bindR (take_page 0 s) (\<lambda>(pp2, s). run_steps (installed_steps pp0 pp1 pp2) s)))"

section \<open>mem_init\<close>

definition CR0_PE :: u32 where [jos_consts]: "CR0_PE = 0x1"
definition CR0_MP :: u32 where [jos_consts]: "CR0_MP = 0x2"
definition CR0_EM :: u32 where [jos_consts]: "CR0_EM = 0x4"
definition CR0_TS :: u32 where [jos_consts]: "CR0_TS = 0x8"
definition CR0_NE :: u32 where [jos_consts]: "CR0_NE = 0x20"
definition CR0_WP :: u32 where [jos_consts]: "CR0_WP = 0x10000"
definition CR0_AM :: u32 where [jos_consts]: "CR0_AM = 0x40000"
definition CR0_PG :: u32 where [jos_consts]: "CR0_PG = 0x80000000"

text \<open>The directory with itself in it, and the array \<open>pages\<close>.\<close>

definition make_pgdir :: "u32 \<Rightarrow> kstate \<Rightarrow> kstate result" where
  "make_pgdir kend s =
     bindR (boot_alloc kend PGSIZE s) (\<lambda>(va, s).
       let s = s\<lparr>kern_pgdir := va, kmem := memset (kmem s) va 0 PGSIZE\<rparr>
       in bindR (PADDR (kern_pgdir s)) (\<lambda>pa.
            Inr (s\<lparr>kmem := st32 (kmem s) (kern_pgdir s + 4 * PDX UVPT) (pa OR PTE_U OR PTE_P)\<rparr>)))"

definition make_pages :: "u32 \<Rightarrow> kstate \<Rightarrow> kstate result" where
  "make_pages kend s =
     bindR (boot_alloc kend (npages s * page_info_size) s) (\<lambda>(va, s).
       Inr (s\<lparr>pages_va := va, pages := replicate (unat (npages s)) \<lparr>pp_link = None, pp_ref = 0\<rparr>,
              kmem := memset (kmem s) va 0 (npages s * page_info_size)\<rparr>))"

text \<open>The three regions of the kernel part of the address space.\<close>

definition map_kernel :: "u32 \<Rightarrow> kstate \<Rightarrow> kstate result" where
  "map_kernel bootstack s =
     bindR (PADDR (pages_va s)) (\<lambda>pages_pa.
     bindR (boot_map_region (kern_pgdir s) UPAGES (ROUNDUP (npages s * page_info_size) PGSIZE div PGSIZE)
              pages_pa (PTE_U OR PTE_P) s) (\<lambda>s.
     bindR (PADDR bootstack) (\<lambda>stack_pa.
     bindR (boot_map_region (kern_pgdir s) (KSTACKTOP - KSTKSIZE) KSTKSIZE stack_pa (PTE_W OR PTE_P) s) (\<lambda>s.
       boot_map_region (kern_pgdir s) KERNBASE (0x10000000 div PGSIZE) 0 (PTE_W OR PTE_P) s))))"

text \<open>Reading and writing the control register \<open>cr0\<close> (inc/x86.h).\<close>

definition rcr0 :: "kstate \<Rightarrow> u32" where "rcr0 s = cr0 s"

definition lcr0 :: "u32 \<Rightarrow> kstate \<Rightarrow> kstate" where "lcr0 v s = s\<lparr>cr0 := v\<rparr>"

definition set_cr0 :: "kstate \<Rightarrow> kstate" where
  "set_cr0 s =
     (let c = rcr0 s;
          c = c OR (CR0_PE OR CR0_PG OR CR0_AM OR CR0_WP OR CR0_NE OR CR0_MP);
          c = c AND NOT (CR0_TS OR CR0_EM)
      in lcr0 c s)"

definition mem_init :: "u32 \<Rightarrow> u32 \<Rightarrow> (u8 \<Rightarrow> u8) \<Rightarrow> kstate \<Rightarrow> kstate result" where
  "mem_init kend bootstack cmos s =
     bindR (make_pgdir kend (i386_detect_memory cmos s)) (\<lambda>s.
     bindR (make_pages kend s) (\<lambda>s.
     bindR (joinR (page_init kend s)) (\<lambda>s.
     bindR (check_page_free_list kend True s) (\<lambda>s.
     bindR (check_page_alloc s) (\<lambda>s.
     bindR (check_page s) (\<lambda>s.
     bindR (map_kernel bootstack s) (\<lambda>s.
     bindR (check_kern_pgdir bootstack s) (\<lambda>_.
     bindR (PADDR (kern_pgdir s)) (\<lambda>pa.
     bindR (check_page_free_list kend False (lcr3 pa s)) (\<lambda>s.
       check_page_installed_pgdir (set_cr0 s)))))))))))"

end
