(* ===== verification/Word_Machine.thy ===== *)
theory Word_Machine
  imports Kern_Check
begin

text \<open>
  An abstract machine for the self-tests of the page tables. Its state is what those tests can observe
  of a \<open>kstate\<close>: the free list, the \<open>PageInfo\<close> of every page, the words of physical memory by page and
  index, and the translation cache. Its operations are the ones of kern/pmap.c with pointers
  replaced by page numbers and indices; they are partial, and undefined where the C code would end
  in a fault. Each is simulated by the operation of the model, so that a run of the abstract machine
  is a run of the kernel.
\<close>

section \<open>States\<close>

record wmachine =
  wfree :: "nat option"
  winfo :: "nat \<Rightarrow> page_info"
  wword :: "nat \<Rightarrow> nat \<Rightarrow> u32"
  wtlb :: "u32 \<Rightarrow> u32 option"

text \<open>
  The kernel state \<open>s\<close>, a variant of \<open>s0\<close>, looks like \<open>w\<close>. The page directory is in page \<open>P\<close>.
\<close>

definition same_machine :: "kstate \<Rightarrow> kstate \<Rightarrow> bool" where
  "same_machine s0 s \<longleftrightarrow> npages s = npages s0 \<and> npages_basemem s = npages_basemem s0 \<and> kern_pgdir s = kern_pgdir s0 \<and>
     pages_va s = pages_va s0 \<and> nextfree s = nextfree s0 \<and> cr0 s = cr0 s0 \<and> cr3 s = cr3 s0"

definition rep :: "kstate \<Rightarrow> nat \<Rightarrow> kstate \<Rightarrow> wmachine \<Rightarrow> bool" where
  "rep s0 P s w \<longleftrightarrow>
     same_machine s0 s \<and> page_free_list s = wfree w \<and> tlb s = wtlb w \<and>
     kern_pgdir s0 = kaddr P 0 \<and> P < unat (npages s0) \<and> npages s0 \<le> 0x10000 \<and>
     length (pages s) = unat (npages s0) \<and>
     (\<forall>q<unat (npages s0). pages s ! q = winfo w q) \<and>
     (\<forall>q<65536. \<forall>i<1024. pword (kmem s) q i = wword w q i)"

abbreviation set_word :: "nat \<Rightarrow> nat \<Rightarrow> u32 \<Rightarrow> wmachine \<Rightarrow> wmachine" where
  "set_word q i v w \<equiv> w\<lparr>wword := (wword w)(q := (wword w q)(i := v))\<rparr>"

abbreviation set_info :: "nat \<Rightarrow> page_info \<Rightarrow> wmachine \<Rightarrow> wmachine" where
  "set_info q v w \<equiv> w\<lparr>winfo := (winfo w)(q := v)\<rparr>"

lemma repD:
  assumes "rep s0 P s w"
  shows "kern_pgdir s = kaddr P 0" "npages s = npages s0" "page_free_list s = wfree w" "tlb s = wtlb w" "cr3 s = cr3 s0"
    "P < unat (npages s0)" "P < 65536" "npages s0 \<le> 0x10000" "length (pages s) = unat (npages s0)"
    "q < unat (npages s0) \<Longrightarrow> pages s ! q = winfo w q" "q < unat (npages s0) \<Longrightarrow> q < 65536"
    "q < 65536 \<Longrightarrow> i < 1024 \<Longrightarrow> pword (kmem s) q i = wword w q i"
proof -
  show "kern_pgdir s = kaddr P 0" "npages s = npages s0" "page_free_list s = wfree w" "tlb s = wtlb w" "cr3 s = cr3 s0"
    "P < unat (npages s0)" "npages s0 \<le> 0x10000" "length (pages s) = unat (npages s0)"
    "q < unat (npages s0) \<Longrightarrow> pages s ! q = winfo w q" "q < 65536 \<Longrightarrow> i < 1024 \<Longrightarrow> pword (kmem s) q i = wword w q i"
    using assms by (simp_all add: rep_def same_machine_def)
  then show "P < 65536" "q < unat (npages s0) \<Longrightarrow> q < 65536" by (simp_all add: word_le_nat_alt)
qed

lemma same_machine_update:
  "same_machine s0 s \<Longrightarrow> s = s0\<lparr>pages := pages s, page_free_list := page_free_list s, kmem := kmem s, tlb := tlb s\<rparr>"
  by (simp add: same_machine_def)

text \<open>The changes of a state.\<close>

lemma rep_free: "rep s0 P s w \<Longrightarrow> rep s0 P (s\<lparr>page_free_list := l\<rparr>) (w\<lparr>wfree := l\<rparr>)"
  by (simp add: rep_def same_machine_def)

lemma rep_tlb: "rep s0 P s w \<Longrightarrow> rep s0 P (s\<lparr>tlb := l\<rparr>) (w\<lparr>wtlb := l\<rparr>)"
  by (simp add: rep_def same_machine_def)

lemma rep_info: "rep s0 P s w \<Longrightarrow> rep s0 P (s\<lparr>pages := (pages s)[q := v]\<rparr>) (set_info q v w)"
  by (simp add: rep_def same_machine_def nth_list_update)

lemma rep_mem:
  "rep s0 P s w \<Longrightarrow> (\<And>q i. q < 65536 \<Longrightarrow> i < 1024 \<Longrightarrow> pword m q i = M q i) \<Longrightarrow>
    rep s0 P (s\<lparr>kmem := m\<rparr>) (w\<lparr>wword := M\<rparr>)"
  by (simp add: rep_def same_machine_def)

lemma rep_store:
  "rep s0 P s w \<Longrightarrow> q < 65536 \<Longrightarrow> i < 1024 \<Longrightarrow> rep s0 P (s\<lparr>kmem := st32 (kmem s) (kaddr q i) v\<rparr>) (set_word q i v w)"
  by (rule rep_mem) (auto simp: pword_simps repD(12))

definition fill_word :: "u32 \<Rightarrow> u32" where
  "fill_word c = ld32 (\<lambda>_. ucast c) 0"

lemma pword_memset_fill:
  assumes "q < 65536" "i < 1024"
  shows "pword (memset m (kaddr q 0) c PGSIZE) q i = fill_word c"
proof -
  have "memset m (kaddr q 0) c PGSIZE (kaddr q i + word_of_nat k) = ucast c" if "k < 4" for k
    using unat_page_offset [OF assms(1,2,1) that] by (simp add: memset_apply PGSIZE_def)
  then have "pword (memset m (kaddr q 0) c PGSIZE) q i = ld32 (\<lambda>_. ucast c) (kaddr q i)"
    unfolding pword_def by (intro ld32_cong4) simp
  then show ?thesis by (simp add: ld32_def fill_word_def)
qed

lemma PGSIZE_le: "unat PGSIZE \<le> 4096"
  by (simp add: PGSIZE_def)

lemma rep_fill:
  "rep s0 P s w \<Longrightarrow> q < 65536 \<Longrightarrow>
    rep s0 P (s\<lparr>kmem := memset (kmem s) (kaddr q 0) c PGSIZE\<rparr>) (w\<lparr>wword := (wword w)(q := \<lambda>_. fill_word c)\<rparr>)"
  by (rule rep_mem) (auto simp: pword_memset_fill pword_memset_other PGSIZE_le repD(12))

section \<open>Operations\<close>

text \<open>The entries the kernel makes: for a page table and for a page.\<close>

definition table_entry :: "nat \<Rightarrow> u32" where
  "table_entry x = page2pa x OR PTE_P OR PTE_W OR PTE_U"

definition page_entry :: "nat \<Rightarrow> u32 \<Rightarrow> u32" where
  "page_entry x perm = page2pa x OR perm OR PTE_P"

definition w_alloc :: "nat \<Rightarrow> bool \<Rightarrow> wmachine \<Rightarrow> (nat option \<times> wmachine) option" where
  "w_alloc N zero w =
     (case wfree w of
        None \<Rightarrow> Some (None, w)
      | Some x \<Rightarrow>
          if x < N
          then let w1 = set_info x ((winfo w x)\<lparr>pp_link := None\<rparr>) (w\<lparr>wfree := pp_link (winfo w x)\<rparr>)
               in Some (Some x, if zero then w1\<lparr>wword := (wword w1)(x := \<lambda>_. 0)\<rparr> else w1)
          else None)"

definition w_free :: "nat \<Rightarrow> nat \<Rightarrow> wmachine \<Rightarrow> wmachine option" where
  "w_free N x w =
     (if x < N \<and> pp_ref (winfo w x) = 0 \<and> pp_link (winfo w x) = None
      then Some (set_info x ((winfo w x)\<lparr>pp_link := wfree w\<rparr>) (w\<lparr>wfree := Some x\<rparr>)) else None)"

definition w_decref :: "nat \<Rightarrow> nat \<Rightarrow> wmachine \<Rightarrow> wmachine option" where
  "w_decref N x w =
     (if x < N
      then let r = pp_ref (winfo w x) - 1; w1 = set_info x ((winfo w x)\<lparr>pp_ref := r\<rparr>) w
           in if r = 0 then w_free N x w1 else Some w1
      else None)"

definition w_walk :: "nat \<Rightarrow> nat \<Rightarrow> u32 \<Rightarrow> bool \<Rightarrow> wmachine \<Rightarrow> ((nat \<times> nat) option \<times> wmachine) option" where
  "w_walk N P va create w =
     (let e = wword w P (fst (key va))
      in if present e then (if pte_page e < N then Some (Some (pte_page e, snd (key va)), w) else None)
         else if \<not> create then Some (None, w)
         else case w_alloc N True w of
             None \<Rightarrow> None
           | Some (None, w) \<Rightarrow> Some (None, w)
           | Some (Some x, w) \<Rightarrow>
               Some (Some (x, snd (key va)), set_word P (fst (key va)) (table_entry x)
                 (set_info x \<lparr>pp_link = None, pp_ref = pp_ref (winfo w x) + 1\<rparr> w)))"

definition w_remove :: "nat \<Rightarrow> nat \<Rightarrow> u32 \<Rightarrow> wmachine \<Rightarrow> wmachine option" where
  "w_remove N P va w =
     (case w_walk N P va False w of
        None \<Rightarrow> None
      | Some (None, w) \<Rightarrow> Some w
      | Some (Some (T, i), w) \<Rightarrow>
          let e = wword w T i
          in if \<not> present e then Some w
             else if pte_page e < N
             then map_option (\<lambda>w. (set_word T i 0 w)\<lparr>wtlb := (wtlb w)(PGNUM va := None)\<rparr>) (w_decref N (pte_page e) w)
             else None)"

definition w_insert :: "nat \<Rightarrow> nat \<Rightarrow> nat \<Rightarrow> u32 \<Rightarrow> u32 \<Rightarrow> wmachine \<Rightarrow> (int \<times> wmachine) option" where
  "w_insert N P pp va perm w =
     (case w_walk N P va True w of
        None \<Rightarrow> None
      | Some (None, w) \<Rightarrow> Some (- E_NO_MEM, w)
      | Some (Some (T, i), w) \<Rightarrow>
          if pp < N
          then let w = set_info pp ((winfo w pp)\<lparr>pp_ref := pp_ref (winfo w pp) + 1\<rparr>) w
               in map_option (\<lambda>w. (0, set_word T i (page_entry pp perm) w))
                    (if present (wword w T i) then w_remove N P va w else Some w)
          else None)"

definition w_va2pa :: "nat \<Rightarrow> nat \<Rightarrow> u32 \<Rightarrow> wmachine \<Rightarrow> u32 option" where
  "w_va2pa N P va w =
     (let e = wword w P (fst (key va))
      in if \<not> present e then Some (NOT 0)
         else if pte_page e < N
         then let p = wword w (pte_page e) (snd (key va)) in Some (if present p then PTE_ADDR p else NOT 0)
         else None)"

section \<open>The kernel simulates the machine\<close>

lemma key_less: "fst (key va) < 1024" "snd (key va) < 1024"
  by (simp_all add: key_def PDX_less PTX_less)

lemma w_alloc_sim:
  assumes r: "rep s0 P s w" and a: "w_alloc (unat (npages s0)) (flags AND ALLOC_ZERO \<noteq> 0) w = Some (x, w')"
  shows "\<exists>s'. page_alloc flags s = Inr (x, s') \<and> rep s0 P s' w' \<and> (\<forall>y. x = Some y \<longrightarrow> y < unat (npages s0))"
proof (cases "wfree w")
  case None
  then show ?thesis using a r by (auto simp: w_alloc_def page_alloc_def repD(3) [OF r])
next
  case (Some y)
  then have y: "y < unat (npages s0)" "x = Some y" using a by (auto simp: w_alloc_def Let_def split: if_splits)
  note d = repD [OF r]
  let ?l = "pp_link (pages s ! y)" and ?v = "(pages s ! y)\<lparr>pp_link := None\<rparr>"
  let ?s1 = "s\<lparr>page_free_list := ?l, pages := (pages s)[y := ?v]\<rparr>"
  let ?w1 = "set_info y ?v (w\<lparr>wfree := ?l\<rparr>)"
  have r1: "rep s0 P ?s1 ?w1" using rep_info [OF rep_free [OF r, of ?l], of y ?v] by simp
  have k: "page2kva ?s1 y = Inr (kaddr y 0)" using y(1) d(2,8) by (intro page2kva_ok) simp_all
  show ?thesis
  proof (cases "flags AND ALLOC_ZERO = 0")
    case True
    then have "w' = ?w1" using a Some y d(10) [OF y(1)] by (simp add: w_alloc_def)
    moreover have "page_alloc flags s = Inr (Some y, ?s1)"
      using True Some y(1) d(3,9) by (simp add: page_alloc_def get_page_def set_page_def)
    ultimately show ?thesis using r1 y by blast
  next
    case False
    have z: "fill_word 0 = 0" by (simp add: fill_word_def ld32_def)
    have "w' = ?w1\<lparr>wword := (wword ?w1)(y := \<lambda>_. 0)\<rparr>" using False a Some y d(10) [OF y(1)] by (simp add: w_alloc_def Let_def)
    moreover have "page_alloc flags s = Inr (Some y, ?s1\<lparr>kmem := memset (kmem ?s1) (kaddr y 0) 0 PGSIZE\<rparr>)"
      using False Some y(1) d(3,9) k by (simp add: page_alloc_def get_page_def set_page_def Let_def)
    ultimately show ?thesis using rep_fill [OF r1 d(11) [OF y(1)], of 0] y unfolding z by blast
  qed
qed

lemma w_free_sim:
  assumes r: "rep s0 P s w" and a: "w_free (unat (npages s0)) x w = Some w'"
  shows "\<exists>s'. page_free x s = Inr s' \<and> rep s0 P s' w'"
proof -
  note d = repD [OF r]
  have x: "x < unat (npages s0)" "pp_ref (winfo w x) = 0" "pp_link (winfo w x) = None"
    "w' = set_info x ((winfo w x)\<lparr>pp_link := wfree w\<rparr>) (w\<lparr>wfree := Some x\<rparr>)"
    using a by (simp_all add: w_free_def split: if_splits)
  then have "page_free x s = Inr (s\<lparr>page_free_list := Some x, pages := (pages s)[x := (winfo w x)\<lparr>pp_link := wfree w\<rparr>]\<rparr>)"
    using d(3,9) d(10) [OF x(1)] by (simp add: page_free_def get_page_def set_page_def)
  then show ?thesis using rep_info [OF rep_free [OF r, of "Some x"], of x "(winfo w x)\<lparr>pp_link := wfree w\<rparr>"] x(4) by simp
qed

lemma w_decref_sim:
  assumes r: "rep s0 P s w" and a: "w_decref (unat (npages s0)) x w = Some w'"
  shows "\<exists>s'. page_decref x s = Inr s' \<and> rep s0 P s' w'"
proof -
  note d = repD [OF r]
  have x: "x < unat (npages s0)" using a by (simp add: w_decref_def split: if_splits)
  let ?v = "(winfo w x)\<lparr>pp_ref := pp_ref (winfo w x) - 1\<rparr>"
  have r1: "rep s0 P (s\<lparr>pages := (pages s)[x := ?v]\<rparr>) (set_info x ?v w)" using r by (rule rep_info)
  show ?thesis
    using a x d(9) d(10) [OF x] r1 w_free_sim [OF r1, of x]
    by (auto simp: w_decref_def page_decref_def get_page_def set_page_def Let_def split: if_splits)
qed

lemma read_pde: "rep s0 P s w \<Longrightarrow> ld32 (kmem s) (kern_pgdir s + 4 * PDX va) = wword w P (fst (key va))"
  using repD(12) [of s0 P s w P "unat (PDX va)"] by (simp add: repD(1,7) ld_pde key_def PDX_less)

lemma w_KADDR: "rep s0 P s w \<Longrightarrow> pte_page e < unat (npages s0) \<Longrightarrow> KADDR s (PTE_ADDR e) = Inr (PTE_ADDR e + KERNBASE)"
  by (simp add: KADDR_entry repD(2))

lemma kaddr_key: "PTE_ADDR e + KERNBASE + 4 * PTX va = kaddr (pte_page e) (snd (key va))"
  by (simp add: kaddr_entry key_def)

lemma w_walk_sim:
  assumes r: "rep s0 P s w" and a: "w_walk (unat (npages s0)) P va create w = Some (x, w')"
  shows "\<exists>s'. pgdir_walk (kern_pgdir s) va create s = Inr (map_option (\<lambda>(q, i). kaddr q i) x, s') \<and> rep s0 P s' w' \<and>
    (\<forall>T i. x = Some (T, i) \<longrightarrow> T < unat (npages s0) \<and> i = snd (key va) \<and>
       present (wword w' P (fst (key va))) \<and> pte_page (wword w' P (fst (key va))) = T)"
proof -
  note d = repD [OF r]
  let ?d = "fst (key va)" and ?i = "snd (key va)" and ?a = "kern_pgdir s + 4 * PDX va"
  have e: "ld32 (kmem s) ?a = wword w P ?d" by (rule read_pde [OF r])
  have ad: "?a = kaddr P ?d" by (simp add: d(1) kaddr_index key_def)
  consider "present (wword w P ?d)" | "\<not> present (wword w P ?d)" "\<not> create \<or> wfree w = None"
    | y where "\<not> present (wword w P ?d)" "create" "wfree w = Some y" by (cases "wfree w") blast+
  then show ?thesis
  proof cases
    case 1
    then show ?thesis using a r e w_KADDR [OF r]
      by (auto simp: kaddr_key w_walk_def Let_def pgdir_walk_def pgdir_ensure_def not_present_iff split: if_splits)
  next
    case 2
    have "page_alloc ALLOC_ZERO s = Inr (None, s)" if "wfree w = None" using that by (simp add: page_alloc_def d(3))
    then show ?thesis using 2 a r e
      by (auto simp: w_walk_def w_alloc_def Let_def pgdir_walk_def pgdir_ensure_def not_present_iff split: if_splits)
  next
    case 3
    obtain w1 where w1: "w_alloc (unat (npages s0)) True w = Some (Some y, w1)"
      "w' = set_word P ?d (table_entry y) (set_info y \<lparr>pp_link = None, pp_ref = pp_ref (winfo w1 y) + 1\<rparr> w1)"
      "x = Some (y, ?i)"
      using 3 a by (auto simp: w_walk_def w_alloc_def Let_def split: if_splits)
    obtain s1 where s1: "page_alloc ALLOC_ZERO s = Inr (Some y, s1)" "rep s0 P s1 w1" "y < unat (npages s0)"
      using w_alloc_sim [OF r, of ALLOC_ZERO] w1(1) by (auto simp: ALLOC_ZERO_def)
    note d1 = repD [OF s1(2)]
    let ?v = "\<lparr>pp_link = None, pp_ref = pp_ref (winfo w1 y) + 1\<rparr>"
    let ?s2 = "s1\<lparr>pages := (pages s1)[y := ?v]\<rparr>"
    let ?s3 = "?s2\<lparr>kmem := st32 (kmem ?s2) (kaddr P ?d) (table_entry y)\<rparr>"
    have r3: "rep s0 P ?s3 w'"
      unfolding w1(2) by (rule rep_store [OF rep_info [OF s1(2)] d(7)]) (rule key_less)
    have pt: "pte_page (table_entry y) = y" "present (table_entry y)"
      using d(11) [OF s1(3)] by (simp_all add: table_entry_def pte_page_pde present_pde)
    have "(pages s1 ! y)\<lparr>pp_ref := pp_ref (pages s1 ! y) + 1, pp_link := None\<rparr> = ?v"
      using d1(10) [OF s1(3)] by simp
    then have en: "pgdir_ensure ?a create s = Inr (True, ?s3)"
      using 3 e s1(1,3) d1(9) ad
      by (simp add: pgdir_ensure_def not_present_iff get_page_def set_page_def table_entry_def)
    have "ld32 (kmem ?s3) ?a = table_entry y"
      using read_pde [OF r3, of va] d(1) d1(1) w1(2) by simp
    moreover have "bindR (KADDR ?s3 (PTE_ADDR (table_entry y))) (\<lambda>p. Inr (Some (p + 4 * PTX va), ?s3)) = Inr (Some (kaddr y ?i), ?s3)"
      using w_KADDR [OF r3, of "table_entry y"] s1(3) by (simp add: pt kaddr_key)
    ultimately have "pgdir_walk (kern_pgdir s) va create s = Inr (Some (kaddr y ?i), ?s3)"
      using en by (simp add: pgdir_walk_def Let_def)
    then show ?thesis using r3 s1(3) w1(2,3) pt by auto
  qed
qed

lemma w_walk_cases:
  assumes r: "rep s0 P s w" and a: "w_walk (unat (npages s0)) P va create w = Some (x, w')"
  obtains s' where "x = None" "pgdir_walk (kern_pgdir s) va create s = Inr (None, s')" "rep s0 P s' w'"
    "kern_pgdir s' = kern_pgdir s"
  | s' T i where "x = Some (T, i)" "pgdir_walk (kern_pgdir s) va create s = Inr (Some (kaddr T i), s')" "rep s0 P s' w'"
    "T < unat (npages s0)" "T < 65536" "i < 1024" "ld32 (kmem s') (kaddr T i) = wword w' T i" "i = snd (key va)"
    "pte_page (wword w' P (fst (key va))) = T" "kern_pgdir s' = kern_pgdir s"
proof -
  obtain s' where s': "pgdir_walk (kern_pgdir s) va create s = Inr (map_option (\<lambda>(q, i). kaddr q i) x, s')" "rep s0 P s' w'"
    "\<forall>T i. x = Some (T, i) \<longrightarrow> T < unat (npages s0) \<and> i = snd (key va) \<and>
       present (wword w' P (fst (key va))) \<and> pte_page (wword w' P (fst (key va))) = T"
    using w_walk_sim [OF assms] by blast
  have p: "kern_pgdir s' = kern_pgdir s" using repD(1) [OF r] repD(1) [OF s'(2)] by simp
  show thesis
  proof (cases x)
    case None
    then show thesis using s' p that(1) by simp
  next
    case (Some a)
    then obtain T i where x: "x = Some (T, i)" by (cases a) simp
    then have T: "T < unat (npages s0)" "i = snd (key va)" "i < 1024" "T < 65536"
      using s'(3) repD(11) [OF r] key_less by auto
    then have ld: "ld32 (kmem s') (kaddr T i) = wword w' T i" using repD(12) [OF s'(2)] by (simp add: pword_def)
    have w: "pgdir_walk (kern_pgdir s) va create s = Inr (Some (kaddr T i), s')" "pte_page (wword w' P (fst (key va))) = T"
      using s' x by simp_all
    show thesis by (rule that(2) [OF x w(1) s'(2) T(1,4,3) ld T(2) w(2) p])
  qed
qed

lemma w_remove_sim:
  assumes r: "rep s0 P s w" and a: "w_remove (unat (npages s0)) P va w = Some w'"
  shows "\<exists>s'. page_remove (kern_pgdir s) va s = Inr s' \<and> rep s0 P s' w'"
proof -
  obtain x w1 where w1: "w_walk (unat (npages s0)) P va False w = Some (x, w1)"
    using a by (auto simp: w_remove_def split: option.splits)
  from r w1 show ?thesis
  proof (cases rule: w_walk_cases)
    case (1 s')
    then show ?thesis using a w1 by (auto simp: w_remove_def page_remove_def)
  next
    case (2 s1 T i)
    let ?e = "wword w1 T i"
    show ?thesis
    proof (cases "present ?e")
      case False
      then show ?thesis using a w1 2 by (auto simp: w_remove_def page_remove_def Let_def not_present_iff)
    next
      case True
      obtain w2 where w2: "w_decref (unat (npages s0)) (pte_page ?e) w1 = Some w2" "pte_page ?e < unat (npages s0)"
        "w' = (set_word T i 0 w2)\<lparr>wtlb := (wtlb w2)(PGNUM va := None)\<rparr>"
        using a w1 2(1) True by (auto simp: w_remove_def Let_def split: if_splits)
      obtain s2 where s2: "page_decref (pte_page ?e) s1 = Inr s2" "rep s0 P s2 w2" using w_decref_sim [OF 2(3) w2(1)] by blast
      have "pa2page s1 ?e = Inr (pte_page ?e)"
        using w2(2) repD(2) [OF 2(3)] by (simp add: pa2page_def pte_page_def word_le_nat_alt)
      then have "page_remove (kern_pgdir s) va s = Inr (tlb_invalidate (kern_pgdir s) va (s2\<lparr>kmem := st32 (kmem s2) (kaddr T i) 0\<rparr>))"
        using True 2 s2(1) by (simp add: page_remove_def present_def)
      moreover have "rep s0 P (tlb_invalidate (kern_pgdir s) va (s2\<lparr>kmem := st32 (kmem s2) (kaddr T i) 0\<rparr>)) w'"
        using rep_tlb [OF rep_store [OF s2(2) 2(5,6), of 0], of "(wtlb w2)(PGNUM va := None)"] w2(3) repD(4) [OF s2(2)]
        by (simp add: tlb_invalidate_def invlpg_def)
      ultimately show ?thesis by blast
    qed
  qed
qed

lemma w_insert_sim:
  assumes r: "rep s0 P s w" and a: "w_insert (unat (npages s0)) P pp va perm w = Some (n, w')"
  shows "\<exists>s'. page_insert (kern_pgdir s) pp va perm s = Inr (n, s') \<and> rep s0 P s' w'"
proof -
  obtain x w1 where w1: "w_walk (unat (npages s0)) P va True w = Some (x, w1)"
    using a by (auto simp: w_insert_def split: option.splits)
  from r w1 show ?thesis
  proof (cases rule: w_walk_cases)
    case (1 s')
    then show ?thesis using a w1 by (auto simp: w_insert_def page_insert_def)
  next
    case (2 s1 T i)
    have pp: "pp < unat (npages s0)" using a w1 2(1) by (simp add: w_insert_def split: if_splits)
    let ?v = "(winfo w1 pp)\<lparr>pp_ref := pp_ref (winfo w1 pp) + 1\<rparr>"
    let ?s2 = "s1\<lparr>pages := (pages s1)[pp := ?v]\<rparr>"
    have r2: "rep s0 P ?s2 (set_info pp ?v w1)" using 2(3) by (rule rep_info)
    obtain w3 where w3: "(if present (wword w1 T i) then w_remove (unat (npages s0)) P va (set_info pp ?v w1) else Some (set_info pp ?v w1)) = Some w3"
      "w' = set_word T i (page_entry pp perm) w3" "n = 0"
      using a w1 2(1) pp by (auto simp: w_insert_def Let_def split: if_splits)
    obtain s3 where s3: "(if present (wword w1 T i) then page_remove (kern_pgdir s) va ?s2 else Inr ?s2) = Inr s3" "rep s0 P s3 w3"
      using w3(1) r2 w_remove_sim [OF r2, of va w3] 2(10) by (auto split: if_splits)
    have "page_insert (kern_pgdir s) pp va perm s = Inr (0, s3\<lparr>kmem := st32 (kmem s3) (kaddr T i) (page_entry pp perm)\<rparr>)"
      using s3(1) 2 pp repD(9) [OF 2(3)] repD(10) [OF 2(3) pp]
      by (simp add: page_insert_def get_page_def set_page_def Let_def page_entry_def present_def)
    then show ?thesis using rep_store [OF s3(2) 2(5,6)] w3(2,3) by blast
  qed
qed

lemma w_va2pa_sim:
  assumes r: "rep s0 P s w" and a: "w_va2pa (unat (npages s0)) P va w = Some pa"
  shows "check_va2pa (kern_pgdir s) va s = Inr pa"
proof -
  let ?e = "wword w P (fst (key va))"
  have "ld32 (kmem s) (kaddr (pte_page ?e) (snd (key va))) = wword w (pte_page ?e) (snd (key va))" if "pte_page ?e < unat (npages s0)"
    using repD(11) [OF r that] repD(12) [OF r] key_less by (simp add: pword_def)
  then show ?thesis
    using a w_KADDR [OF r] unfolding check_va2pa_def Let_def read_pde [OF r]
    by (auto simp: w_va2pa_def Let_def not_present_iff kaddr_key split: if_splits)
qed

end
