(* ===== verification/Check_Lists.thy ===== *)
theory Check_Lists
  imports Kern_Check
begin

text \<open>
  The self-tests of the allocator pass: the reordering of the free list keeps its pages, low ones
  first, the tests of its pages hold for what \<open>page_init\<close> leaves there, and \<open>check_page_alloc\<close> puts
  every page back where it was.
\<close>

section \<open>Loops over the free list\<close>

fun fold_body :: "(nat \<Rightarrow> 'a \<Rightarrow> kstate \<Rightarrow> ('a \<times> kstate) result) \<Rightarrow> nat list \<Rightarrow> 'a \<Rightarrow> kstate \<Rightarrow> ('a \<times> kstate) result" where
  "fold_body body [] acc s = Inr (acc, s)"
| "fold_body body (x # xs) acc s = bindR (body x acc s) (\<lambda>(acc, s). fold_body body xs acc s)"

lemma for_list_path:
  assumes "\<And>pp acc s acc' s'. body pp acc s = Inr (acc', s') \<Longrightarrow> pages s' = pages s"
  shows "path (pages s) p xs None \<Longrightarrow> for_list body p acc s = Some (fold_body body xs acc s)"
proof (induction xs arbitrary: p acc s)
  case Nil
  then show ?case by (subst for_list.simps) simp
next
  case (Cons x xs)
  show ?case
  proof (cases "body x acc s")
    case (Inl e)
    then show ?thesis using Cons.prems by (subst for_list.simps) auto
  next
    case (Inr r)
    then obtain acc' s' where r: "body x acc s = Inr (acc', s')" by (cases r) auto
    then have "pages s' = pages s" by (rule assms)
    then have "path (pages s') (pp_link (pages s' ! x)) xs None" "get_page s' x = Inr (pages s' ! x)"
      using Cons.prems by (auto simp: get_page_def)
    then show ?thesis using Cons.prems r Cons.IH [of s' "pp_link (pages s' ! x)" acc']
      by (subst for_list.simps) simp
  qed
qed

lemma count_free_length: "path (pages s) (page_free_list s) xs None \<Longrightarrow> count_free s = Inr (length xs)"
proof -
  let ?body = "\<lambda>(pp :: nat) (n :: nat) (s :: kstate). Inr (n + 1, s) :: (nat \<times> kstate) result"
  assume "path (pages s) (page_free_list s) xs None"
  moreover have "fold_body ?body xs n s = Inr (n + length xs, s)" for n
    by (induction xs arbitrary: n) simp_all
  ultimately show ?thesis
    using for_list_path [of ?body s "page_free_list s" xs 0] by (simp add: count_free_def)
qed

section \<open>The reordering\<close>

text \<open>\<open>built ps t ys\<close>: the pages \<open>ys\<close> are linked up to the last one, which the tail points to.\<close>

definition built :: "page_info list \<Rightarrow> tail \<Rightarrow> nat list \<Rightarrow> bool" where
  "built ps t ys \<longleftrightarrow> (case t of (None, var) \<Rightarrow> ys = []
     | (Some q, var) \<Rightarrow> \<exists>us. ys = us @ [q] \<and> path ps var us (Some q) \<and> q < length ps)"

lemma write_tail_built:
  assumes "built (pages s) t ys" "distinct ys"
  shows "\<exists>var' ps. write_tail t v s = Inr (var', s\<lparr>pages := ps\<rparr>) \<and> path ps var' ys v \<and> length ps = length (pages s) \<and>
    (\<forall>i. i \<notin> set ys \<longrightarrow> ps ! i = pages s ! i) \<and> (\<forall>i. pp_ref (ps ! i) = pp_ref (pages s ! i))"
proof (cases t)
  case (Pair tp var)
  show ?thesis
  proof (cases tp)
    case None
    then show ?thesis using assms Pair
      by (intro exI [of _ v] exI [of _ "pages s"]) (auto simp: built_def write_tail_def)
  next
    case (Some q)
    then obtain us where us: "ys = us @ [q]" "path (pages s) var us (Some q)" "q < length (pages s)"
      using assms(1) Pair by (auto simp: built_def)
    let ?ps = "(pages s)[q := (pages s ! q)\<lparr>pp_link := v\<rparr>]"
    have "path ?ps var ys v" using us assms(2) by (auto simp: path_append)
    moreover have "pp_ref (?ps ! i) = pp_ref (pages s ! i)" for i using us(3) by (simp add: nth_list_update)
    ultimately show ?thesis using Some Pair us
      by (intro exI [of _ var] exI [of _ ?ps]) (auto simp: write_tail_def get_page_def set_page_def)
  qed
qed

lemma write_tail_pages:
  assumes "built ps t ys" "distinct ys"
  shows "\<exists>var' ps'. write_tail t v (s\<lparr>pages := ps\<rparr>) = Inr (var', s\<lparr>pages := ps'\<rparr>) \<and> path ps' var' ys v \<and>
    length ps' = length ps \<and> (\<forall>i. i \<notin> set ys \<longrightarrow> ps' ! i = ps ! i) \<and> (\<forall>i. pp_ref (ps' ! i) = pp_ref (ps ! i))"
  using write_tail_built [of "s\<lparr>pages := ps\<rparr>" t ys v] assms by simp

lemma built_snoc: "path ps var ys (Some x) \<Longrightarrow> x < length ps \<Longrightarrow> built ps (Some x, var) (ys @ [x])"
  by (simp add: built_def)

lemma built_cong:
  assumes "built ps t ys" "length ps' = length ps" "\<forall>i\<in>set ys. ps' ! i = ps ! i"
  shows "built ps' t ys"
proof -
  have "path ps' p us q" if "path ps p us q" "set us \<subseteq> set ys" for p us q
    using that assms(2,3) by (induction us arbitrary: p) auto
  then show ?thesis using assms by (fastforce simp: built_def split: prod.splits option.splits)
qed

lemma path_cong: "path ps p us q \<Longrightarrow> length ps' = length ps \<Longrightarrow> \<forall>i\<in>set us. ps' ! i = ps ! i \<Longrightarrow> path ps' p us q"
  by (induction us arbitrary: p) auto

abbreviation is_low :: "u32 \<Rightarrow> nat \<Rightarrow> bool" where
  "is_low lim x \<equiv> \<not> lim \<le> PDX (page2pa x)"

lemma split_loop:
  "path (pages s) p zs None \<Longrightarrow> distinct (ys @ zs) \<Longrightarrow> built (pages s) t0 (filter (is_low lim) ys) \<Longrightarrow>
    built (pages s) t1 (filter (\<lambda>x. \<not> is_low lim x) ys) \<Longrightarrow>
    \<exists>t0' t1' ps. for_list (split_body lim) p (t0, t1) s = Some (Inr ((t0', t1'), s\<lparr>pages := ps\<rparr>)) \<and>
      built ps t0' (filter (is_low lim) (ys @ zs)) \<and> built ps t1' (filter (\<lambda>x. \<not> is_low lim x) (ys @ zs)) \<and>
      length ps = length (pages s) \<and> (\<forall>i. i \<notin> set (ys @ zs) \<longrightarrow> ps ! i = pages s ! i) \<and>
      (\<forall>i. pp_ref (ps ! i) = pp_ref (pages s ! i))"
proof (induction zs arbitrary: s p ys t0 t1)
  case Nil
  then show ?case by (subst for_list.simps) (auto intro!: exI [of _ "pages s"])
next
  case (Cons z zs)
  have p: "p = Some z" "z < length (pages s)" "path (pages s) (pp_link (pages s ! z)) zs None" using Cons.prems(1) by auto
  let ?low = "is_low lim z" and ?lows = "filter (is_low lim) ys" and ?highs = "filter (\<lambda>x. \<not> is_low lim x) ys"
  let ?t = "if ?low then t0 else t1" and ?xs = "if ?low then ?lows else ?highs"
  have b: "built (pages s) ?t ?xs" "distinct ?xs" using Cons.prems(2-4) by auto
  obtain var ps where w: "write_tail ?t (Some z) s = Inr (var, s\<lparr>pages := ps\<rparr>)" "path ps var ?xs (Some z)"
    "length ps = length (pages s)" "\<forall>i. i \<notin> set ?xs \<longrightarrow> ps ! i = pages s ! i" "\<forall>i. pp_ref (ps ! i) = pp_ref (pages s ! i)"
    using write_tail_built [OF b] by blast
  let ?s = "s\<lparr>pages := ps\<rparr>"
  let ?t0 = "if ?low then (Some z, var) else t0" and ?t1 = "if ?low then t1 else (Some z, var)"
  have body: "split_body lim z (t0, t1) s = Inr ((?t0, ?t1), ?s)"
    using w(1) by (cases ?low) (simp_all add: split_body_def)
  have sub: "set ?xs \<subseteq> set ys" by auto
  have zx: "z \<notin> set ?xs" using Cons.prems(2) by auto
  then have "pages s ! z = ps ! z" using w(4) by simp
  then have step: "for_list (split_body lim) p (t0, t1) s = for_list (split_body lim) (pp_link (pages s ! z)) (?t0, ?t1) ?s"
    using p body w(3) by (subst for_list.simps) (simp add: get_page_def)
  have pth: "path (pages ?s) (pp_link (pages s ! z)) zs None"
  proof -
    have "i \<notin> set ?xs" if "i \<in> set zs" for i using that sub Cons.prems(2) by auto
    then show ?thesis using w(3,4) by (intro path_cong [OF p(3)]) simp_all
  qed
  have "built ps (Some z, var) (?xs @ [z])" using built_snoc [OF w(2)] p(2) w(3) by simp
  moreover have "built ps (if ?low then t1 else t0) (if ?low then ?highs else ?lows)"
  proof (rule built_cong)
    show "built (pages s) (if ?low then t1 else t0) (if ?low then ?highs else ?lows)" using Cons.prems(3,4) by simp
    have "i \<notin> set ?xs" if "i \<in> set (if ?low then ?highs else ?lows)" for i using that by (auto split: if_splits)
    then show "\<forall>i\<in>set (if ?low then ?highs else ?lows). ps ! i = pages s ! i" using w(4) by blast
  qed (rule w(3))
  ultimately have bb: "built (pages ?s) ?t0 (filter (is_low lim) (ys @ [z]))"
    "built (pages ?s) ?t1 (filter (\<lambda>x. \<not> is_low lim x) (ys @ [z]))"
    by (cases ?low; simp)+
  obtain t0' t1' ps' where r: "for_list (split_body lim) (pp_link (pages s ! z)) (?t0, ?t1) ?s
      = Some (Inr ((t0', t1'), ?s\<lparr>pages := ps'\<rparr>))"
    "built ps' t0' (filter (is_low lim) ((ys @ [z]) @ zs))" "built ps' t1' (filter (\<lambda>x. \<not> is_low lim x) ((ys @ [z]) @ zs))"
    "length ps' = length (pages ?s)" "\<forall>i. i \<notin> set ((ys @ [z]) @ zs) \<longrightarrow> ps' ! i = pages ?s ! i"
    "\<forall>i. pp_ref (ps' ! i) = pp_ref (pages ?s ! i)"
    using Cons.IH [OF pth _ bb] Cons.prems(2) by auto
  have eq: "(ys @ [z]) @ zs = ys @ z # zs" by simp
  have "ps' ! i = pages s ! i" if "i \<notin> set (ys @ z # zs)" for i
  proof -
    have "i \<notin> set ?xs" using that sub by auto
    then show ?thesis using r(5) w(4) that unfolding eq by simp
  qed
  moreover have "pp_ref (ps' ! i) = pp_ref (pages s ! i)" for i using r(6) w(5) by simp
  moreover have "for_list (split_body lim) p (t0, t1) s = Some (Inr ((t0', t1'), s\<lparr>pages := ps'\<rparr>))"
    unfolding step using r(1) by simp
  moreover have "length ps' = length (pages s)" using r(4) w(3) by simp
  ultimately show ?case using r(2,3) unfolding eq by blast
qed

lemma low_first_correct:
  assumes "path (pages s) (page_free_list s) xs None"
  shows "\<exists>ps p. low_first lim s = Inr (s\<lparr>pages := ps, page_free_list := p\<rparr>) \<and>
    path ps p (filter (is_low lim) xs @ filter (\<lambda>x. \<not> is_low lim x) xs) None \<and> length ps = length (pages s) \<and>
    (\<forall>i. i \<notin> set xs \<longrightarrow> ps ! i = pages s ! i) \<and> (\<forall>i. pp_ref (ps ! i) = pp_ref (pages s ! i))"
proof -
  let ?lows = "filter (is_low lim) xs" and ?highs = "filter (\<lambda>x. \<not> is_low lim x) xs"
  have d: "distinct xs" using assms by (rule path_distinct)
  obtain t0 t1 ps where l: "for_list (split_body lim) (page_free_list s) ((None, None), (None, None)) s
      = Some (Inr ((t0, t1), s\<lparr>pages := ps\<rparr>))"
    "built ps t0 ?lows" "built ps t1 ?highs" "length ps = length (pages s)" "\<forall>i. i \<notin> set xs \<longrightarrow> ps ! i = pages s ! i"
    "\<forall>i. pp_ref (ps ! i) = pp_ref (pages s ! i)"
    using split_loop [OF assms, of "[]" "(None, None)" lim "(None, None)"] d by (auto simp: built_def)
  have dl: "distinct ?lows" "distinct ?highs" using d by simp_all
  obtain v1 ps1 where w1: "write_tail t1 None (s\<lparr>pages := ps\<rparr>) = Inr (v1, s\<lparr>pages := ps1\<rparr>)" "path ps1 v1 ?highs None"
    "length ps1 = length ps" "\<forall>i. i \<notin> set ?highs \<longrightarrow> ps1 ! i = ps ! i" "\<forall>i. pp_ref (ps1 ! i) = pp_ref (ps ! i)"
    using write_tail_pages [OF l(3) dl(2)] by blast
  have "built ps1 t0 ?lows"
  proof (rule built_cong [OF l(2) w1(3)])
    have "i \<notin> set ?highs" if "i \<in> set ?lows" for i using that by simp
    then show "\<forall>i\<in>set ?lows. ps1 ! i = ps ! i" using w1(4) by blast
  qed
  then obtain v0 ps2 where w0: "write_tail t0 v1 (s\<lparr>pages := ps1\<rparr>) = Inr (v0, s\<lparr>pages := ps2\<rparr>)" "path ps2 v0 ?lows v1"
    "length ps2 = length ps1" "\<forall>i. i \<notin> set ?lows \<longrightarrow> ps2 ! i = ps1 ! i" "\<forall>i. pp_ref (ps2 ! i) = pp_ref (ps1 ! i)"
    using write_tail_pages [OF _ dl(1)] by blast
  have "path ps2 v1 ?highs None"
  proof (rule path_cong [OF w1(2) w0(3)])
    have "i \<notin> set ?lows" if "i \<in> set ?highs" for i using that by simp
    then show "\<forall>i\<in>set ?highs. ps2 ! i = ps1 ! i" using w0(4) by blast
  qed
  then have "path ps2 v0 (?lows @ ?highs) None" using w0(2) by (auto simp: path_append)
  moreover have "low_first lim s = Inr (s\<lparr>pages := ps2, page_free_list := v0\<rparr>)"
    using l(1) w1(1) w0(1) by (simp add: low_first_def)
  moreover have "ps2 ! i = pages s ! i" if "i \<notin> set xs" for i
  proof -
    have "i \<notin> set ?lows" "i \<notin> set ?highs" using that by simp_all
    then show ?thesis using that l(5) w1(4) w0(4) by metis
  qed
  moreover have "length ps2 = length (pages s)" "\<forall>i. pp_ref (ps2 ! i) = pp_ref (pages s ! i)"
    using l(4,6) w1(3,5) w0(3,5) by simp_all
  ultimately show ?thesis by blast
qed

section \<open>check_page_free_list\<close>

lemma PDX_page2pa: "x < 65536 \<Longrightarrow> unat (PDX (page2pa x)) = x div 1024"
  using unat_page2pa [of x] by (simp add: unat_PDX div_mult2_eq [symmetric])

lemma is_low_iff: "x < 65536 \<Longrightarrow> is_low 1 x \<longleftrightarrow> x < 1024"
  by (simp add: word_le_nat_alt PDX_page2pa not_le div_eq_0_iff)

lemma dirty_fold:
  "\<forall>x\<in>set xs. x < unat (npages s) \<Longrightarrow> npages s \<le> 0x10000 \<Longrightarrow>
    \<exists>m. fold_body (dirty_body lim) xs () s = Inr ((), s\<lparr>kmem := m\<rparr>) \<and>
      (\<forall>a. (\<forall>x\<in>set xs. 128 \<le> unat (a - kaddr x 0)) \<longrightarrow> m a = kmem s a)"
proof (induction xs arbitrary: s)
  case Nil
  then show ?case by (intro exI [of _ "kmem s"]) simp
next
  case (Cons x xs)
  have k: "page2kva s x = Inr (kaddr x 0)" using Cons.prems by (intro page2kva_ok) auto
  let ?m = "if PDX (page2pa x) < lim then memset (kmem s) (kaddr x 0) 0x97 128 else kmem s"
  have b: "dirty_body lim x () s = Inr ((), s\<lparr>kmem := ?m\<rparr>)" using k by (simp add: dirty_body_def)
  obtain m where m: "fold_body (dirty_body lim) xs () (s\<lparr>kmem := ?m\<rparr>) = Inr ((), s\<lparr>kmem := m\<rparr>)"
    "\<forall>a. (\<forall>x\<in>set xs. 128 \<le> unat (a - kaddr x 0)) \<longrightarrow> m a = ?m a"
    using Cons.IH [of "s\<lparr>kmem := ?m\<rparr>"] Cons.prems by auto
  have "?m a = kmem s a" if "128 \<le> unat (a - kaddr x 0)" for a using that by (simp add: memset_apply)
  then show ?case using b m by (intro exI [of _ m]) auto
qed

text \<open>The addresses \<open>page_init\<close> keeps off the list, for an end \<open>lim\<close> above 1 MB.\<close>

lemma usable_tests:
  assumes "page_usable lim x" "EXTPHYSMEM < lim" "x < 65536"
  shows "page2pa x \<noteq> 0" "page2pa x \<noteq> IOPHYSMEM" "page2pa x \<noteq> EXTPHYSMEM - PGSIZE" "page2pa x \<noteq> EXTPHYSMEM"
    "page2pa x < EXTPHYSMEM \<or> lim \<le> page2pa x"
proof -
  have h: "IOPHYSMEM \<le> page2pa x \<Longrightarrow> lim \<le> page2pa x" using assms(1) by (simp add: page_usable_def not_less)
  have c: "IOPHYSMEM \<le> EXTPHYSMEM - PGSIZE" "IOPHYSMEM \<le> EXTPHYSMEM" "EXTPHYSMEM - PGSIZE \<le> EXTPHYSMEM"
    by (simp_all add: IOPHYSMEM_def EXTPHYSMEM_def PGSIZE_def)
  show "page2pa x \<noteq> 0" using assms(1,3) page2pa_0_iff [of x] by (simp add: page_usable_def)
  have l: "page2pa x < IOPHYSMEM \<Longrightarrow> page2pa x < EXTPHYSMEM" by (rule less_le_trans [OF _ c(2)])
  then show "page2pa x < EXTPHYSMEM \<or> lim \<le> page2pa x" using h by (cases "page2pa x < IOPHYSMEM") (auto simp: not_less)
  have g: "y < lim" if "y \<le> EXTPHYSMEM" for y by (rule le_less_trans [OF that assms(2)])
  show "page2pa x \<noteq> IOPHYSMEM" using h g [OF c(2)] by (auto simp: not_less)
  show "page2pa x \<noteq> EXTPHYSMEM - PGSIZE" using h c(1) g [OF c(3)] by (auto simp: not_less)
  show "page2pa x \<noteq> EXTPHYSMEM" using h c(2) g [OF order_refl] by (auto simp: not_less)
qed

lemma test_fold:
  assumes "npages s \<le> 0x10000" "EXTPHYSMEM < nextfree s - KERNBASE" "KERNBASE \<le> nextfree s"
  shows "\<forall>x\<in>set xs. x < unat (npages s) \<and> page_usable (nextfree s - KERNBASE) x \<Longrightarrow>
    fold_body (test_body (nextfree s)) xs (b, e) s =
      Inr ((b + length (filter (\<lambda>x. page2pa x < EXTPHYSMEM) xs), e + length (filter (\<lambda>x. \<not> page2pa x < EXTPHYSMEM) xs)), s)"
proof (induction xs arbitrary: b e)
  case (Cons x xs)
  have n: "unat (npages s) \<le> 65536" using assms(1) by (simp add: word_le_nat_alt)
  then have x: "x < 65536" "x < unat (npages s)" "page_usable (nextfree s - KERNBASE) x" using Cons.prems by auto
  note u = usable_tests [OF x(3) assms(2) x(1)]
  have k: "page2kva s x = Inr (kaddr x 0)" using x(2) assms(1) by (intro page2kva_ok)
  have kk: "kaddr x 0 = KERNBASE + page2pa x"
    by (simp add: kaddr_def page2pa_def PGSHIFT_def push_bit_eq_mult)
  have "nextfree s \<le> kaddr x 0" if "\<not> page2pa x < EXTPHYSMEM"
  proof -
    have "nextfree s - KERNBASE \<le> page2pa x" using u(5) that by blast
    then have "unat (nextfree s) - unat KERNBASE \<le> unat (page2pa x)"
      using assms(3) by (simp add: word_le_nat_alt unat_sub)
    moreover have "unat (KERNBASE + page2pa x) = unat KERNBASE + unat (page2pa x)"
      using x(1) unat_page2pa [of x] by (simp add: KERNBASE_def unat_word_ariths)
    ultimately show ?thesis unfolding kk by (simp add: word_le_nat_alt)
  qed
  then have "test_body (nextfree s) x (b, e) s =
      Inr (if page2pa x < EXTPHYSMEM then (b + 1, e) else (b, e + 1), s)"
    using u(1-4) x(2) k by (simp add: test_body_def)
  then show ?case using Cons by (cases "page2pa x < EXTPHYSMEM") simp_all
qed simp

lemma dirty_body_pages: "dirty_body lim pp acc s = Inr (acc', s') \<Longrightarrow> pages s' = pages s"
  by (auto simp: dirty_body_def bindR_eq_Inr split: if_splits)

lemma test_body_pages: "test_body v pp acc s = Inr (acc', s') \<Longrightarrow> pages s' = pages s"
  by (cases acc) (simp add: test_body_def assertR_eq_Inr bindR_eq_Inr del: split_paired_Ex, blast?)

lemma dirty_loop:
  assumes "free_chain s xs"
  shows "\<exists>m. joinR (for_list (dirty_body lim) (page_free_list s) () s) = Inr ((), s\<lparr>kmem := m\<rparr>) \<and>
    (\<forall>a. (\<forall>x\<in>set xs. 128 \<le> unat (a - kaddr x 0)) \<longrightarrow> m a = kmem s a)"
proof -
  note f = free_chainD [OF assms]
  have "\<forall>x\<in>set xs. x < unat (npages s)" using f(5) by blast
  then obtain m where m: "fold_body (dirty_body lim) xs () s = Inr ((), s\<lparr>kmem := m\<rparr>)"
    "\<forall>a. (\<forall>x\<in>set xs. 128 \<le> unat (a - kaddr x 0)) \<longrightarrow> m a = kmem s a"
    using dirty_fold f(3) by blast
  have "for_list (dirty_body lim) (page_free_list s) () s = Some (fold_body (dirty_body lim) xs () s)"
    by (rule for_list_path [OF dirty_body_pages f(1)])
  then show ?thesis using m by (intro exI [of _ m]) simp
qed

lemma test_loop:
  assumes "free_chain s xs" "\<forall>x\<in>set xs. page_usable (nextfree s - KERNBASE) x" "KERNBASE + EXTPHYSMEM < nextfree s"
  shows "joinR (for_list (test_body (nextfree s)) (page_free_list s) (0, 0) s) =
    Inr ((length (filter (\<lambda>x. page2pa x < EXTPHYSMEM) xs), length (filter (\<lambda>x. \<not> page2pa x < EXTPHYSMEM) xs)), s)"
proof -
  note f = free_chainD [OF assms(1)]
  have n: "KERNBASE \<le> nextfree s" "EXTPHYSMEM < nextfree s - KERNBASE"
    using assms(3) by (auto simp: KERNBASE_def EXTPHYSMEM_def word_le_nat_alt word_less_nat_alt unat_sub)
  have "\<forall>x\<in>set xs. x < unat (npages s) \<and> page_usable (nextfree s - KERNBASE) x" using f(5) assms(2) by blast
  note t = test_fold [OF f(3) n(2,1) this, of 0 0]
  have "for_list (test_body (nextfree s)) (page_free_list s) (0, 0) s = Some (fold_body (test_body (nextfree s)) xs (0, 0) s)"
    by (rule for_list_path [OF test_body_pages f(1)])
  then show ?thesis using t by simp
qed

definition low_order :: "bool \<Rightarrow> nat list \<Rightarrow> nat list" where
  "low_order low xs = (if low then filter (\<lambda>x. x < 1024) xs @ filter (\<lambda>x. \<not> x < 1024) xs else xs)"

lemma set_low_order [simp]: "set (low_order low xs) = set xs"
  by (auto simp: low_order_def)

lemma reorder_free_list:
  assumes "free_list s xs"
  shows "\<exists>ps p. (if low then low_first 1 s else Inr s) = Inr (s\<lparr>pages := ps, page_free_list := p\<rparr>) \<and>
    free_list (s\<lparr>pages := ps, page_free_list := p\<rparr>) (low_order low xs) \<and> (\<forall>i. pp_ref (ps ! i) = pp_ref (pages s ! i))"
proof (cases low)
  case True
  note f = free_chainD [OF free_list_chain [OF assms]]
  have "filter (is_low 1) xs = filter (\<lambda>x. x < 1024) xs" "filter (\<lambda>x. \<not> is_low 1 x) xs = filter (\<lambda>x. \<not> x < 1024) xs"
    using f(7) is_low_iff by (auto intro: filter_cong)
  then obtain ps p where r: "low_first 1 s = Inr (s\<lparr>pages := ps, page_free_list := p\<rparr>)"
    "path ps p (low_order True xs) None" "length ps = length (pages s)" "\<forall>i. i \<notin> set xs \<longrightarrow> ps ! i = pages s ! i"
    "\<forall>i. pp_ref (ps ! i) = pp_ref (pages s ! i)"
    using low_first_correct [OF f(1), of 1] by (auto simp: low_order_def)
  have "free_list (s\<lparr>pages := ps, page_free_list := p\<rparr>) (low_order True xs)"
    using r(2-5) f(2,3,6) free_list_unlinked [OF assms] by (simp add: free_list_def free_chain_def)
  then show ?thesis using True r(1,5) by auto
next
  case False
  then show ?thesis using assms
    by (intro exI [of _ "pages s"] exI [of _ "page_free_list s"]) (simp add: low_order_def)
qed

lemma check_page_free_list_ok:
  assumes fl: "free_list s xs" and us: "\<forall>x\<in>set xs. page_usable (nextfree s - KERNBASE) x"
    and nf: "KERNBASE + EXTPHYSMEM < nextfree s"
    and base: "\<exists>x\<in>set xs. page2pa x < EXTPHYSMEM" and ext: "\<exists>x\<in>set xs. \<not> page2pa x < EXTPHYSMEM"
  shows "\<exists>ps p m. check_page_free_list kend low s = Inr (s\<lparr>pages := ps, page_free_list := p, kmem := m\<rparr>) \<and>
    free_list (s\<lparr>pages := ps, page_free_list := p, kmem := m\<rparr>) (low_order low xs) \<and>
    (\<forall>i. pp_ref (ps ! i) = pp_ref (pages s ! i)) \<and>
    (\<forall>a. (\<forall>x\<in>set xs. 128 \<le> unat (a - kaddr x 0)) \<longrightarrow> m a = kmem s a)"
proof -
  define lim where "lim = (if low then 1 else NPDENTRIES)"
  define ys where "ys = low_order low xs"
  have sys: "set ys = set xs" by (simp add: ys_def)
  obtain ps p where r: "(if low then low_first 1 s else Inr s) = Inr (s\<lparr>pages := ps, page_free_list := p\<rparr>)"
    "free_list (s\<lparr>pages := ps, page_free_list := p\<rparr>) ys" "\<forall>i. pp_ref (ps ! i) = pp_ref (pages s ! i)"
    using reorder_free_list [OF fl] unfolding ys_def by blast
  let ?s = "s\<lparr>pages := ps, page_free_list := p\<rparr>"
  obtain m where m: "joinR (for_list (dirty_body lim) (page_free_list ?s) () ?s) = Inr ((), ?s\<lparr>kmem := m\<rparr>)"
    "\<forall>a. (\<forall>x\<in>set ys. 128 \<le> unat (a - kaddr x 0)) \<longrightarrow> m a = kmem ?s a"
    using dirty_loop [OF free_list_chain [OF r(2)]] by blast
  let ?t = "?s\<lparr>kmem := m\<rparr>"
  have ft: "free_list ?t ys" using r(2) by (simp add: free_list_def free_chain_def)
  have t: "joinR (for_list (test_body (nextfree ?t)) (page_free_list ?t) (0, 0) ?t) =
      Inr ((length (filter (\<lambda>x. page2pa x < EXTPHYSMEM) ys), length (filter (\<lambda>x. \<not> page2pa x < EXTPHYSMEM) ys)), ?t)"
    using us nf by (intro test_loop free_list_chain [OF ft]) (simp_all add: sys)
  have "nextfree s \<noteq> 0" using nf by auto
  then have ba: "boot_alloc kend 0 ?t = Inr (nextfree s, ?t)" by (simp add: boot_alloc_def)
  have ne: "page_free_list s \<noteq> None" using free_chainD(1) [OF free_list_chain [OF fl]] base by (cases xs) auto
  have "filter (\<lambda>x. page2pa x < EXTPHYSMEM) ys \<noteq> []" "filter (\<lambda>x. \<not> page2pa x < EXTPHYSMEM) ys \<noteq> []"
    using base ext by (simp_all add: filter_empty_conv sys)
  moreover have "(if low then low_first lim s else Inr s) = Inr ?s" using r(1) by (cases low) (simp_all add: lim_def)
  ultimately have "check_page_free_list kend low s = Inr ?t"
    unfolding check_page_free_list_def Let_def lim_def [symmetric] using ne m(1) ba t by simp
  then show ?thesis using ft r(3) m(2) by (auto simp: sys ys_def intro!: exI)
qed


section \<open>check_page_alloc\<close>

lemma page_alloc_front:
  assumes "page_free_list s = Some x" "x < length (pages s)" "pages s ! x = \<lparr>pp_link = l, pp_ref = r\<rparr>"
    "x < unat (npages s)" "npages s \<le> 0x10000"
  shows "page_alloc flags s = Inr (Some x, s\<lparr>page_free_list := l, pages := (pages s)[x := \<lparr>pp_link = None, pp_ref = r\<rparr>],
    kmem := (if flags AND ALLOC_ZERO \<noteq> 0 then memset (kmem s) (kaddr x 0) 0 PGSIZE else kmem s)\<rparr>)"
proof -
  have "page2kva (set_page (s\<lparr>page_free_list := l\<rparr>) x v) x = Inr (kaddr x 0)" for v
    using assms(4,5) by (intro page2kva_ok) (simp_all add: set_page_def)
  then show ?thesis using assms by (simp add: page_alloc_def get_page_def set_page_def Let_def)
qed

lemma page_free_front:
  assumes "x < length (pages s)" "pages s ! x = \<lparr>pp_link = None, pp_ref = 0\<rparr>"
  shows "page_free x s = Inr (s\<lparr>page_free_list := Some x, pages := (pages s)[x := \<lparr>pp_link = page_free_list s, pp_ref = 0\<rparr>]\<rparr>)"
  using assms by (simp add: page_free_def get_page_def set_page_def)

lemma take_page_front:
  "page_free_list s = Some x \<Longrightarrow> x < length (pages s) \<Longrightarrow> pages s ! x = \<lparr>pp_link = l, pp_ref = r\<rparr> \<Longrightarrow>
    x < unat (npages s) \<Longrightarrow> npages s \<le> 0x10000 \<Longrightarrow>
    take_page 0 s = Inr (x, s\<lparr>page_free_list := l, pages := (pages s)[x := \<lparr>pp_link = None, pp_ref = r\<rparr>]\<rparr>)"
  by (simp add: take_page_def page_alloc_front)

lemma page2pa_below_npages:
  assumes "x < unat n" "n \<le> 0x10000"
  shows "page2pa x < n * PGSIZE"
proof -
  have n: "unat n \<le> 65536" using assms(2) by (simp add: word_le_nat_alt)
  then have "unat (n * PGSIZE) = unat n * 4096" by (simp add: PGSIZE_def unat_word_ariths)
  then show ?thesis using assms(1) n unat_page2pa [of x] by (simp add: word_less_nat_alt)
qed

text \<open>Three pages linked in a row at the front of the list.\<close>

lemma take_three_front:
  assumes "page_free_list s = Some x" "pages s ! x = \<lparr>pp_link = Some y, pp_ref = 0\<rparr>"
    "pages s ! y = \<lparr>pp_link = Some z, pp_ref = 0\<rparr>" "pages s ! z = \<lparr>pp_link = l, pp_ref = 0\<rparr>"
    "distinct [x, y, z]" "\<forall>i\<in>{x, y, z}. i < unat (npages s)" "length (pages s) = unat (npages s)" "npages s \<le> 0x10000"
  shows "take_three s = Inr (x, y, z, s\<lparr>page_free_list := l,
    pages := (pages s)[x := \<lparr>pp_link = None, pp_ref = 0\<rparr>, y := \<lparr>pp_link = None, pp_ref = 0\<rparr>, z := \<lparr>pp_link = None, pp_ref = 0\<rparr>]\<rparr>)"
  using assms by (simp add: take_three_def take_page_front)

lemma free_three_front:
  assumes "pages s ! x = \<lparr>pp_link = None, pp_ref = 0\<rparr>" "pages s ! y = \<lparr>pp_link = None, pp_ref = 0\<rparr>"
    "pages s ! z = \<lparr>pp_link = None, pp_ref = 0\<rparr>"
    "distinct [x, y, z]" "\<forall>i\<in>{x, y, z}. i < length (pages s)"
  shows "free_three x y z s = Inr (s\<lparr>page_free_list := Some z,
    pages := (pages s)[x := \<lparr>pp_link = page_free_list s, pp_ref = 0\<rparr>, y := \<lparr>pp_link = Some x, pp_ref = 0\<rparr>,
      z := \<lparr>pp_link = Some y, pp_ref = 0\<rparr>]\<rparr>)"
  using assms by (simp add: free_three_def page_free_front)

lemma three_updates:
  "distinct [x, y, z] \<Longrightarrow> ps ! x = a \<Longrightarrow> ps ! y = b \<Longrightarrow> ps ! z = c \<Longrightarrow> ps[x := a, y := b, z := c] = ps"
  by (metis list_update_id)

text \<open>One order of the updates.\<close>

lemma update_order:
  "s\<lparr>page_free_list := p, pages := ps\<rparr> = s\<lparr>pages := ps, page_free_list := p\<rparr>"
  "s\<lparr>page_free_list := p, kmem := m\<rparr> = s\<lparr>kmem := m, page_free_list := p\<rparr>"
  "s\<lparr>kmem := m, pages := ps\<rparr> = s\<lparr>pages := ps, kmem := m\<rparr>"
  by simp_all

lemma check_page_alloc_ok:
  assumes "free_chain s (x # y # z # xs)" and va: "pages_va s \<noteq> 0"
  shows "check_page_alloc s =
    Inr (s\<lparr>kmem := memset (memset (kmem s) (kaddr z 0) 1 PGSIZE) (kaddr z 0) 0 PGSIZE\<rparr>)"
proof -
  note f = free_chainD [OF assms(1)]
  let ?o = "\<lparr>pp_link = None, pp_ref = 0\<rparr> :: page_info"
  define fl where "fl = pp_link (pages s ! z)"
  have d: "distinct [x, y, z]" and lt: "\<forall>i\<in>{x, y, z}. i < unat (npages s)" "\<forall>i\<in>{x, y, z}. i < length (pages s)"
    using f(2,4,5) by auto
  have pg: "pages s ! x = \<lparr>pp_link = Some y, pp_ref = 0\<rparr>" "pages s ! y = \<lparr>pp_link = Some z, pp_ref = 0\<rparr>"
    "pages s ! z = \<lparr>pp_link = fl, pp_ref = 0\<rparr>" "page_free_list s = Some x"
    using f(1) f(6) [of x] f(6) [of y] f(6) [of z] by (auto simp: fl_def intro!: page_info.equality)
  define ps where "ps = (pages s)[x := ?o, y := ?o, z := ?o]"
  have ps: "length ps = unat (npages s)" "ps ! x = ?o" "ps ! y = ?o" "ps ! z = ?o"
    "ps[z := a, y := b, x := c] = (pages s)[z := a, y := b, x := c]"
    "ps[x := ?o, y := ?o, z := ?o] = ps" for a b c
    using d lt f(2) by (auto simp: ps_def list_update_swap)
  have t1: "take_three s = Inr (x, y, z, s\<lparr>page_free_list := fl, pages := ps\<rparr>)"
    unfolding ps_def using pg d lt f(2,3) by (rule_tac take_three_front) simp_all
  let ?s1 = "s\<lparr>page_free_list := None, pages := ps\<rparr>"
  have n1: "no_page ?s1 = Inr ?s1" by (simp add: no_page_def page_alloc_def)
  define qs where "qs = ps[x := ?o, y := \<lparr>pp_link = Some x, pp_ref = 0\<rparr>, z := \<lparr>pp_link = Some y, pp_ref = 0\<rparr>]"
  have f1: "free_three x y z ?s1 = Inr (s\<lparr>page_free_list := Some z, pages := qs\<rparr>)"
    using free_three_front [of ?s1 x y z] ps d lt(1) by (simp add: qs_def)
  have qs: "qs ! z = \<lparr>pp_link = Some y, pp_ref = 0\<rparr>" "qs ! y = \<lparr>pp_link = Some x, pp_ref = 0\<rparr>" "qs ! x = ?o"
    "length qs = unat (npages s)"
    using d lt(1) ps(1) by (simp_all add: qs_def)
  have "qs[z := ?o, y := ?o, x := ?o] = ps"
    using d list_update_id [of ps x] list_update_id [of ps y] list_update_id [of ps z] unfolding ps(2-4)
    by (simp add: qs_def list_update_swap)
  then have t2: "take_three (s\<lparr>page_free_list := Some z, pages := qs\<rparr>) = Inr (z, y, x, ?s1)"
    using take_three_front [of "s\<lparr>page_free_list := Some z, pages := qs\<rparr>" z y x None] qs d lt(1) f(3) by simp
  let ?m1 = "memset (kmem s) (kaddr z 0) 1 PGSIZE" and ?m2 = "memset (memset (kmem s) (kaddr z 0) 1 PGSIZE) (kaddr z 0) 0 PGSIZE"
  have k: "page2kva t z = Inr (kaddr z 0)" if "npages t = npages s" for t
    using that lt(1) f(3) by (intro page2kva_ok) simp_all
  have p1: "page_free z (?s1\<lparr>kmem := ?m1\<rparr>) =
      Inr (s\<lparr>page_free_list := Some z, pages := ps[z := ?o], kmem := ?m1\<rparr>)"
    using page_free_front [of z "?s1\<lparr>kmem := ?m1\<rparr>"] ps(1,4) lt(1) by simp
  have p2: "take_page ALLOC_ZERO (s\<lparr>page_free_list := Some z, pages := ps[z := ?o], kmem := ?m1\<rparr>) =
      Inr (z, ?s1\<lparr>kmem := ?m2\<rparr>)"
    using page_alloc_front [of "s\<lparr>page_free_list := Some z, pages := ps[z := ?o], kmem := ?m1\<rparr>" z None 0 ALLOC_ZERO]
      ps(1,4) lt(1) f(3) list_update_id [of ps z] by (simp add: take_page_def ALLOC_ZERO_def)
  have zero: "\<forall>i<unat PGSIZE. ?m2 (kaddr z 0 + word_of_nat i) = 0"
    by (auto simp: memset_apply PGSIZE_def unat_of_nat32)
  have restored: "ps[z := \<lparr>pp_link = fl, pp_ref = 0\<rparr>, y := \<lparr>pp_link = Some z, pp_ref = 0\<rparr>, x := \<lparr>pp_link = Some y, pp_ref = 0\<rparr>]
      = pages s"
    unfolding ps(5) using pg d by (metis list_update_id)
  have f2: "free_three z y x (s\<lparr>page_free_list := fl, pages := ps, kmem := ?m2\<rparr>) = Inr (s\<lparr>kmem := ?m2\<rparr>)"
    using free_three_front [of "s\<lparr>page_free_list := fl, pages := ps, kmem := ?m2\<rparr>" z y x] ps(1-4) d lt(1) restored pg(4)
    by simp
  have c: "count_free (s\<lparr>kmem := ?m2\<rparr>) = Inr (length (x # y # z # xs))"
    by (rule count_free_length) (use f(1) in simp)
  note b = page2pa_below_npages [of _ "npages s", OF _ f(3)]
  show ?thesis
    unfolding check_page_alloc_def using va lt(1) b t1 n1 f1 t2 k p1 p2 zero f2 c count_free_length [OF f(1)]
    by (simp add: Let_def update_order)
qed

section \<open>The tests after page_init\<close>

definition usable_pages :: "kstate \<Rightarrow> nat list" where
  "usable_pages s = filter (page_usable (nextfree s - KERNBASE)) (rev [0..<unat (npages s)])"

lemma page_usable_low: "0 < x \<Longrightarrow> x < 160 \<Longrightarrow> page_usable lim x"
  using page2pa_0_iff [of x] unat_page2pa [of x] by (simp add: page_usable_def IOPHYSMEM_def word_le_nat_alt)

lemma page2pa_low: "x < 160 \<Longrightarrow> page2pa x < EXTPHYSMEM"
  using unat_page2pa [of x] by (simp add: EXTPHYSMEM_def word_less_nat_alt)

lemma three_of:
  assumes "{a, b, c} \<subseteq> set xs" "card {a, b, c} = 3"
  shows "\<exists>x y z zs. xs = x # y # z # zs"
proof -
  have "3 \<le> card (set xs)" using card_mono [OF finite_set assms(1)] assms(2) by simp
  also have "\<dots> \<le> length xs" by (rule card_length)
  finally have "3 \<le> length xs" .
  then obtain x y z zs where "xs = x # y # z # zs" by (auto simp: numeral_3_eq_3 Suc_le_length_iff)
  then show ?thesis by blast
qed

text \<open>The allocator's self-tests of mem_init pass on what page_init builds: on a machine of at most
  256 MB with a whole page of memory above the boot-time allocations, page_init,
  check_page_free_list(1) and check_page_alloc end one after the other without a panic, and leave the
  usable pages on the free list, those of the first 4 MB first, and the memory off the free pages as it was.\<close>

lemma allocator_tests_pass:
  assumes "length (pages s) = unat (npages s)" "npages s \<le> 0x10000" "page_free_list s = None"
    "KERNBASE + EXTPHYSMEM < nextfree s"
    "unat (nextfree s - KERNBASE) \<le> 4096 * (unat (npages s) - 1)" "pages_va s \<noteq> 0"
  shows "\<exists>s1 s2 s3. page_init kend s = Some (Inr s1) \<and> check_page_free_list kend True s1 = Inr s2 \<and>
    check_page_alloc s2 = Inr s3 \<and>
    free_list s3 (filter (\<lambda>x. x < 1024) (usable_pages s) @ filter (\<lambda>x. \<not> x < 1024) (usable_pages s)) \<and>
    (\<forall>a. (\<forall>x\<in>set (usable_pages s). 4096 \<le> unat (a - kaddr x 0)) \<longrightarrow> kmem s3 a = kmem s a)"
proof -
  have nk: "nextfree s \<noteq> 0" "KERNBASE \<le> nextfree s" "EXTPHYSMEM < nextfree s - KERNBASE"
    using assms(4) by (auto simp: KERNBASE_def EXTPHYSMEM_def word_le_nat_alt word_less_nat_alt unat_sub)
  let ?top = "unat (npages s) - 1"
  have n: "256 < ?top" "?top < unat (npages s)" "?top < 65536"
    using nk(3) assms(2,5) by (auto simp: word_less_nat_alt word_le_nat_alt EXTPHYSMEM_def)
  obtain ps p where i: "page_init kend s = Some (Inr (s\<lparr>pages := ps, page_free_list := p\<rparr>))"
    "free_list (s\<lparr>pages := ps, page_free_list := p\<rparr>) (usable_pages s)"
    using page_init_spec [OF assms(1-3) nk(1,2), of kend] unfolding usable_pages_def by blast
  let ?s1 = "s\<lparr>pages := ps, page_free_list := p\<rparr>"
  have top: "page_usable (nextfree s - KERNBASE) ?top" "\<not> page2pa ?top < EXTPHYSMEM"
    using n nk(3) assms(5) unat_page2pa [of ?top] page2pa_0_iff [of ?top]
    by (auto simp: page_usable_def word_le_nat_alt word_less_nat_alt EXTPHYSMEM_def)
  have mem: "{1, 2, 3} \<subseteq> set (usable_pages s)" "?top \<in> set (usable_pages s)"
    using n top(1) page_usable_low by (auto simp: usable_pages_def)
  have "\<exists>x\<in>set (usable_pages s). page2pa x < EXTPHYSMEM" using mem(1) page2pa_low [of 1] by auto
  moreover have "\<exists>x\<in>set (usable_pages s). \<not> page2pa x < EXTPHYSMEM" using mem(2) top(2) by blast
  moreover have "\<forall>x\<in>set (usable_pages s). page_usable (nextfree ?s1 - KERNBASE) x" by (simp add: usable_pages_def)
  ultimately obtain ps2 p2 m where c: "check_page_free_list kend True ?s1 = Inr (?s1\<lparr>pages := ps2, page_free_list := p2, kmem := m\<rparr>)"
    "free_list (?s1\<lparr>pages := ps2, page_free_list := p2, kmem := m\<rparr>) (low_order True (usable_pages s))"
    "\<forall>a. (\<forall>x\<in>set (usable_pages s). 128 \<le> unat (a - kaddr x 0)) \<longrightarrow> m a = kmem s a"
    using check_page_free_list_ok [OF i(2), of kend True] assms(4) by (auto)
  let ?s2 = "?s1\<lparr>pages := ps2, page_free_list := p2, kmem := m\<rparr>"
  have "{1, 2, 3} \<subseteq> set (low_order True (usable_pages s))" using mem(1) by simp
  then obtain x y z zs where o: "low_order True (usable_pages s) = x # y # z # zs" using three_of [of 1 "2 :: nat" 3] by fastforce
  have z: "z \<in> set (usable_pages s)" using set_low_order [of True "usable_pages s"] unfolding o by auto
  let ?m = "memset (memset m (kaddr z 0) 1 PGSIZE) (kaddr z 0) 0 PGSIZE"
  have a: "check_page_alloc ?s2 = Inr (?s2\<lparr>kmem := ?m\<rparr>)"
    using check_page_alloc_ok [OF free_list_chain [OF c(2) [unfolded o]]] assms(6) by simp
  have "free_list (?s2\<lparr>kmem := ?m\<rparr>) (low_order True (usable_pages s))"
    using c(2) by (simp add: free_list_def free_chain_def)
  moreover have "?m a = kmem s a" if "\<forall>x\<in>set (usable_pages s). 4096 \<le> unat (a - kaddr x 0)" for a
  proof -
    have "\<forall>x\<in>set (usable_pages s). 128 \<le> unat (a - kaddr x 0)" using that by (auto intro: order_trans [of _ 4096])
    moreover have "\<not> unat (a - kaddr z 0) < 4096" using that z by (simp add: not_less)
    ultimately show ?thesis using c(3) by (simp add: memset_apply PGSIZE_def)
  qed
  ultimately show ?thesis using i(1) c(1) a by (auto simp: low_order_def)
qed

definition test_machine :: kstate where
  "test_machine = \<lparr>npages = 300, npages_basemem = 160, kern_pgdir = 0xF0100000,
     pages = replicate 300 \<lparr>pp_link = None, pp_ref = 0\<rparr>, pages_va = 0xF0101000, page_free_list = None,
     nextfree = 0xF0102000, kmem = (\<lambda>_. 7), tlb = Map.empty, cr0 = 0, cr3 = 0\<rparr>"

end
