(* ===== verification/Kernel_Map.thy ===== *)
theory Kernel_Map
  imports Check_Lists
begin

text \<open>
  The kernel part of the address space: what the three calls of \<open>boot_map_region\<close> in \<open>mem_init\<close> map
  together, and that \<open>check_kern_pgdir\<close> finds it so.
\<close>

section \<open>The three regions\<close>

lemma unat_region_va: "unat va + 4096 * n \<le> 2 ^ 32 \<Longrightarrow> j < n \<Longrightarrow> unat (region_va va j) = unat va + 4096 * j"
proof -
  assume "unat va + 4096 * n \<le> 2 ^ 32" "j < n"
  then have "unat va + 4096 * j < 2 ^ 32" by simp
  then have "unat va + 4096 * j = unat (word_of_nat (unat va + 4096 * j) :: u32)" by (rule unat_of_nat32 [symmetric])
  then show ?thesis by (simp add: region_va_def PGSIZE_def mult.commute)
qed

lemma key_neq: "unat a div 4096 \<noteq> unat b div 4096 \<Longrightarrow> key a \<noteq> key b"
  by (auto simp: key_eq_iff unat_PGNUM dest: arg_cong [of _ _ unat])

lemma region_slot: "unat va + 4096 * n \<le> 2 ^ 32 \<Longrightarrow> j < n \<Longrightarrow> unat (PDX (region_va va j)) = (unat va + 4096 * j) div 2 ^ 22"
  by (simp add: unat_PDX unat_region_va)

lemma upages_bounds: "unat UPAGES = 0xEF000000" "unat (KSTACKTOP - KSTKSIZE) = 0xEFFF8000" "unat KSTKSIZE = 32768"
  "unat KERNBASE = 0xF0000000" "unat ((0x10000000 :: u32) div PGSIZE) = 65536"
  by (simp_all add: UPAGES_def KSTACKTOP_def KSTKSIZE_def KERNBASE_def jos_consts)

text \<open>The size of the array \<open>pages\<close> in pages: at most 128.\<close>

definition pages_pages :: "kstate \<Rightarrow> nat" where
  "pages_pages s = (8 * unat (npages s) + 4095) div 4096"

lemma pages_size:
  assumes "npages s \<le> 0x10000"
  shows "unat (ROUNDUP (npages s * page_info_size) PGSIZE) = 4096 * pages_pages s"
    "unat (ROUNDUP (npages s * page_info_size) PGSIZE div PGSIZE) = pages_pages s" "pages_pages s \<le> 128"
proof -
  have n: "unat (npages s) \<le> 65536" using assms by (simp add: word_le_nat_alt)
  have m: "unat (npages s * page_info_size) = 8 * unat (npages s)"
    using n by (simp add: page_info_size_def unat_word_ariths)
  show u: "unat (ROUNDUP (npages s * page_info_size) PGSIZE) = 4096 * pages_pages s"
    using n m by (simp add: unat_ROUNDUP pages_pages_def PGSIZE_def)
  show "unat (ROUNDUP (npages s * page_info_size) PGSIZE div PGSIZE) = pages_pages s"
    using u by (simp add: unat_div PGSIZE_def)
  show "pages_pages s \<le> 128" using n by (simp add: pages_pages_def)
qed

text \<open>A region whose directory slots lie in a set of slots above the user part.\<close>

lemma region_map:
  assumes inv: "vm_inv s P xs ex" and nowrap: "unat va + 4096 * unat sz \<le> 2 ^ 32" "unat va + unat sz < 2 ^ 32"
    and D: "\<forall>j<unat sz. (unat va + 4096 * j) div 2 ^ 22 \<in> D" "D \<subseteq> {955..} - {self_slot}" "finite D" "card D \<le> length xs"
  shows "\<exists>s' ys. boot_map_region (kaddr P 0) va sz pa perm s = Inr s' \<and> vm_inv s' P ys ex \<and> vm_step P s s' \<and>
    (\<forall>j<unat sz. vmap (kmem s') P (key (region_va va j)) = Some (region_entry pa perm j)) \<and>
    (\<forall>a. (\<forall>j<unat sz. unat a div 4096 \<noteq> unat va div 4096 + j) \<longrightarrow> unat va mod 4096 = 0 \<longrightarrow>
       vmap (kmem s') P (key a) = vmap (kmem s) P (key a)) \<and>
    table_slots (kmem s') P \<subseteq> table_slots (kmem s) P \<union> D \<and> dir_step P s s' \<and>
    (\<exists>k\<le>card D. ys = drop k xs)"
proof -
  have d: "unat (PDX (region_va va j)) \<in> D" if "j < unat sz" for j
    using that D(1) by (simp add: region_slot [OF nowrap(1) that])
  then have above: "\<forall>j<unat sz. 955 \<le> unat (PDX (region_va va j)) \<and> unat (PDX (region_va va j)) \<noteq> self_slot"
    using D(2) by fastforce
  have sl: "region_slots va {..<unat sz} \<subseteq> D" using d by (auto simp: region_slots_def)
  then have tn: "tables_needed (kmem s) P va {..<unat sz} \<le> card D"
    unfolding tables_needed_def by (intro card_mono D(3)) auto
  obtain s' ys where r: "boot_map_region (kaddr P 0) va sz pa perm s = Inr s'" "vm_inv s' P ys ex" "vm_step P s s'"
    "\<forall>j<unat sz. vmap (kmem s') P (key (region_va va j)) = Some (region_entry pa perm j)"
    "\<forall>k. (\<forall>j<unat sz. k \<noteq> key (region_va va j)) \<longrightarrow> vmap (kmem s') P k = vmap (kmem s) P k"
    "table_slots (kmem s') P = table_slots (kmem s) P \<union> region_slots va {..<unat sz}"
    "ys = drop (tables_needed (kmem s) P va {..<unat sz}) xs" "dir_step P s s'"
    using boot_map_region_spec [OF inv nowrap above, of pa perm] tn D(4) by auto
  have "vmap (kmem s') P (key a) = vmap (kmem s) P (key a)"
    if "\<forall>j<unat sz. unat a div 4096 \<noteq> unat va div 4096 + j" "unat va mod 4096 = 0" for a
  proof -
    have "key a \<noteq> key (region_va va j)" if j: "j < unat sz" for j
      using that \<open>\<forall>j<unat sz. unat a div 4096 \<noteq> unat va div 4096 + j\<close> \<open>unat va mod 4096 = 0\<close>
      by (intro key_neq) (simp add: unat_region_va [OF nowrap(1)] add.commute)
    then show ?thesis using r(5) by blast
  qed
  moreover have "\<exists>k\<le>card D. ys = drop k xs" using r(7) tn by blast
  ultimately show ?thesis using r(1-4,6,8) sl by blast
qed

section \<open>The layout\<close>

text \<open>
  The entries of the kernel part of the map \<open>V\<close>: the array \<open>pages\<close> at physical address \<open>pages_pa\<close>,
  the kernel stack at \<open>stack_pa\<close> and all of physical memory.
\<close>

definition kernel_layout :: "nat \<Rightarrow> u32 \<Rightarrow> u32 \<Rightarrow> (nat \<times> nat \<rightharpoonup> u32) \<Rightarrow> bool" where
  "kernel_layout n pages_pa stack_pa V \<longleftrightarrow>
     (\<forall>j<n. V (key (region_va UPAGES j)) = Some (region_entry pages_pa (PTE_U OR PTE_P) j)) \<and>
     (\<forall>j<8. V (key (region_va (KSTACKTOP - KSTKSIZE) j)) = Some (region_entry stack_pa (PTE_W OR PTE_P) j)) \<and>
     (\<forall>j<65536. V (key (region_va KERNBASE j)) = Some (region_entry 0 (PTE_W OR PTE_P) j))"

lemma map_kernel_spec:
  assumes inv: "vm_inv s P xs ex" and dir: "kern_pgdir s = kaddr P 0" and len: "98 \<le> length xs"
    and pa: "KERNBASE \<le> pages_va s" "KERNBASE \<le> bootstack"
  shows "\<exists>s' ys. map_kernel bootstack s = Inr s' \<and> vm_inv s' P ys ex \<and> vm_step P s s' \<and> dir_step P s s' \<and>
    kernel_layout (pages_pages s) (pages_va s - KERNBASE) (bootstack - KERNBASE) (vmap (kmem s') P) \<and>
    (\<forall>a. unat a < 0xEF000000 \<or> 0xEF000000 + 4096 * pages_pages s \<le> unat a \<and> unat a < 0xEFFF8000 \<longrightarrow>
       vmap (kmem s') P (key a) = vmap (kmem s) P (key a)) \<and>
    table_slots (kmem s') P \<subseteq> table_slots (kmem s) P \<union> ({956} \<union> {959..<1024}) \<and> (\<exists>k\<le>98. ys = drop k xs)"
proof -
  note b = upages_bounds
  have np: "npages s \<le> 0x10000" using inv by (auto simp: vm_inv_def pt_wf_def free_list_def free_chain_def)
  let ?n = "ROUNDUP (npages s * page_info_size) PGSIZE div PGSIZE" and ?ppa = "pages_va s - KERNBASE" and ?spa = "bootstack - KERNBASE"
  have n: "unat ?n = pages_pages s" "pages_pages s \<le> 128" using pages_size [OF np] by simp_all
  have 1: "\<forall>j<unat ?n. (unat UPAGES + 4096 * j) div 2 ^ 22 \<in> {956}"
    using n b by (auto intro!: div_nat_eqI)
  have p1: "unat UPAGES + 4096 * unat ?n \<le> 2 ^ 32" "unat UPAGES + unat ?n < 2 ^ 32" "{956} \<subseteq> {955..} - {self_slot}"
    "card {956 :: nat} \<le> length xs" "finite {956 :: nat}" using n b len by (simp_all add: self_slot_def)
  obtain s1 ys1 where r1: "boot_map_region (kaddr P 0) UPAGES ?n ?ppa (PTE_U OR PTE_P) s = Inr s1" "vm_inv s1 P ys1 ex"
    "vm_step P s s1" "\<forall>j<unat ?n. vmap (kmem s1) P (key (region_va UPAGES j)) = Some (region_entry ?ppa (PTE_U OR PTE_P) j)"
    "\<forall>a. (\<forall>j<unat ?n. unat a div 4096 \<noteq> unat UPAGES div 4096 + j) \<longrightarrow> unat UPAGES mod 4096 = 0 \<longrightarrow>
       vmap (kmem s1) P (key a) = vmap (kmem s) P (key a)"
    "table_slots (kmem s1) P \<subseteq> table_slots (kmem s) P \<union> {956}" "dir_step P s s1" "\<exists>k\<le>card {956 :: nat}. ys1 = drop k xs"
    using region_map [OF inv p1(1,2) 1 p1(3) p1(5) p1(4), of ?ppa "PTE_U OR PTE_P"] by blast
  have p2l: "97 \<le> length ys1" using r1(8) len by auto
  have 2: "\<forall>j<unat KSTKSIZE. (unat (KSTACKTOP - KSTKSIZE) + 4096 * j) div 2 ^ 22 \<in> {959..<992}" using b by auto
  have p2: "unat (KSTACKTOP - KSTKSIZE) + 4096 * unat KSTKSIZE \<le> 2 ^ 32" "unat (KSTACKTOP - KSTKSIZE) + unat KSTKSIZE < 2 ^ 32"
    "{959..<992} \<subseteq> {955..} - {self_slot}" "card {959..<992 :: nat} \<le> length ys1" "finite {959..<992 :: nat}"
    using b p2l by (auto simp: self_slot_def)
  obtain s2 ys2 where r2: "boot_map_region (kaddr P 0) (KSTACKTOP - KSTKSIZE) KSTKSIZE ?spa (PTE_W OR PTE_P) s1 = Inr s2"
    "vm_inv s2 P ys2 ex" "vm_step P s1 s2"
    "\<forall>j<unat KSTKSIZE. vmap (kmem s2) P (key (region_va (KSTACKTOP - KSTKSIZE) j)) = Some (region_entry ?spa (PTE_W OR PTE_P) j)"
    "\<forall>a. (\<forall>j<unat KSTKSIZE. unat a div 4096 \<noteq> unat (KSTACKTOP - KSTKSIZE) div 4096 + j) \<longrightarrow>
       unat (KSTACKTOP - KSTKSIZE) mod 4096 = 0 \<longrightarrow> vmap (kmem s2) P (key a) = vmap (kmem s1) P (key a)"
    "table_slots (kmem s2) P \<subseteq> table_slots (kmem s1) P \<union> {959..<992}" "dir_step P s1 s2"
    "\<exists>k\<le>card {959..<992 :: nat}. ys2 = drop k ys1"
    using region_map [OF r1(2) p2(1,2) 2 p2(3) p2(5) p2(4), of ?spa "PTE_W OR PTE_P"] by blast
  have p3l: "64 \<le> length ys2" using r2(8) p2l by auto
  have 3: "\<forall>j<unat ((0x10000000 :: u32) div PGSIZE). (unat KERNBASE + 4096 * j) div 2 ^ 22 \<in> {960..<1024}" using b by auto
  have p3: "unat KERNBASE + 4096 * unat ((0x10000000 :: u32) div PGSIZE) \<le> 2 ^ 32"
    "unat KERNBASE + unat ((0x10000000 :: u32) div PGSIZE) < 2 ^ 32"
    "{960..<1024} \<subseteq> {955..} - {self_slot}" "card {960..<1024 :: nat} \<le> length ys2" "finite {960..<1024 :: nat}"
    using b p3l by (auto simp: self_slot_def)
  obtain s3 ys3 where r3: "boot_map_region (kaddr P 0) KERNBASE (0x10000000 div PGSIZE) 0 (PTE_W OR PTE_P) s2 = Inr s3"
    "vm_inv s3 P ys3 ex" "vm_step P s2 s3"
    "\<forall>j<unat ((0x10000000 :: u32) div PGSIZE). vmap (kmem s3) P (key (region_va KERNBASE j)) = Some (region_entry 0 (PTE_W OR PTE_P) j)"
    "\<forall>a. (\<forall>j<unat ((0x10000000 :: u32) div PGSIZE). unat a div 4096 \<noteq> unat KERNBASE div 4096 + j) \<longrightarrow> unat KERNBASE mod 4096 = 0 \<longrightarrow>
       vmap (kmem s3) P (key a) = vmap (kmem s2) P (key a)"
    "table_slots (kmem s3) P \<subseteq> table_slots (kmem s2) P \<union> {960..<1024}" "dir_step P s2 s3"
    "\<exists>k\<le>card {960..<1024 :: nat}. ys3 = drop k ys2"
    using region_map [OF r2(2) p3(1,2) 3 p3(3) p3(5) p3(4), of 0 "PTE_W OR PTE_P"] by blast
  have run: "map_kernel bootstack s = Inr s3"
  proof -
    have "PADDR (pages_va s) = Inr ?ppa" "PADDR bootstack = Inr ?spa" using pa by (simp_all add: PADDR_def not_less)
    moreover have "kern_pgdir s1 = kaddr P 0" "kern_pgdir s2 = kaddr P 0" using r1(3) r2(3) dir by (simp_all add: vm_step_def)
    ultimately show ?thesis using r1(1) r2(1) r3(1) dir unfolding map_kernel_def by simp
  qed
  have k3: "vmap (kmem s3) P (key a) = vmap (kmem s2) P (key a)" if "unat a < 0xF0000000" for a
  proof -
    have "unat a div 4096 < 983040" using that by simp
    then show ?thesis using r3(5) b by auto
  qed
  have k2: "vmap (kmem s2) P (key a) = vmap (kmem s1) P (key a)" if "unat a < 0xEFFF8000" for a
  proof -
    have "unat a div 4096 < 983032" using that by simp
    then show ?thesis using r2(5) b by auto
  qed
  have k1: "vmap (kmem s1) P (key a) = vmap (kmem s) P (key a)"
    if "unat a < 0xEF000000 \<or> 0xEF000000 + 4096 * pages_pages s \<le> unat a" for a
  proof -
    have "unat a div 4096 < 978944 \<or> 978944 + pages_pages s \<le> unat a div 4096" using that by auto
    then show ?thesis using r1(5) b n by auto
  qed
  have lay: "kernel_layout (pages_pages s) ?ppa ?spa (vmap (kmem s3) P)"
    unfolding kernel_layout_def
  proof (intro conjI allI impI)
    fix j assume j: "j < pages_pages s"
    then have "unat (region_va UPAGES j) = 0xEF000000 + 4096 * j" using unat_region_va [of UPAGES 128 j] n b by simp
    then show "vmap (kmem s3) P (key (region_va UPAGES j)) = Some (region_entry ?ppa (PTE_U OR PTE_P) j)"
      using r1(4) j n k2 k3 by simp
  next
    fix j :: nat assume j: "j < 8"
    then have "unat (region_va (KSTACKTOP - KSTKSIZE) j) = 0xEFFF8000 + 4096 * j"
      using unat_region_va [of "KSTACKTOP - KSTKSIZE" 8 j] b by simp
    then show "vmap (kmem s3) P (key (region_va (KSTACKTOP - KSTKSIZE) j)) = Some (region_entry ?spa (PTE_W OR PTE_P) j)"
      using r2(4) j b k3 by simp
  next
    fix j :: nat assume "j < 65536"
    then show "vmap (kmem s3) P (key (region_va KERNBASE j)) = Some (region_entry 0 (PTE_W OR PTE_P) j)"
      using r3(4) b by simp
  qed
  have "vmap (kmem s3) P (key a) = vmap (kmem s) P (key a)"
    if "unat a < 0xEF000000 \<or> 0xEF000000 + 4096 * pages_pages s \<le> unat a \<and> unat a < 0xEFFF8000" for a
    using that k1 [of a] k2 [of a] k3 [of a] by auto
  moreover have "vm_step P s s3" "dir_step P s s3"
    using vm_step_trans [OF vm_step_trans [OF r1(3) r2(3)] r3(3)] dir_step_trans [OF dir_step_trans [OF r1(7) r2(7) r1(3)] r3(7)]
      vm_step_trans [OF r1(3) r2(3)] by blast+
  moreover have "table_slots (kmem s3) P \<subseteq> table_slots (kmem s) P \<union> ({956} \<union> {959..<1024})"
    using r1(6) r2(6) r3(6) by fastforce
  moreover have "\<exists>k\<le>98. ys3 = drop k xs"
  proof -
    obtain i j k where "i \<le> 1" "j \<le> 33" "k \<le> 64" "ys1 = drop i xs" "ys2 = drop j ys1" "ys3 = drop k ys2"
      using r1(8) r2(8) r3(8) by auto
    then show ?thesis by (intro exI [of _ "k + (j + i)"]) simp
  qed
  ultimately show ?thesis using run r3(2) lay by blast
qed

section \<open>check_kern_pgdir\<close>

lemma for_pages_ok:
  assumes "unat n \<le> 2 ^ 32 - 4096" "\<forall>j. 4096 * j < unat n \<longrightarrow> f (word_of_nat (4096 * j)) = Inr ()"
  shows "joinR (for_pages f 0 n) = Inr ()"
proof -
  have "for_pages f (word_of_nat (4096 * k)) n = Some (Inr ())" if "4096 * k < 2 ^ 32" for k
    using that
  proof (induction "unat n - 4096 * k" arbitrary: k rule: less_induct)
    case less
    have u: "unat (word_of_nat (4096 * k) :: u32) = 4096 * k" using less.prems by (rule unat_of_nat32)
    show ?case
    proof (cases "4096 * k < unat n")
      case True
      have e: "word_of_nat (4096 * k) + PGSIZE = (word_of_nat (4096 * Suc k) :: u32)" by (simp add: PGSIZE_def)
      have "for_pages f (word_of_nat (4096 * Suc k)) n = Some (Inr ())"
        using True assms(1) by (intro less.hyps) auto
      moreover have "word_of_nat (4096 * k) < n" "f (word_of_nat (4096 * k)) = Inr ()"
        using True assms(2) u by (simp_all only: word_less_nat_alt)
      ultimately show ?thesis by (subst for_pages.simps) (simp only: if_True sum.case e)
    next
      case False
      then show ?thesis using u by (subst for_pages.simps) (simp add: word_less_nat_alt)
    qed
  qed
  from this [of 0] show ?thesis by simp
qed

lemma all_results_ok: "\<forall>x\<in>set xs. f x = Inr () \<Longrightarrow> all_results f xs = Inr ()"
  by (induction xs) simp_all

lemma PTE_ADDR_flags:
  assumes "take_bit 12 a = 0" "take_bit 12 f = f"
  shows "PTE_ADDR (a OR f) = a"
proof (rule bit_word_eqI)
  fix n assume n: "n < LENGTH(32)"
  have "bit f n \<Longrightarrow> n < 12" using assms(2) by (metis bit_take_bit_iff)
  moreover have "bit a n \<Longrightarrow> \<not> n < 12" using assms(1) by (metis bit_take_bit_iff bit_0_eq bot_apply bot_bool_def)
  ultimately show "bit (PTE_ADDR (a OR f)) n = bit a n"
    using n by (auto simp: PTE_ADDR_def mask_consts bit_simps)
qed

lemma region_entry_addr:
  assumes "unat pa mod 4096 = 0" "take_bit 12 perm = perm"
  shows "PTE_ADDR (region_entry pa perm j) = pa + word_of_nat (4096 * j)"
proof -
  have a: "pa + word_of_nat j * PGSIZE = pa + word_of_nat (4096 * j)" by (simp add: PGSIZE_def)
  have "unat (pa + word_of_nat (4096 * j)) mod 4096 = (unat pa + 4096 * j) mod 4096"
    by (simp add: unat_word_ariths unsigned_of_nat take_bit_eq_mod mod_mod_cancel mod_add_right_eq)
  also have "\<dots> = 0" using assms(1) by presburger
  finally have "unat (take_bit 12 (pa + word_of_nat (4096 * j))) = 0"
    by (simp only: take_bit_eq_mod unat_mod) simp
  then have "take_bit 12 (pa + word_of_nat (4096 * j)) = 0" by (simp only: unat_eq_zero)
  moreover have "take_bit 12 (perm OR PTE_P) = perm OR PTE_P" using assms(2) by (simp add: PTE_P_def)
  ultimately show ?thesis unfolding region_entry_def a or.assoc by (rule PTE_ADDR_flags)
qed

lemma va2pa_ok:
  assumes "vm_inv s P xs ex" "kern_pgdir s = kaddr P 0" "unat (PDX va) \<noteq> self_slot" "vmap (kmem s) P (key va) = Some e" "PTE_ADDR e = pa"
  shows "va2pa_is va pa s = Inr ()"
  using assms check_va2pa_eq [of s P xs va] by (simp add: va2pa_is_def vm_inv_def)

text \<open>The state before the kernel mappings: a directory with nothing but its own entry.\<close>

definition fresh_directory :: "nat \<Rightarrow> memory \<Rightarrow> bool" where
  "fresh_directory P m \<longleftrightarrow> (\<forall>d<1024. d \<noteq> self_slot \<longrightarrow> pword m P d = 0) \<and> pword m P self_slot = page2pa P OR PTE_U OR PTE_P"

lemma fresh_self: "fresh_directory P m \<Longrightarrow> present (pword m P self_slot)"
  by (simp add: fresh_directory_def)

lemma fresh_no_tables: "fresh_directory P m \<Longrightarrow> table_slots m P = {}"
  by (auto simp: fresh_directory_def table_slots_def)

lemma vmap_slot: "vmap m P (key a) = Some e \<Longrightarrow> unat (PDX a) \<in> table_slots m P"
  using vmap_SomeD [of m P "unat (PDX a)" "unat (PTX a)" e] by (simp add: key_def)

lemma layout_slots:
  assumes "kernel_layout n pages_pa stack_pa (vmap m P)" "0 < n" "n \<le> 128" "d = 956 \<or> 959 \<le> d \<and> d < 1024"
  shows "d \<in> table_slots m P"
proof -
  note l = assms(1) [unfolded kernel_layout_def] and b = upages_bounds
  have 1: "unat (PDX (region_va UPAGES 0)) = 956" using region_slot [of UPAGES 1 0] b by simp
  have 2: "unat (PDX (region_va (KSTACKTOP - KSTKSIZE) 0)) = 959" using region_slot [of "KSTACKTOP - KSTKSIZE" 1 0] b by simp
  have 3: "unat (PDX (region_va KERNBASE (1024 * (d - 960)))) = d" if "960 \<le> d" "d < 1024"
    using region_slot [of KERNBASE 65536 "1024 * (d - 960)"] b that by simp
  consider "d = 956" | "d = 959" | "960 \<le> d" "d < 1024" using assms(4) by linarith
  then show ?thesis
  proof cases
    case 1
    then show ?thesis using l assms(2) vmap_slot [of m P "region_va UPAGES 0"] \<open>unat (PDX (region_va UPAGES 0)) = 956\<close> by auto
  next
    case 2
    then show ?thesis using l vmap_slot [of m P "region_va (KSTACKTOP - KSTKSIZE) 0"]
        \<open>unat (PDX (region_va (KSTACKTOP - KSTKSIZE) 0)) = 959\<close> by auto
  next
    case d: 3
    have "1024 * (d - 960) < 65536" using d by simp
    then show ?thesis using l vmap_slot [of m P "region_va KERNBASE (1024 * (d - 960))"] 3 [OF d] by auto
  qed
qed

lemma pde_flags: "(page2pa x OR PTE_P OR PTE_W OR PTE_U) AND PTE_W \<noteq> 0"
proof -
  have "bit ((page2pa x OR PTE_P OR PTE_W OR PTE_U) AND PTE_W) 1"
    by (simp add: bit_simps PTE_W_def bit_numeral_rec bit_1_iff)
  then show ?thesis by (metis bit_0_eq bot_apply bot_bool_def)
qed

text \<open>The directory entries after the mappings.\<close>

lemma directory_entries:
  assumes fresh: "fresh_directory P (kmem s)" and dir: "dir_step P s s'" and d: "d < 1024"
    and slots: "table_slots (kmem s') P \<subseteq> {956} \<union> {959..<1024}"
  shows "d \<in> table_slots (kmem s') P \<Longrightarrow> pword (kmem s') P d AND PTE_P \<noteq> 0 \<and> pword (kmem s') P d AND PTE_W \<noteq> 0"
    "d = self_slot \<Longrightarrow> pword (kmem s') P d AND PTE_P \<noteq> 0"
    "d \<noteq> self_slot \<Longrightarrow> d \<noteq> 956 \<Longrightarrow> d < 959 \<Longrightarrow> pword (kmem s') P d = 0"
proof -
  have c: "pword (kmem s') P d = pword (kmem s) P d \<or>
      d \<noteq> self_slot \<and> (\<exists>x. pword (kmem s') P d = page2pa x OR PTE_P OR PTE_W OR PTE_U)"
    using dir d by (auto simp: dir_step_def)
  show "d \<in> table_slots (kmem s') P \<Longrightarrow> pword (kmem s') P d AND PTE_P \<noteq> 0 \<and> pword (kmem s') P d AND PTE_W \<noteq> 0"
    using c fresh d pde_flags by (auto simp: table_slots_def fresh_directory_def present_def)
  show "d = self_slot \<Longrightarrow> pword (kmem s') P d AND PTE_P \<noteq> 0"
    using c fresh_self [OF fresh] by (auto simp: present_def)
  assume n: "d \<noteq> self_slot" "d \<noteq> 956" "d < 959"
  then have "d \<notin> table_slots (kmem s') P" using slots by auto
  then have "\<not> present (pword (kmem s') P d)" using n(1) d by (simp add: table_slots_def)
  then show "pword (kmem s') P d = 0" using c fresh d n(1) present_pde by (auto simp: fresh_directory_def)
qed

lemma check_pde_ok:
  assumes "fresh_directory P (kmem s)" "dir_step P s s'" "kern_pgdir s' = kaddr P 0"
    "table_slots (kmem s') P \<subseteq> {956} \<union> {959..<1024}" "kernel_layout n pages_pa stack_pa (vmap (kmem s') P)" "0 < n" "n \<le> 128"
    "d < 1024"
  shows "check_pde s' (word_of_nat d) = Inr ()"
proof -
  have u: "unat (word_of_nat d :: u32) = d" using assms(8) by (intro unat_of_nat32) simp
  have w: "ld32 (kmem s') (kern_pgdir s' + 4 * word_of_nat d) = pword (kmem s') P d"
    unfolding assms(3) kaddr_index u by (simp add: pword_def)
  have p: "PDX UVPT = 957" "PDX (KSTACKTOP - 1) = 959" "PDX UPAGES = 956" "PDX KERNBASE = 960"
    by (simp_all add: word_unat_eq_iff unat_PDX jos_consts UVPT_def KSTACKTOP_def UPAGES_def KERNBASE_def)
  have e: "word_of_nat d = (957 :: u32) \<longleftrightarrow> d = 957" "word_of_nat d = (959 :: u32) \<longleftrightarrow> d = 959"
    "word_of_nat d = (956 :: u32) \<longleftrightarrow> d = 956" "(960 :: u32) \<le> word_of_nat d \<longleftrightarrow> 960 \<le> d"
    by (simp_all only: word_unat_eq_iff word_le_nat_alt u) simp_all
  note D = directory_entries [OF assms(1,2,8,4)]
  have L: "d = 956 \<or> 959 \<le> d \<Longrightarrow> d \<in> table_slots (kmem s') P" using layout_slots [OF assms(5-7)] assms(8) by blast
  consider "d = 957" | "d = 956 \<or> 959 \<le> d" | "d \<noteq> 957" "d \<noteq> 956" "d < 959" by linarith
  then show ?thesis
  proof cases
    case 1
    then show ?thesis using D(2) w by (simp add: check_pde_def Let_def p e self_slot_def)
  next
    case 2
    then show ?thesis using D(1) [OF L] w by (auto simp: check_pde_def Let_def p e)
  next
    case 3
    then show ?thesis using D(3) w by (auto simp: check_pde_def Let_def p e self_slot_def)
  qed
qed

lemma aligned_phys:
  assumes "KERNBASE \<le> v" "unat v mod 4096 = 0"
  shows "unat (v - KERNBASE) mod 4096 = 0"
proof -
  obtain q where q: "unat v = 4096 * q" using assms(2) by auto
  have "unat (v - KERNBASE) = 4096 * q - 4096 * 983040" using assms(1) upages_bounds(4) q by (simp add: unat_sub)
  also have "\<dots> = 4096 * (q - 983040)" by (simp only: diff_mult_distrib2)
  finally show ?thesis by simp
qed

text \<open>A mapped region passes its loop of \<open>check_kern_pgdir\<close>.\<close>

lemma region_check:
  assumes inv: "vm_inv s P xs ex" "kern_pgdir s = kaddr P 0"
    and V: "\<forall>j<k. vmap (kmem s) P (key (region_va va j)) = Some (region_entry pa perm j)"
    and va: "unat va + 4096 * k \<le> 2 ^ 32" "unat va = 0xEF000000 \<and> k \<le> 128 \<or> 0xEFFF8000 \<le> unat va"
    and pa: "unat pa mod 4096 = 0" "take_bit 12 perm = perm"
    and n: "unat n \<le> 4096 * k" "unat n \<le> 2 ^ 32 - 4096"
  shows "joinR (for_pages (\<lambda>i. va2pa_is (va + i) (pa + i) s) 0 n) = Inr ()"
proof -
  have "va2pa_is (va + word_of_nat (4096 * j)) (pa + word_of_nat (4096 * j)) s = Inr ()" if j: "4096 * j < unat n" for j
  proof -
    have k: "j < k" using j n(1) by simp
    have r: "region_va va j = va + word_of_nat (4096 * j)" by (simp add: region_va_def PGSIZE_def)
    have slot: "unat (PDX (region_va va j)) \<noteq> self_slot"
      using k va unfolding region_slot [OF va(1) k] by (auto simp: self_slot_def)
    have v: "vmap (kmem s) P (key (region_va va j)) = Some (region_entry pa perm j)" using V k by blast
    show ?thesis using va2pa_ok [OF inv slot v region_entry_addr [OF pa]] unfolding r .
  qed
  then show ?thesis by (intro for_pages_ok n(2)) simp
qed

lemma guard_check:
  assumes "vm_inv s P ys ex" "kern_pgdir s = kaddr P 0" "vmap (kmem s) P (key (KSTACKTOP - PTSIZE)) = None"
  shows "va2pa_is (KSTACKTOP - PTSIZE) (NOT 0) s = Inr ()"
proof -
  have "unat (KSTACKTOP - PTSIZE) = 0xEFC00000" by (simp add: jos_consts)
  then have "unat (PDX (KSTACKTOP - PTSIZE)) \<noteq> self_slot" by (simp add: unat_PDX self_slot_def)
  then show ?thesis
    using check_va2pa_eq [of s P ys "KSTACKTOP - PTSIZE"] assms by (simp add: va2pa_is_def vm_inv_def)
qed

section \<open>The invariant holds after page_init\<close>

text \<open>The references held from boot on: one to every page that \<open>page_init\<close> keeps off the list.\<close>

definition boot_refs :: "kstate \<Rightarrow> nat \<Rightarrow> nat" where
  "boot_refs s q = (if q < unat (npages s) \<and> page_usable (nextfree s - KERNBASE) q then 0 else 1)"

lemma no_tables_vmap: "table_slots m P = {} \<Longrightarrow> vmap m P = Map.empty"
  by (auto simp: vmap_def fun_eq_iff)

lemma maps_to_empty: "maps_to Map.empty q = 0"
  by (simp add: maps_to_def)

text \<open>Without page tables the invariant is one on the free list and the counts.\<close>

lemma vm_inv_fresh:
  assumes "free_list s xs" "fresh_directory P (kmem s)" "P < unat (npages s)" "P \<notin> set xs" "0 < ex P"
    "\<forall>q<unat (npages s). unat (pp_ref (pages s ! q)) = ex q"
  shows "vm_inv s P xs ex"
proof -
  have t: "table_slots (kmem s) P = {}" using assms(2) by (rule fresh_no_tables)
  then have "vmap (kmem s) P = Map.empty" by (rule no_tables_vmap)
  then show ?thesis using assms t by (simp add: vm_inv_def pt_wf_def ref_ok_def maps_to_empty)
qed

lemma usable_pagesD: "q \<in> set (usable_pages s) \<longleftrightarrow> q < unat (npages s) \<and> page_usable (nextfree s - KERNBASE) q"
  by (auto simp: usable_pages_def)

lemma page_init_vm_inv:
  assumes "length (pages s) = unat (npages s)" "npages s \<le> 0x10000" "page_free_list s = None"
    "nextfree s \<noteq> 0" "KERNBASE \<le> nextfree s" "P < unat (npages s)" "\<not> page_usable (nextfree s - KERNBASE) P"
    "fresh_directory P (kmem s)"
  shows "\<exists>ps p. page_init kend s = Some (Inr (s\<lparr>pages := ps, page_free_list := p\<rparr>)) \<and>
    vm_inv (s\<lparr>pages := ps, page_free_list := p\<rparr>) P (usable_pages s) (boot_refs s)"
proof -
  obtain ps p where i: "page_init kend s = Some (Inr (s\<lparr>pages := ps, page_free_list := p\<rparr>))"
    "free_list (s\<lparr>pages := ps, page_free_list := p\<rparr>) (usable_pages s)"
    "\<forall>i<unat (npages s). \<not> page_usable (nextfree s - KERNBASE) i \<longrightarrow> pp_ref (ps ! i) = 1"
    using page_init_spec [OF assms(1-5), of kend] unfolding usable_pages_def by blast
  let ?s = "s\<lparr>pages := ps, page_free_list := p\<rparr>"
  have "unat (pp_ref (pages ?s ! q)) = boot_refs s q" if "q < unat (npages s)" for q
  proof (cases "page_usable (nextfree s - KERNBASE) q")
    case True
    then have "q \<in> set (usable_pages s)" using that by (simp add: usable_pagesD)
    then show ?thesis using free_chainD(6) [OF free_list_chain [OF i(2)], of q] True that by (simp add: boot_refs_def)
  qed (use i(3) that in \<open>simp add: boot_refs_def\<close>)
  then have "vm_inv ?s P (usable_pages s) (boot_refs s)"
    using i(2) assms(6-8) by (intro vm_inv_fresh) (simp_all add: usable_pagesD boot_refs_def)
  then show ?thesis using i(1) by blast
qed

text \<open>The machine of the allocator tests with a directory in its first page above the I/O hole.\<close>

definition map_machine :: kstate where
  "map_machine = test_machine\<lparr>kmem := st32 (\<lambda>_. 0) (kaddr 256 self_slot) 0x100005\<rparr>"

lemma map_machine_simps:
  "npages map_machine = 300" "length (pages map_machine) = 300" "page_free_list map_machine = None"
  "nextfree map_machine = 0xF0102000" "kern_pgdir map_machine = kaddr 256 0" "pages_va map_machine = 0xF0101000"
  by (simp_all add: map_machine_def test_machine_def kaddr_def KERNBASE_def)

lemma map_machine_fresh: "fresh_directory 256 (kmem map_machine)"
  by (simp add: fresh_directory_def map_machine_def pword_st32 pword_zero self_slot_def PTE_P_def PTE_U_def page2pa_def PGSHIFT_def push_bit_eq_mult)

lemma map_machine_hole: "\<not> page_usable (0xF0102000 - KERNBASE) 256"
  by (simp add: page_usable_def KERNBASE_def page2pa_def PGSHIFT_def push_bit_eq_mult IOPHYSMEM_def)

text \<open>The kernel part of the address space: from a directory with only its own entry, with enough
  free pages, the three calls of boot_map_region in mem_init succeed and map the array pages at
  UPAGES, the eight pages of the kernel stack below KSTACKTOP and the 256 MB of physical memory at KERNBASE,
  leave everything else below the stack unmapped, keep the invariant of the page tables, and
  check_kern_pgdir finds nothing wrong.\<close>

lemma kernel_mapped:
  assumes "vm_inv s P xs ex" "kern_pgdir s = kaddr P 0" "fresh_directory P (kmem s)" "98 \<le> length xs"
    "KERNBASE \<le> pages_va s" "unat (pages_va s) mod 4096 = 0" "KERNBASE \<le> bootstack" "unat bootstack mod 4096 = 0"
  shows "\<exists>s' ys. map_kernel bootstack s = Inr s' \<and> check_kern_pgdir bootstack s' = Inr () \<and> vm_inv s' P ys ex \<and> vm_step P s s' \<and>
    kernel_layout (pages_pages s) (pages_va s - KERNBASE) (bootstack - KERNBASE) (vmap (kmem s') P) \<and>
    (\<forall>a. unat a < 0xEF000000 \<or> 0xEF000000 + 4096 * pages_pages s \<le> unat a \<and> unat a < 0xEFFF8000 \<longrightarrow>
       vmap (kmem s') P (key a) = None) \<and>
    (\<exists>k\<le>98. ys = drop k xs) \<and> pword (kmem s') P 0 = 0 \<and> pword (kmem s') P self_slot = page2pa P OR PTE_U OR PTE_P"
proof -
  note b = upages_bounds
  obtain s' ys where m: "map_kernel bootstack s = Inr s'" "vm_inv s' P ys ex" "vm_step P s s'" "dir_step P s s'"
    "kernel_layout (pages_pages s) (pages_va s - KERNBASE) (bootstack - KERNBASE) (vmap (kmem s') P)"
    "\<forall>a. unat a < 0xEF000000 \<or> 0xEF000000 + 4096 * pages_pages s \<le> unat a \<and> unat a < 0xEFFF8000 \<longrightarrow>
       vmap (kmem s') P (key a) = vmap (kmem s) P (key a)"
    "table_slots (kmem s') P \<subseteq> table_slots (kmem s) P \<union> ({956} \<union> {959..<1024})" "\<exists>k\<le>98. ys = drop k xs"
    using map_kernel_spec [OF assms(1,2,4,5,7)] by blast
  have np: "npages s \<le> 0x10000" "0 < unat (npages s)"
    using assms(1) by (auto simp: vm_inv_def pt_wf_def free_list_def free_chain_def)
  have n: "pages_pages s \<le> 128" "0 < pages_pages s" using pages_size(3) [OF np(1)] np(2) by (simp_all add: pages_pages_def)
  have st: "kern_pgdir s' = kaddr P 0" "npages s' = npages s" "pages_va s' = pages_va s"
    using m(3) assms(2) by (simp_all add: vm_step_def)
  have none: "vmap (kmem s) P k = None" for k
    using fresh_no_tables [OF assms(3)] by (cases k) (simp add: vmap_def)
  have sl: "table_slots (kmem s') P \<subseteq> {956} \<union> {959..<1024}" using m(7) fresh_no_tables [OF assms(3)] by simp
  note lay = m(5) [unfolded kernel_layout_def] and ppa = aligned_phys [OF assms(5,6)] and spa = aligned_phys [OF assms(7,8)]
  have unmapped: "vmap (kmem s') P (key a) = None"
    if "unat a < 0xEF000000 \<or> 0xEF000000 + 4096 * pages_pages s \<le> unat a \<and> unat a < 0xEFFF8000" for a
    using m(6) that unfolding none by blast
  have "unat (KSTACKTOP - PTSIZE) = 0xEFC00000" by (simp add: jos_consts)
  then have guard: "va2pa_is (KSTACKTOP - PTSIZE) (NOT 0) s' = Inr ()"
    using n by (intro guard_check [OF m(2) st(1)] unmapped) simp
  have pages: "joinR (for_pages (\<lambda>i. va2pa_is (UPAGES + i) (pages_va s - KERNBASE + i) s') 0 (ROUNDUP (npages s * page_info_size) PGSIZE)) = Inr ()"
    using lay n b ppa pages_size(1) [OF np(1)]
    by (intro region_check [OF m(2) st(1), where k = "pages_pages s" and perm = "PTE_U OR PTE_P"]) (simp_all add: PTE_U_def PTE_P_def)
  have "unat (npages s * PGSIZE) = 4096 * unat (npages s)" "unat (npages s) \<le> 65536"
    using np(1) by (simp_all add: PGSIZE_def unat_word_ariths word_le_nat_alt)
  then have "joinR (for_pages (\<lambda>i. va2pa_is (KERNBASE + i) (0 + i) s') 0 (npages s * PGSIZE)) = Inr ()"
    using lay b by (intro region_check [OF m(2) st(1), where k = 65536 and perm = "PTE_W OR PTE_P"]) (simp_all add: PTE_W_def PTE_P_def)
  then have phys: "joinR (for_pages (\<lambda>i. va2pa_is (KERNBASE + i) i s') 0 (npages s * PGSIZE)) = Inr ()" by simp
  have stack: "joinR (for_pages (\<lambda>i. va2pa_is (KSTACKTOP - KSTKSIZE + i) (bootstack - KERNBASE + i) s') 0 KSTKSIZE) = Inr ()"
    using lay b spa by (intro region_check [OF m(2) st(1), where k = 8 and perm = "PTE_W OR PTE_P"]) (simp_all add: PTE_W_def PTE_P_def)
  have pde: "all_results (check_pde s') (map word_of_nat [0..<unat NPDENTRIES]) = Inr ()"
    using check_pde_ok [OF assms(3) m(4) st(1) sl m(5) n(2,1)] by (intro all_results_ok) (simp add: NPDENTRIES_def)
  have "PADDR (pages_va s) = Inr (pages_va s - KERNBASE)" "PADDR bootstack = Inr (bootstack - KERNBASE)"
    using assms(5,7) by (simp_all add: PADDR_def not_less)
  then have "check_kern_pgdir bootstack s' = Inr ()"
    using guard pages phys stack pde unfolding check_kern_pgdir_def st by simp
  moreover have "pword (kmem s') P 0 = 0"
    using directory_entries(3) [OF assms(3) m(4) _ sl, of 0] by (simp add: self_slot_def)
  moreover have "pword (kmem s') P self_slot = page2pa P OR PTE_U OR PTE_P"
  proof -
    have "self_slot < 1024" by (simp add: self_slot_def)
    then have "pword (kmem s') P self_slot = pword (kmem s) P self_slot" using m(4) unfolding dir_step_def by blast
    then show ?thesis using assms(3) by (simp add: fresh_directory_def)
  qed
  ultimately show ?thesis using m(1-3,5,8) unmapped by blast
qed

text \<open>C9. page_init establishes the invariant of the page tables: with a directory in the page P that
  boot_alloc handed out, holding nothing but its own entry, the free pages are the usable ones, no
  table or directory is among them, and every reference count is exact.\<close>

theorem page_init_establishes:
  assumes "length (pages s) = unat (npages s)" "npages s \<le> 0x10000" "page_free_list s = None"
    "nextfree s \<noteq> 0" "KERNBASE \<le> nextfree s" "P < unat (npages s)" "\<not> page_usable (nextfree s - KERNBASE) P"
    "fresh_directory P (kmem s)"
  shows "\<exists>s'. page_init kend s = Some (Inr s') \<and> vm_inv s' P (usable_pages s) (boot_refs s) \<and>
    s' = s\<lparr>pages := pages s', page_free_list := page_free_list s'\<rparr>"
proof -
  obtain ps p where "page_init kend s = Some (Inr (s\<lparr>pages := ps, page_free_list := p\<rparr>))"
    "vm_inv (s\<lparr>pages := ps, page_free_list := p\<rparr>) P (usable_pages s) (boot_refs s)"
    using page_init_vm_inv [OF assms, of kend] by blast
  then show ?thesis by auto
qed

theorem page_init_establishes_witness:
  "\<exists>s'. page_init 0 map_machine = Some (Inr s') \<and> vm_inv s' 256 (usable_pages map_machine) (boot_refs map_machine)"
  using page_init_establishes [of map_machine 256 0] map_machine_fresh map_machine_hole
  by (auto simp: map_machine_simps KERNBASE_def)

end
