(* ===== verification/Page_Tests.thy ===== *)
theory Page_Tests
  imports Word_Machine Kernel_Map
begin

text \<open>
  The statements of \<open>check_page\<close> and \<open>check_page_installed_pgdir\<close> on the abstract machine, and the
  runs of the two tests.
\<close>

section \<open>Statements\<close>

definition simulates :: "kstate \<Rightarrow> nat \<Rightarrow> (kstate \<Rightarrow> kstate result) \<Rightarrow> (wmachine \<Rightarrow> wmachine option) \<Rightarrow> bool" where
  "simulates s0 P f g \<longleftrightarrow>
     (\<forall>s w w'. rep s0 P s w \<longrightarrow> g w = Some w' \<longrightarrow> (\<exists>s'. f s = Inr s' \<and> rep s0 P s' w'))"

fun w_run :: "(wmachine \<Rightarrow> wmachine option) list \<Rightarrow> wmachine \<Rightarrow> wmachine option" where
  "w_run [] w = Some w"
| "w_run (g # gs) w = (case g w of None \<Rightarrow> None | Some w \<Rightarrow> w_run gs w)"

lemma run_sim: "list_all2 (simulates s0 P) fs gs \<Longrightarrow> simulates s0 P (run_steps fs) (w_run gs)"
proof (induction rule: list_all2_induct)
  case Nil
  then show ?case by (simp add: simulates_def)
next
  case (Cons f fs g gs)
  have "\<exists>s'. run_steps (f # fs) s = Inr s' \<and> rep s0 P s' w'"
    if r: "rep s0 P s w" and g: "w_run (g # gs) w = Some w'" for s w w'
  proof -
    obtain w1 where w1: "g w = Some w1" "w_run gs w1 = Some w'" using g by (auto split: option.splits)
    then obtain s1 where s1: "f s = Inr s1" "rep s0 P s1 w1" using Cons(1) r unfolding simulates_def by blast
    then show ?thesis using Cons.IH w1(2) unfolding simulates_def by auto
  qed
  then show ?case unfolding simulates_def by blast
qed

definition w_test :: "(wmachine \<Rightarrow> bool) \<Rightarrow> wmachine \<Rightarrow> wmachine option" where
  "w_test c w = (if c w then Some w else None)"

definition w_restore :: "nat option \<Rightarrow> wmachine \<Rightarrow> wmachine option" where
  "w_restore fl w = Some (w\<lparr>wfree := fl\<rparr>)"

definition w_null :: "nat \<Rightarrow> nat \<Rightarrow> u32 \<Rightarrow> wmachine \<Rightarrow> wmachine option" where
  "w_null N P va w = (case w_walk N P va False w of Some (None, w) \<Rightarrow> Some w | _ \<Rightarrow> None)"

definition w_inserts :: "nat \<Rightarrow> nat \<Rightarrow> (int \<Rightarrow> bool) \<Rightarrow> nat \<Rightarrow> u32 \<Rightarrow> u32 \<Rightarrow> wmachine \<Rightarrow> wmachine option" where
  "w_inserts N P ok pp va perm w =
     (case w_insert N P pp va perm w of None \<Rightarrow> None | Some (n, w) \<Rightarrow> if ok n then Some w else None)"

definition w_takes :: "nat \<Rightarrow> nat \<Rightarrow> wmachine \<Rightarrow> wmachine option" where
  "w_takes N pp w =
     (case w_alloc N False w of Some (Some x, w) \<Rightarrow> if x = pp then Some w else None | _ \<Rightarrow> None)"

definition w_clear :: "nat \<Rightarrow> u32 \<Rightarrow> wmachine \<Rightarrow> wmachine option" where
  "w_clear P i w = (if unat i < 1024 then Some (set_word P (unat i) 0 w) else None)"

definition w_set_ref :: "nat \<Rightarrow> nat \<Rightarrow> u16 \<Rightarrow> wmachine \<Rightarrow> wmachine option" where
  "w_set_ref N pp n w = (if pp < N then Some (set_info pp ((winfo w pp)\<lparr>pp_ref := n\<rparr>) w) else None)"

definition w_pte :: "nat \<Rightarrow> nat \<Rightarrow> u32 \<Rightarrow> (u32 \<Rightarrow> bool) \<Rightarrow> wmachine \<Rightarrow> wmachine option" where
  "w_pte N P va ok w =
     (case w_walk N P va False w of Some (Some (T, i), w) \<Rightarrow> if ok (wword w T i) then Some w else None | _ \<Rightarrow> None)"

definition w_walks :: "nat \<Rightarrow> nat \<Rightarrow> u32 \<Rightarrow> bool \<Rightarrow> wmachine \<Rightarrow> wmachine option" where
  "w_walks N P va create w = (case w_walk N P va create w of Some (Some x, w) \<Rightarrow> Some w | _ \<Rightarrow> None)"

definition w_fill :: "nat \<Rightarrow> nat \<Rightarrow> u32 \<Rightarrow> wmachine \<Rightarrow> wmachine option" where
  "w_fill N pp c w = (if pp < N then Some (w\<lparr>wword := (wword w)(pp := \<lambda>_. fill_word c)\<rparr>) else None)"

definition w_ref :: "nat \<Rightarrow> nat \<Rightarrow> u16 \<Rightarrow> wmachine \<Rightarrow> bool" where
  "w_ref N pp n w \<longleftrightarrow> pp < N \<and> pp_ref (winfo w pp) = n"

definition w_used :: "nat \<Rightarrow> nat \<Rightarrow> wmachine \<Rightarrow> bool" where
  "w_used N pp w \<longleftrightarrow> pp < N \<and> pp_ref (winfo w pp) \<noteq> 0 \<and> pp_link (winfo w pp) = None"

definition w_pde :: "nat \<Rightarrow> u32 \<Rightarrow> (u32 \<Rightarrow> bool) \<Rightarrow> wmachine \<Rightarrow> bool" where
  "w_pde P i ok w \<longleftrightarrow> unat i < 1024 \<and> ok (wword w P (unat i))"

definition w_empty :: "nat \<Rightarrow> nat \<Rightarrow> wmachine \<Rightarrow> bool" where
  "w_empty N pp w \<longleftrightarrow> pp < N \<and> (\<forall>i<1024. \<not> present (wword w pp i))"

named_theorems sims "simulations of the statements"

lemma simI: "(\<And>s w w'. rep s0 P s w \<Longrightarrow> g w = Some w' \<Longrightarrow> \<exists>s'. f s = Inr s' \<and> rep s0 P s' w') \<Longrightarrow> simulates s0 P f g"
  by (simp add: simulates_def)

lemma test_sim: "(\<And>s w. rep s0 P s w \<Longrightarrow> c w \<Longrightarrow> f s = Inr s) \<Longrightarrow> simulates s0 P f (w_test c)"
  by (auto simp: simulates_def w_test_def)

lemma sim_restore [sims]: "simulates s0 P (restore_list fl) (w_restore fl)"
  by (rule simI) (auto simp: restore_list_def w_restore_def intro: rep_free)

lemma sim_no_page [sims]: "simulates s0 P no_page (w_test (\<lambda>w. wfree w = None))"
  by (rule test_sim) (simp add: no_page_def page_alloc_def repD(3))

lemma sim_null [sims]: "simulates s0 P (lookup_null va) (w_null (unat (npages s0)) P va)"
proof (rule simI)
  fix s w w' assume r: "rep s0 P s w" and "w_null (unat (npages s0)) P va w = Some w'"
  then have "w_walk (unat (npages s0)) P va False w = Some (None, w')" by (auto simp: w_null_def split: option.splits)
  from w_walk_sim [OF r this] show "\<exists>s'. lookup_null va s = Inr s' \<and> rep s0 P s' w'"
    by (auto simp: lookup_null_def page_lookup_def)
qed

lemma sim_inserts:
  assumes f: "\<And>s. f s = bindR (page_insert (kern_pgdir s) pp va perm s) g" and g: "\<And>n s. ok n \<Longrightarrow> g (n, s) = Inr s"
  shows "simulates s0 P f (w_inserts (unat (npages s0)) P ok pp va perm)"
proof (rule simI)
  fix s w w' assume r: "rep s0 P s w" and "w_inserts (unat (npages s0)) P ok pp va perm w = Some w'"
  then obtain n where n: "w_insert (unat (npages s0)) P pp va perm w = Some (n, w')" "ok n"
    by (auto simp: w_inserts_def split: option.splits if_splits)
  from w_insert_sim [OF r n(1)] show "\<exists>s'. f s = Inr s' \<and> rep s0 P s' w'" using n(2) by (auto simp: f g)
qed

lemma sim_insert [sims]:
  "simulates s0 P (insert_ok pp va perm) (w_inserts (unat (npages s0)) P (\<lambda>n. n = 0) pp va perm)"
  "simulates s0 P (insert_fails pp va perm) (w_inserts (unat (npages s0)) P (\<lambda>n. n < 0) pp va perm)"
  "simulates s0 P (insert_any pp va perm) (w_inserts (unat (npages s0)) P (\<lambda>n. True) pp va perm)"
  by (rule sim_inserts, rule insert_ok_def insert_fails_def insert_any_def, simp)+

lemma sim_remove [sims]: "simulates s0 P (remove_at va) (w_remove (unat (npages s0)) P va)"
  by (rule simI) (simp add: remove_at_def w_remove_sim)

lemma sim_free [sims]: "simulates s0 P (page_free pp) (w_free (unat (npages s0)) pp)"
  by (rule simI) (rule w_free_sim)

lemma sim_maps [sims]: "simulates s0 P (maps_at va pa) (w_test (\<lambda>w. w_va2pa (unat (npages s0)) P va w = Some pa))"
  by (rule test_sim) (simp add: maps_at_def va2pa_is_def w_va2pa_sim)

lemma get_page_rep: "rep s0 P s w \<Longrightarrow> pp < unat (npages s0) \<Longrightarrow> get_page s pp = Inr (winfo w pp)"
  by (simp add: get_page_def repD)

lemma sim_ref [sims]: "simulates s0 P (ref_is pp n) (w_test (w_ref (unat (npages s0)) pp n))"
  by (rule test_sim) (simp add: ref_is_def w_ref_def get_page_rep)

lemma sim_used [sims]: "simulates s0 P (still_used pp) (w_test (w_used (unat (npages s0)) pp))"
  by (rule test_sim) (simp add: still_used_def w_used_def get_page_rep)

lemma sim_takes [sims]: "simulates s0 P (alloc_is pp) (w_takes (unat (npages s0)) pp)"
  using w_alloc_sim [where flags = 0]
  by (intro simI) (fastforce simp: alloc_is_def w_takes_def take_page_def split: option.splits if_splits)

lemma pde_at_rep: "rep s0 P s w \<Longrightarrow> unat i < 1024 \<Longrightarrow> pde_at i s = wword w P (unat i)"
  using repD(12) [of s0 P s w P "unat i"] by (simp add: pde_at_def repD(1,7) kaddr_index pword_def)

lemma sim_pde_is [sims]: "simulates s0 P (pde_is i pp) (w_test (w_pde P i (\<lambda>e. PTE_ADDR e = page2pa pp)))"
  by (rule test_sim) (simp add: pde_is_def w_pde_def pde_at_rep)

lemma sim_pde_has [sims]: "simulates s0 P (pde_has i flag) (w_test (w_pde P i (\<lambda>e. e AND flag \<noteq> 0)))"
  by (rule test_sim) (simp add: pde_has_def w_pde_def pde_at_rep)

lemma sim_clear [sims]: "simulates s0 P (clear_pde i) (w_clear P i)"
  by (rule simI) (auto simp: clear_pde_def w_clear_def repD(1) kaddr_index split: if_splits intro: rep_store repD(7))

lemma sim_set_ref [sims]: "simulates s0 P (set_ref pp n) (w_set_ref (unat (npages s0)) pp n)"
  by (rule simI) (auto simp: set_ref_def w_set_ref_def get_page_rep set_page_def split: if_splits intro: rep_info)

lemma sim_pte [sims]: "simulates s0 P (pte_test va ok) (w_pte (unat (npages s0)) P va ok)"
proof (rule simI)
  fix s w w' assume r: "rep s0 P s w" and a: "w_pte (unat (npages s0)) P va ok w = Some w'"
  obtain T i where b: "w_walk (unat (npages s0)) P va False w = Some (Some (T, i), w')" "ok (wword w' T i)"
    using a by (auto simp: w_pte_def split: option.splits if_splits)
  from r b(1) show "\<exists>s'. pte_test va ok s = Inr s' \<and> rep s0 P s' w'"
    by (cases rule: w_walk_cases) (use b(2) in \<open>auto simp: pte_test_def\<close>)
qed

lemma sim_walk [sims]: "simulates s0 P (walk_is va create) (w_walks (unat (npages s0)) P va create)"
proof (rule simI)
  fix s w w' assume r: "rep s0 P s w" and a: "w_walks (unat (npages s0)) P va create w = Some w'"
  obtain T i where b: "w_walk (unat (npages s0)) P va create w = Some (Some (T, i), w')"
    using a by (auto simp: w_walks_def split: option.splits)
  from r b show "\<exists>s'. walk_is va create s = Inr s' \<and> rep s0 P s' w'"
  proof (cases rule: w_walk_cases)
    case (2 s' T i)
    have "pde_at (PDX va) s' = wword w' P (fst (key va))" using pde_at_rep [OF 2(3)] by (simp add: key_def PDX_less)
    then show ?thesis using 2 w_KADDR [OF 2(3), of "wword w' P (fst (key va))"] by (simp add: walk_is_def kaddr_key)
  qed simp
qed

lemma sim_walk_create [sims]: "simulates s0 P (walk_create va) (w_walks (unat (npages s0)) P va True)"
proof (rule simI)
  fix s w w' assume r: "rep s0 P s w" and "w_walks (unat (npages s0)) P va True w = Some w'"
  then obtain x where "w_walk (unat (npages s0)) P va True w = Some (Some x, w')" by (auto simp: w_walks_def split: option.splits)
  from w_walk_sim [OF r this] show "\<exists>s'. walk_create va s = Inr s' \<and> rep s0 P s' w'"
    by (auto simp: walk_create_def)
qed

lemma page2kva_rep: "rep s0 P s w \<Longrightarrow> pp < unat (npages s0) \<Longrightarrow> page2kva s pp = Inr (kaddr pp 0)"
  by (simp add: page2kva_ok repD(2,8))

lemma sim_fill [sims]: "simulates s0 P (fill_page pp c) (w_fill (unat (npages s0)) pp c)"
  by (rule simI) (auto simp: fill_page_def w_fill_def page2kva_rep split: if_splits intro: rep_fill repD(11))

lemma sim_empty [sims]: "simulates s0 P (table_empty pp) (w_test (w_empty (unat (npages s0)) pp))"
proof (rule test_sim)
  fix s w assume r: "rep s0 P s w" and e: "w_empty (unat (npages s0)) pp w"
  then have "ld32 (kmem s) (kaddr pp 0 + 4 * word_of_nat i) AND PTE_P = 0" if "i < 1024" for i
    using that repD(12) [OF r, of pp i] repD(11) [OF r, of pp] unat_of_nat32 [of i]
    by (simp add: w_empty_def kaddr_index pword_def present_def)
  then show "table_empty pp s = Inr s" using e by (simp add: table_empty_def page2kva_rep [OF r] w_empty_def NPTENTRIES_def)
qed

section \<open>Runs\<close>

text \<open>The statements of \<open>check_page\<close> up to the return of the free list.\<close>

definition w_page_steps :: "nat \<Rightarrow> nat \<Rightarrow> nat \<Rightarrow> nat \<Rightarrow> nat \<Rightarrow> nat option \<Rightarrow> (wmachine \<Rightarrow> wmachine option) list" where
  "w_page_steps N P a b c fl =
    (let none = w_test (\<lambda>w. wfree w = None);
         insert_ok = w_inserts N P (\<lambda>n. n = 0); insert_fails = w_inserts N P (\<lambda>n. n < 0);
         maps = (\<lambda>va pa. w_test (\<lambda>w. w_va2pa N P va w = Some pa)); ref_is = (\<lambda>x n. w_test (w_ref N x n));
         remove = w_remove N P
     in
     [w_restore None, none, w_null N P 0, insert_fails b 0 PTE_W,
      w_free N a, insert_ok b 0 PTE_W, w_test (w_pde P 0 (\<lambda>e. PTE_ADDR e = page2pa a)), maps 0 (page2pa b), ref_is b 1, ref_is a 1,
      insert_ok c PGSIZE PTE_W, maps PGSIZE (page2pa c), ref_is c 1, none,
      insert_ok c PGSIZE PTE_W, maps PGSIZE (page2pa c), ref_is c 1, none,
      w_walks N P PGSIZE False,
      insert_ok c PGSIZE (PTE_W OR PTE_U), maps PGSIZE (page2pa c), ref_is c 1,
      w_pte N P PGSIZE (\<lambda>e. e AND PTE_U \<noteq> 0), w_test (w_pde P 0 (\<lambda>e. e AND PTE_U \<noteq> 0)),
      insert_ok c PGSIZE PTE_W, w_pte N P PGSIZE (\<lambda>e. e AND PTE_W \<noteq> 0), w_pte N P PGSIZE (\<lambda>e. e AND PTE_U = 0),
      insert_fails a PTSIZE PTE_W,
      insert_ok b PGSIZE PTE_W, w_pte N P PGSIZE (\<lambda>e. e AND PTE_U = 0),
      maps 0 (page2pa b), maps PGSIZE (page2pa b), ref_is b 2, ref_is c 0,
      w_takes N c,
      remove 0, maps 0 (NOT 0), maps PGSIZE (page2pa b), ref_is b 1, ref_is c 0,
      insert_ok b PGSIZE 0, w_test (w_used N b),
      remove PGSIZE, maps 0 (NOT 0), maps PGSIZE (NOT 0), ref_is b 0, ref_is c 0,
      w_takes N b, none,
      w_test (w_pde P 0 (\<lambda>e. PTE_ADDR e = page2pa a)), w_clear P 0, ref_is a 1, w_set_ref N a 0,
      w_free N a, w_walks N P (PGSIZE * NPDENTRIES + PGSIZE) True, w_clear P (PDX (PGSIZE * NPDENTRIES + PGSIZE)),
      w_set_ref N a 0,
      w_fill N a 0xFF, w_free N a, w_walks N P 0 True, w_test (w_empty N a), w_clear P 0, w_set_ref N a 0,
      w_restore fl])"

lemma page_steps_sim:
  "list_all2 (simulates s0 P) (butlast (check_page_steps a b c fl)) (w_page_steps (unat (npages s0)) P a b c fl)"
  unfolding check_page_steps_def w_page_steps_def Let_def by (simp add: sims)

text \<open>The entries.\<close>

lemma take_bit_flags: "f < 4096 \<Longrightarrow> take_bit 12 f = (f :: u32)"
  by (simp add: word_unat_eq_iff unsigned_take_bit_eq take_bit_nat_eq_self word_less_nat_alt)

lemma entry_flag:
  assumes "g < 4096" shows "(page2pa x OR f) AND g = f AND g"
proof -
  have g: "take_bit 12 g = g" using assms by (rule take_bit_flags)
  have "\<not> bit g n" if "12 \<le> n" for n using that by (subst g [symmetric]) (simp add: bit_simps)
  then show ?thesis
    by (intro bit_word_eqI) (auto simp: bit_simps page2pa_def PGSHIFT_def not_le)
qed

lemma page2pa_aligned: "take_bit 12 (page2pa x) = 0"
  by (rule bit_word_eqI) (auto simp: page2pa_def PGSHIFT_def bit_simps)

lemma table_entry_grants: "grants_all (table_entry x)"
  by (simp add: table_entry_def grants_pde)

lemma table_entry_simps:
  "present (table_entry x)" "x < 65536 \<Longrightarrow> pte_page (table_entry x) = x" "PTE_ADDR (table_entry x) = page2pa x"
  "table_entry x AND PTE_U \<noteq> 0"
proof -
  show "present (table_entry x)" by (simp add: table_entry_def present_pde)
  show "x < 65536 \<Longrightarrow> pte_page (table_entry x) = x" by (simp add: table_entry_def pte_page_pde)
  show "PTE_ADDR (table_entry x) = page2pa x"
    unfolding table_entry_def or.assoc
    by (rule PTE_ADDR_flags [OF page2pa_aligned]) (simp add: PTE_P_def PTE_W_def PTE_U_def)
  show "table_entry x AND PTE_U \<noteq> 0"
    using entry_flag [of PTE_U x "PTE_P OR PTE_W OR PTE_U"] by (simp add: table_entry_def or.assoc PTE_P_def PTE_W_def PTE_U_def)
qed

lemma page_entry_simps:
  "present (page_entry x f)" "x < 65536 \<Longrightarrow> f < 4096 \<Longrightarrow> pte_page (page_entry x f) = x"
  "f < 4096 \<Longrightarrow> PTE_ADDR (page_entry x f) = page2pa x"
  "g < 4096 \<Longrightarrow> page_entry x f AND g = (f OR PTE_P) AND g"
proof -
  show "present (page_entry x f)" by (simp add: page_entry_def)
  show "x < 65536 \<Longrightarrow> f < 4096 \<Longrightarrow> pte_page (page_entry x f) = x" by (simp add: page_entry_def pte_page_perm)
  show "PTE_ADDR (page_entry x f) = page2pa x" if "f < 4096"
  proof -
    have "take_bit 12 (f OR PTE_P) = f OR PTE_P" using that by (intro take_bit_flags or_PTE_P_less)
    then show ?thesis unfolding page_entry_def or.assoc by (rule PTE_ADDR_flags [OF page2pa_aligned])
  qed
  show "g < 4096 \<Longrightarrow> page_entry x f AND g = (f OR PTE_P) AND g" by (simp add: page_entry_def or.assoc entry_flag)
qed

lemma flag_consts: "PTE_W \<noteq> 0" "((PTE_W OR PTE_U) OR PTE_P) AND PTE_U \<noteq> 0" "PTE_W < 4096" "PTE_U < 4096" "PTE_W OR PTE_U < 4096" "(PTE_W OR PTE_P) AND PTE_U = 0"
  "(PTE_W OR PTE_P) AND PTE_W \<noteq> 0" "(PTE_W OR PTE_U OR PTE_P) AND PTE_U \<noteq> 0"
  by (simp_all add: PTE_W_def PTE_U_def PTE_P_def)

lemma test_keys: "key 0 = (0, 0)" "key PGSIZE = (0, Suc 0)" "key PTSIZE = (Suc 0, 0)"
  "key (PGSIZE * NPDENTRIES + PGSIZE) = (Suc 0, Suc 0)" "unat (PDX (PGSIZE * NPDENTRIES + PGSIZE)) = Suc 0"
  by (simp_all add: key_def unat_PDX unat_PTX jos_consts)

lemmas w_ops = w_alloc_def w_free_def w_decref_def w_walk_def w_remove_def w_insert_def w_va2pa_def w_test_def
  w_restore_def w_null_def w_inserts_def w_takes_def w_clear_def w_set_ref_def w_pte_def w_walks_def w_fill_def
  w_ref_def w_used_def w_pde_def w_empty_def

lemmas entry_simps = table_entry_simps page_entry_simps flag_consts test_keys not_present_0

text \<open>The whole run leaves the machine as it was, but for the words of the page \<open>a\<close>, which are cleared,
  and the translation cache.\<close>

lemma page_steps_run:
  assumes d: "distinct [P, a, b, c]" and lt: "a < N" "b < N" "c < N" "P < N" "N \<le> 65536"
    and w: "\<forall>x\<in>{a, b, c}. winfo w x = \<lparr>pp_link = None, pp_ref = 0\<rparr>" "wword w P 0 = 0" "wword w P (Suc 0) = 0"
  shows "w_run (w_page_steps N P a b c fl) w =
    Some (w\<lparr>wfree := fl, wtlb := (wtlb w)(PGNUM PGSIZE := None, PGNUM 0 := None), wword := (wword w)(a := \<lambda>_. 0)\<rparr>)"
proof -
  let ?o = "\<lparr>pp_link = None, pp_ref = 0\<rparr> :: page_info"
  have ne: "P \<noteq> a" "P \<noteq> b" "P \<noteq> c" "a \<noteq> b" "a \<noteq> c" "b \<noteq> c" "a \<noteq> P" "b \<noteq> P" "c \<noteq> P" "b \<noteq> a" "c \<noteq> a" "c \<noteq> b"
    and lt': "a < 65536" "b < 65536" "c < 65536" using d lt by auto
  have wi: "winfo w a = ?o" "winfo w b = ?o" "winfo w c = ?o" using w(1) by simp_all
  have "(wword w P)(Suc 0 := 0, 0 := 0) = wword w P" using w(2,3) by auto
  then have M: "(wword w)(a := \<lambda>_. 0, P := (wword w P)(Suc 0 := 0, 0 := 0)) = (wword w)(a := \<lambda>_. 0)" using ne by auto
  have I: "(winfo w)(c := ?o, b := ?o, a := ?o) = winfo w" using wi by auto
  have "w_run (w_page_steps N P a b c fl) w =
    Some (w\<lparr>wtlb := (wtlb w)(PGNUM PGSIZE := None, PGNUM 0 := None),
      wword := (wword w)(a := \<lambda>_. 0, P := (wword w P)(Suc 0 := 0, 0 := 0)), winfo := (winfo w)(c := ?o, b := ?o, a := ?o), wfree := fl\<rparr>)"
    unfolding w_page_steps_def Let_def by (simp add: w_ops entry_simps ne lt lt' wi w(2,3) E_NO_MEM_def Let_def)
  then show ?thesis unfolding M I by simp
qed

section \<open>check_page\<close>

lemma run_steps_append: "run_steps (fs @ gs) s = bindR (run_steps fs s) (run_steps gs)"
proof (induction fs arbitrary: s)
  case (Cons f fs)
  then have "run_steps (fs @ gs) = (\<lambda>s. bindR (run_steps fs s) (run_steps gs))" by blast
  then show ?case by (simp add: bindR_assoc)
qed simp

definition word_view :: "kstate \<Rightarrow> wmachine" where
  "word_view s = \<lparr>wfree = page_free_list s, winfo = (!) (pages s), wword = pword (kmem s), wtlb = tlb s\<rparr>"

lemma rep_view:
  "kern_pgdir s = kaddr P 0 \<Longrightarrow> P < unat (npages s) \<Longrightarrow> npages s \<le> 0x10000 \<Longrightarrow> length (pages s) = unat (npages s) \<Longrightarrow>
    rep s P s (word_view s)"
  by (simp add: rep_def same_machine_def word_view_def)

text \<open>A simulated run that gives the pages back as they were changes only memory and the cache.\<close>

lemma rep_back:
  assumes "rep s0 P s w" "winfo w = winfo (word_view s0)" "length (pages s0) = unat (npages s0)"
  shows "s = s0\<lparr>page_free_list := wfree w, kmem := kmem s, tlb := wtlb w\<rparr>"
proof -
  have "pages s = pages s0"
    using assms repD(9,10) [OF assms(1)] by (intro nth_equalityI) (simp_all add: word_view_def)
  then show ?thesis using assms(1) by (simp add: rep_def same_machine_def)
qed



text \<open>The first three pages of a free list.\<close>

lemma free_chain_three:
  assumes "free_chain s (x # y # z # xs)"
  shows "page_free_list s = Some x" "pages s ! x = \<lparr>pp_link = Some y, pp_ref = 0\<rparr>" "pages s ! y = \<lparr>pp_link = Some z, pp_ref = 0\<rparr>"
    "pages s ! z = \<lparr>pp_link = pp_link (pages s ! z), pp_ref = 0\<rparr>" "distinct [x, y, z]"
    "\<forall>i\<in>{x, y, z}. i < unat (npages s)" "\<forall>i\<in>{x, y, z}. i < length (pages s)" "path (pages s) (pp_link (pages s ! z)) xs None"
  using free_chainD [OF assms] free_chainD(6) [OF assms, of x] free_chainD(6) [OF assms, of y] free_chainD(6) [OF assms, of z]
  by (auto intro!: page_info.equality)

lemma check_page_ok:
  assumes fl: "free_list s (x # y # z # xs)" and dir: "kern_pgdir s = kaddr P 0" "P < unat (npages s)" "P \<notin> {x, y, z}"
    and empty: "pword (kmem s) P 0 = 0" "pword (kmem s) P (Suc 0) = 0"
  shows "\<exists>ps m t. check_page s = Inr (s\<lparr>pages := ps, page_free_list := Some z, kmem := m, tlb := t\<rparr>) \<and>
    free_list (s\<lparr>pages := ps, page_free_list := Some z, kmem := m, tlb := t\<rparr>) (z # y # x # xs) \<and>
    (\<forall>i<length (pages s). pp_ref (ps ! i) = pp_ref (pages s ! i)) \<and>
    (\<forall>q<65536. q \<noteq> x \<longrightarrow> (\<forall>i<1024. pword m q i = pword (kmem s) q i))"
proof -
  note f = free_chainD [OF free_list_chain [OF fl]] and t = free_chain_three [OF free_list_chain [OF fl]]
  let ?o = "\<lparr>pp_link = None, pp_ref = 0\<rparr> :: page_info"
  define l where "l = pp_link (pages s ! z)"
  define ps where "ps = (pages s)[x := ?o, y := ?o, z := ?o]"
  let ?s3 = "s\<lparr>page_free_list := l, pages := ps\<rparr>"
  have ps: "length ps = unat (npages s)" "ps ! x = ?o" "ps ! y = ?o" "ps ! z = ?o"
    using t(5,7) f(2) by (auto simp: ps_def)
  have t3: "take_three s = Inr (x, y, z, ?s3)"
    unfolding ps_def l_def using take_three_front [OF t(1-6) f(2,3)] .
  have r: "rep ?s3 P ?s3 (word_view ?s3)" using dir f(3) ps(1) by (intro rep_view) simp_all
  have run: "w_run (w_page_steps (unat (npages ?s3)) P x y z l) (word_view ?s3) = Some (word_view ?s3\<lparr>wfree := l,
      wtlb := (wtlb (word_view ?s3))(PGNUM PGSIZE := None, PGNUM 0 := None), wword := (wword (word_view ?s3))(x := \<lambda>_. 0)\<rparr>)"
    using t(5,6) dir(2,3) f(3) ps(2-4) empty
    by (intro page_steps_run) (auto simp: word_view_def word_le_nat_alt)
  obtain s4 where s4: "run_steps (butlast (check_page_steps x y z l)) ?s3 = Inr s4" "rep ?s3 P s4 (word_view ?s3\<lparr>wfree := l,
      wtlb := (wtlb (word_view ?s3))(PGNUM PGSIZE := None, PGNUM 0 := None), wword := (wword (word_view ?s3))(x := \<lambda>_. 0)\<rparr>)"
    using run_sim [OF page_steps_sim [of ?s3 P x y z l]] r run unfolding simulates_def by blast
  have "s4 = s\<lparr>pages := ps, page_free_list := l, kmem := kmem s4, tlb := (tlb s)(PGNUM PGSIZE := None, PGNUM 0 := None)\<rparr>"
    using rep_back [OF s4(2)] ps(1) by (simp add: word_view_def)
  then obtain m tl where e: "s4 = s\<lparr>pages := ps, page_free_list := l, kmem := m, tlb := tl\<rparr>" by blast
  have m: "pword m q i = pword (kmem s) q i" if "q < 65536" "q \<noteq> x" "i < 1024" for q i
    using repD(12) [OF s4(2) that(1,3)] that(2) unfolding e by (simp add: word_view_def)
  define qs where "qs = ps[x := \<lparr>pp_link = l, pp_ref = 0\<rparr>, y := \<lparr>pp_link = Some x, pp_ref = 0\<rparr>, z := \<lparr>pp_link = Some y, pp_ref = 0\<rparr>]"
  let ?t = "s\<lparr>pages := qs, page_free_list := Some z, kmem := m, tlb := tl\<rparr>"
  have "free_three x y z s4 = Inr ?t"
    using free_three_front [of s4 x y z] ps t(5,6) by (simp add: e qs_def)
  moreover have "check_page_steps x y z l = butlast (check_page_steps x y z l) @ [free_three x y z]"
    by (simp add: check_page_steps_def)
  then have "check_page s = bindR (run_steps (butlast (check_page_steps x y z l)) ?s3) (run_steps [free_three x y z])"
    unfolding check_page_def t3 by (simp add: run_steps_append [symmetric])
  ultimately have c: "check_page s = Inr ?t" using s4(1) by simp
  have q: "qs ! i = (if i = x then \<lparr>pp_link = l, pp_ref = 0\<rparr> else if i = y then \<lparr>pp_link = Some x, pp_ref = 0\<rparr>
      else if i = z then \<lparr>pp_link = Some y, pp_ref = 0\<rparr> else pages s ! i)" if "i < unat (npages s)" for i
    using that t(5) f(2) by (auto simp: qs_def ps_def nth_list_update)
  have "x \<notin> set xs" "y \<notin> set xs" "z \<notin> set xs" using f(4) by auto
  then have "path qs l xs None" using t(8) by (simp add: qs_def ps_def l_def)
  then have "path qs (Some z) (z # y # x # xs) None"
    using q t(5,6) f(2) by (simp add: qs_def ps_def)
  moreover have "pp_ref (qs ! i) = pp_ref (pages s ! i)" if "i < unat (npages s)" for i
    using q [OF that] t(2-4) by (auto split: if_splits) (metis page_info.select_convs(2))
  moreover have "pp_link (qs ! i) = None" if "i < unat (npages s)" "i \<notin> set (z # y # x # xs)" for i
    using q [OF that(1)] that(2) free_list_unlinked [OF fl, of i] that(1) f(2) by auto
  moreover have "length qs = unat (npages s)" using ps(1) by (simp add: qs_def)
  ultimately have "free_list ?t (z # y # x # xs)" "\<forall>i<length (pages s). pp_ref (qs ! i) = pp_ref (pages s ! i)"
    using f(2,3,5,6) by (auto simp: free_list_def free_chain_def)
  then show ?thesis using c m by blast
qed

end
