(* ===== verification/Installed_Test.thy ===== *)
theory Installed_Test
  imports Page_Tests
begin

text \<open>
  \<open>check_page_installed_pgdir\<close>: the test of the page tables through the processor. The abstract machine
  gets the two accesses to a virtual address.
\<close>

section \<open>Accesses to virtual memory\<close>

definition w_mmu :: "nat \<Rightarrow> u32 \<Rightarrow> wmachine \<Rightarrow> (u32 \<times> wmachine) option" where
  "w_mmu P va w =
     (case wtlb w (PGNUM va) of
        Some e \<Rightarrow> Some (e, w)
      | None \<Rightarrow>
          let pde = wword w P (fst (key va)); pte = wword w (pte_page pde) (snd (key va))
          in if present pde \<and> grants_all pde \<and> pte_page pde < 65536 \<and> present pte
             then Some (pte, w\<lparr>wtlb := (wtlb w)(PGNUM va := Some pte)\<rparr>) else None)"

definition w_reads :: "nat \<Rightarrow> u32 \<Rightarrow> u32 \<Rightarrow> wmachine \<Rightarrow> wmachine option" where
  "w_reads P va v w =
     (case w_mmu P va w of
        Some (e, w) \<Rightarrow>
          if pte_page e < 65536 \<and> unat (PGOFF va) mod 4 = 0 \<and> wword w (pte_page e) (unat (PGOFF va) div 4) = v then Some w else None
      | None \<Rightarrow> None)"

definition w_writes :: "nat \<Rightarrow> u32 \<Rightarrow> u32 \<Rightarrow> wmachine \<Rightarrow> wmachine option" where
  "w_writes P va v w =
     (case w_mmu P va w of
        Some (e, w) \<Rightarrow>
          if pte_page e < 65536 \<and> unat (PGOFF va) mod 4 = 0 \<and> e AND PTE_W \<noteq> 0
          then Some (set_word (pte_page e) (unat (PGOFF va) div 4) v w) else None
      | None \<Rightarrow> None)"

definition w_word_is :: "nat \<Rightarrow> nat \<Rightarrow> u32 \<Rightarrow> wmachine \<Rightarrow> bool" where
  "w_word_is N pp v w \<longleftrightarrow> pp < N \<and> wword w pp 0 = v"

lemma unat_PTX_less: "unat (PGOFF va) div 4 < 1024"
  using unat_PGOFF [of va] by (simp add: div_less_iff_less_mult)

lemma kaddr_off:
  assumes "unat (PGOFF va) mod 4 = 0"
  shows "KERNBASE + PTE_ADDR e + PGOFF va = kaddr (pte_page e) (unat (PGOFF va) div 4)"
proof -
  have "PGOFF va = word_of_nat (4 * (unat (PGOFF va) div 4))" using assms by (simp add: mult_div_mod_eq [symmetric] flip: minus_mod_eq_mult_div)
  then show ?thesis by (simp add: kaddr_def PTE_ADDR_eq)
qed

lemma w_mmu_sim:
  assumes r: "rep s0 P s w" and c: "PTE_ADDR (cr3 s0) = page2pa P" and a: "w_mmu P va w = Some (e, w')"
  shows "\<exists>s'. mmu_entry va s = Inr (e, s') \<and> rep s0 P s' w'"
proof (cases "wtlb w (PGNUM va)")
  case (Some e')
  then show ?thesis using a r by (auto simp: w_mmu_def mmu_entry_def repD(4))
next
  case None
  let ?d = "wword w P (fst (key va))"
  have cr: "PTE_ADDR (cr3 s) = page2pa P" using c repD(5) [OF r] by simp
  have P: "pte_page (cr3 s) = P" using cr unat_PTE_ADDR [of "cr3 s"] unat_page2pa [of P] repD(7) [OF r] by simp
  have pde: "ld32 (kmem s) (KERNBASE + PTE_ADDR (cr3 s) + 4 * PDX va) = ?d"
    using repD(12) [OF r repD(7) [OF r], of "fst (key va)"] kaddr_entry [of "cr3 s" "PDX va"]
    by (simp add: P pword_def key_def PDX_less add.commute)
  have b: "present ?d" "pte_page ?d < 65536" "present (wword w (pte_page ?d) (snd (key va)))"
    "e = wword w (pte_page ?d) (snd (key va))" "w' = w\<lparr>wtlb := (wtlb w)(PGNUM va := Some e)\<rparr>"
    "grants_all ?d"
    using None a by (auto simp: w_mmu_def Let_def split: if_splits)
  have "ld32 (kmem s) (KERNBASE + PTE_ADDR ?d + 4 * PTX va) = e"
    using repD(12) [OF r b(2), of "snd (key va)"] kaddr_entry [of ?d "PTX va"]
    by (simp add: b(4) pword_def key_def PTX_less add.commute)
  then have "mmu_entry va s = Inr (e, s\<lparr>tlb := (tlb s)(PGNUM va := Some e)\<rparr>)"
    using None pde b(1,3,4) both_permit_grants [OF b(6)] by (simp add: mmu_entry_def repD(4) [OF r] Let_def not_present_iff)
  then show ?thesis using rep_tlb [OF r, of "(wtlb w)(PGNUM va := Some e)"] b(5) repD(4) [OF r] by simp
qed

lemma sim_reads:
  assumes c: "PTE_ADDR (cr3 s0) = page2pa P" shows "simulates s0 P (reads_word va v) (w_reads P va v)"
proof (rule simI)
  fix s w w' assume r: "rep s0 P s w" and a: "w_reads P va v w = Some w'"
  then obtain e where e: "w_mmu P va w = Some (e, w')" "pte_page e < 65536" "unat (PGOFF va) mod 4 = 0"
    "wword w' (pte_page e) (unat (PGOFF va) div 4) = v" by (auto simp: w_reads_def split: option.splits if_splits)
  obtain s' where s': "mmu_entry va s = Inr (e, s')" "rep s0 P s' w'" using w_mmu_sim [OF r c e(1)] by blast
  have "ld32 (kmem s') (KERNBASE + PTE_ADDR e + PGOFF va) = v"
    using repD(12) [OF s'(2) e(2) unat_PTX_less] e(4) by (simp add: kaddr_off [OF e(3)] pword_def)
  then show "\<exists>s'. reads_word va v s = Inr s' \<and> rep s0 P s' w'" using s' by (simp add: reads_word_def vm_read_def)
qed

lemma sim_writes:
  assumes c: "PTE_ADDR (cr3 s0) = page2pa P" shows "simulates s0 P (vm_write va v) (w_writes P va v)"
proof (rule simI)
  fix s w w' assume r: "rep s0 P s w" and a: "w_writes P va v w = Some w'"
  then obtain e w1 where e: "w_mmu P va w = Some (e, w1)" "pte_page e < 65536" "unat (PGOFF va) mod 4 = 0" "e AND PTE_W \<noteq> 0"
    "w' = set_word (pte_page e) (unat (PGOFF va) div 4) v w1" by (auto simp: w_writes_def split: option.splits if_splits)
  obtain s' where s': "mmu_entry va s = Inr (e, s')" "rep s0 P s' w1" using w_mmu_sim [OF r c e(1)] by blast
  then show "\<exists>s'. vm_write va v s = Inr s' \<and> rep s0 P s' w'"
    using rep_store [OF s'(2) e(2) unat_PTX_less] e(4,5) by (auto simp: vm_write_def kaddr_off [OF e(3)])
qed

lemma sim_word_is [sims]: "simulates s0 P (page_word_is pp v) (w_test (w_word_is (unat (npages s0)) pp v))"
proof (rule test_sim)
  fix s w assume r: "rep s0 P s w" and "w_word_is (unat (npages s0)) pp v w"
  then have "pp < unat (npages s0)" "wword w pp 0 = v" by (simp_all add: w_word_is_def)
  then show "page_word_is pp v s = Inr s"
    using repD(12) [OF r repD(11) [OF r], of pp 0] by (simp add: page_word_is_def page2kva_rep [OF r] pword_def)
qed

section \<open>The run\<close>

definition w_installed_steps :: "nat \<Rightarrow> nat \<Rightarrow> nat \<Rightarrow> nat \<Rightarrow> nat \<Rightarrow> (wmachine \<Rightarrow> wmachine option) list" where
  "w_installed_steps N P a b c =
    (let insert_any = w_inserts N P (\<lambda>n. True); ref_is = (\<lambda>x n. w_test (w_ref N x n)) in
     [w_free N a, w_fill N b 1, w_fill N c 2,
      insert_any b PGSIZE PTE_W, ref_is b 1, w_reads P PGSIZE 0x01010101,
      insert_any c PGSIZE PTE_W, w_reads P PGSIZE 0x02020202, ref_is c 1, ref_is b 0,
      w_writes P PGSIZE 0x03030303, w_test (w_word_is N c 0x03030303),
      w_remove N P PGSIZE, ref_is c 0,
      w_test (w_pde P 0 (\<lambda>e. PTE_ADDR e = page2pa a)), w_clear P 0, ref_is a 1, w_set_ref N a 0, w_free N a])"

lemma installed_steps_sim:
  "PTE_ADDR (cr3 s0) = page2pa P \<Longrightarrow>
    list_all2 (simulates s0 P) (installed_steps a b c) (w_installed_steps (unat (npages s0)) P a b c)"
  unfolding installed_steps_def w_installed_steps_def Let_def by (simp add: sims sim_reads sim_writes)

lemma fill_words: "fill_word 1 = 0x01010101" "fill_word 2 = 0x02020202"
  by (simp_all add: fill_word_def ld32_def)

lemma PGSIZE_offset: "unat (PGOFF PGSIZE) = 0"
  by (simp add: unat_PGOFF PGSIZE_def)

lemma installed_steps_run:
  assumes d: "distinct [P, a, b, c]" and lt: "a < N" "b < N" "c < N" "P < N" "N \<le> 65536"
    and w: "\<forall>x\<in>{a, b, c}. winfo w x = \<lparr>pp_link = None, pp_ref = 0\<rparr>" "wword w P 0 = 0" "wtlb w (PGNUM PGSIZE) = None"
  shows "\<exists>M. w_run (w_installed_steps N P a b c) w = Some (w\<lparr>wfree := Some a,
      winfo := (winfo w)(b := \<lparr>pp_link = wfree w, pp_ref = 0\<rparr>, c := \<lparr>pp_link = Some b, pp_ref = 0\<rparr>, a := \<lparr>pp_link = Some c, pp_ref = 0\<rparr>),
      wword := M, wtlb := (wtlb w)(PGNUM PGSIZE := None)\<rparr>) \<and> (\<forall>q. q \<notin> {a, b, c} \<longrightarrow> M q = wword w q)"
proof -
  let ?o = "\<lparr>pp_link = None, pp_ref = 0\<rparr> :: page_info"
  have ne: "P \<noteq> a" "P \<noteq> b" "P \<noteq> c" "a \<noteq> b" "a \<noteq> c" "b \<noteq> c" "a \<noteq> P" "b \<noteq> P" "c \<noteq> P" "b \<noteq> a" "c \<noteq> a" "c \<noteq> b"
    and lt': "a < 65536" "b < 65536" "c < 65536" using d lt by auto
  have wi: "winfo w a = ?o" "winfo w b = ?o" "winfo w c = ?o" using w(1) by simp_all
  let ?M = "(wword w)(b := \<lambda>_. 0x01010101, c := (\<lambda>_. 0x02020202)(0 := 0x03030303), a := (\<lambda>_. 0)(Suc 0 := 0), P := (wword w P)(0 := 0))"
  have "w_run (w_installed_steps N P a b c) w = Some (w\<lparr>wfree := Some a,
      winfo := (winfo w)(b := \<lparr>pp_link = wfree w, pp_ref = 0\<rparr>, c := \<lparr>pp_link = Some b, pp_ref = 0\<rparr>, a := \<lparr>pp_link = Some c, pp_ref = 0\<rparr>),
      wword := ?M, wtlb := (wtlb w)(PGNUM PGSIZE := None)\<rparr>)"
    unfolding w_installed_steps_def Let_def
    by (simp add: w_ops w_mmu_def w_reads_def w_writes_def w_word_is_def fill_words PGSIZE_offset
        entry_simps table_entry_grants ne lt lt' wi w(2,3) E_NO_MEM_def Let_def)
  moreover have "(wword w P)(0 := 0) = wword w P" using w(2) by auto
  then have "\<forall>q. q \<notin> {a, b, c} \<longrightarrow> ?M q = wword w q" by simp
  ultimately show ?thesis by blast
qed

section \<open>check_page_installed_pgdir\<close>

lemma check_page_installed_ok:
  assumes fl: "free_list s (x # y # z # xs)" and dir: "kern_pgdir s = kaddr P 0" "P < unat (npages s)" "P \<notin> {x, y, z}"
    and cr: "PTE_ADDR (cr3 s) = page2pa P" and empty: "pword (kmem s) P 0 = 0" and cache: "tlb s (PGNUM PGSIZE) = None"
  defines "t \<equiv> (tlb s)(PGNUM PGSIZE := None)"
  shows "\<exists>ps m. check_page_installed_pgdir s = Inr (s\<lparr>pages := ps, page_free_list := Some x, kmem := m, tlb := t\<rparr>) \<and>
    free_list (s\<lparr>pages := ps, page_free_list := Some x, kmem := m, tlb := t\<rparr>) (x # z # y # xs) \<and>
    (\<forall>i<length (pages s). pp_ref (ps ! i) = pp_ref (pages s ! i)) \<and>
    (\<forall>q<65536. q \<notin> {x, y, z} \<longrightarrow> (\<forall>i<1024. pword m q i = pword (kmem s) q i))"
proof -
  note f = free_chainD [OF free_list_chain [OF fl]] and t = free_chain_three [OF free_list_chain [OF fl]]
  let ?o = "\<lparr>pp_link = None, pp_ref = 0\<rparr> :: page_info"
  define l where "l = pp_link (pages s ! z)"
  define ps where "ps = (pages s)[x := ?o, y := ?o, z := ?o]"
  let ?s3 = "s\<lparr>page_free_list := l, pages := ps\<rparr>" and ?w3 = "word_view (s\<lparr>page_free_list := l, pages := ps\<rparr>)"
  let ?I = "(winfo ?w3)(y := \<lparr>pp_link = l, pp_ref = 0\<rparr>, z := \<lparr>pp_link = Some y, pp_ref = 0\<rparr>, x := \<lparr>pp_link = Some z, pp_ref = 0\<rparr>)"
  have ps: "length ps = unat (npages s)" "ps ! x = ?o" "ps ! y = ?o" "ps ! z = ?o"
    using t(5,7) f(2) by (auto simp: ps_def)
  have c3: "check_page_installed_pgdir s = run_steps (installed_steps x y z) ?s3"
    unfolding check_page_installed_pgdir_def ps_def l_def using t(1-7) f(2,3) by (simp add: take_page_front)
  have r: "rep ?s3 P ?s3 ?w3" using dir f(3) ps(1) by (intro rep_view) simp_all
  obtain M where M: "w_run (w_installed_steps (unat (npages ?s3)) P x y z) ?w3 = Some (?w3\<lparr>wfree := Some x, winfo := ?I,
      wword := M, wtlb := (wtlb ?w3)(PGNUM PGSIZE := None)\<rparr>)" "\<forall>q. q \<notin> {x, y, z} \<longrightarrow> M q = wword ?w3 q"
    using installed_steps_run [of P x y z "unat (npages ?s3)" ?w3] t(5,6) dir(2,3) f(3) ps(2-4) empty cache
    by (auto simp: word_view_def word_le_nat_alt)
  have "simulates ?s3 P (run_steps (installed_steps x y z)) (w_run (w_installed_steps (unat (npages ?s3)) P x y z))"
    using cr by (intro run_sim installed_steps_sim) simp
  then obtain s4 where s4: "run_steps (installed_steps x y z) ?s3 = Inr s4"
      "rep ?s3 P s4 (?w3\<lparr>wfree := Some x, winfo := ?I, wword := M, wtlb := (wtlb ?w3)(PGNUM PGSIZE := None)\<rparr>)"
    using r M(1) unfolding simulates_def by blast
  define qs where "qs = pages s4"
  have "s4 = s\<lparr>pages := qs, page_free_list := Some x, kmem := kmem s4, tlb := (tlb s)(PGNUM PGSIZE := None)\<rparr>"
    using s4(2) by (simp add: rep_def same_machine_def qs_def word_view_def)
  then obtain m where e: "s4 = s\<lparr>pages := qs, page_free_list := Some x, kmem := m, tlb := (tlb s)(PGNUM PGSIZE := None)\<rparr>" by blast
  have m: "pword m q i = pword (kmem s) q i" if "q < 65536" "q \<notin> {x, y, z}" "i < 1024" for q i
    using repD(12) [OF s4(2) that(1,3)] M(2) that(2) unfolding e by (simp add: word_view_def)
  have q: "qs ! i = (if i = x then \<lparr>pp_link = Some z, pp_ref = 0\<rparr> else if i = z then \<lparr>pp_link = Some y, pp_ref = 0\<rparr>
      else if i = y then \<lparr>pp_link = l, pp_ref = 0\<rparr> else pages s ! i)" if "i < unat (npages s)" for i
    using repD(10) [OF s4(2), of i] that t(5) f(2) by (auto simp: qs_def word_view_def ps_def nth_list_update)
  have len: "length qs = unat (npages s)" using repD(9) [OF s4(2)] by (simp add: qs_def)
  have xs: "x \<notin> set xs" "y \<notin> set xs" "z \<notin> set xs" using f(4) by auto
  have "path qs l xs None"
  proof (rule path_cong)
    show "path (pages s) l xs None" using t(8) by (simp add: l_def)
  qed (use q xs f(2,5) len in auto)
  then have "path qs (Some x) (x # z # y # xs) None" using q t(5,6) len by simp
  moreover have "pp_ref (qs ! i) = pp_ref (pages s ! i)" if "i < unat (npages s)" for i
    using q [OF that] t(2-4) by (auto split: if_splits) (metis page_info.select_convs(2))
  moreover have "pp_link (qs ! i) = None" if "i < unat (npages s)" "i \<notin> set (x # z # y # xs)" for i
    using q [OF that(1)] that(2) free_list_unlinked [OF fl, of i] that(1) f(2) by auto
  ultimately have "free_list s4 (x # z # y # xs)" "\<forall>i<length (pages s). pp_ref (qs ! i) = pp_ref (pages s ! i)"
    using f(2,3,5,6) len by (auto simp: free_list_def free_chain_def e)
  moreover have "check_page_installed_pgdir s = Inr s4" using c3 s4(1) by simp
  ultimately show ?thesis using m unfolding e t_def by blast
qed

end
