(* ===== verification/Alloc_Properties.thy ===== *)
theory Alloc_Properties
  imports Page_Alloc
begin

text \<open>
  The properties of memory detection, the boot-time allocator and the page allocator, each with
  its application to a small concrete machine.
\<close>

section \<open>A small machine\<close>

text \<open>Five pages: 3 and 4 on the free list, 0 and 1 in use, 2 held without a reference.\<close>

definition alloc_machine :: kstate where
  "alloc_machine = \<lparr>npages = 5, npages_basemem = 5, kern_pgdir = kaddr 1 0,
     pages = [\<lparr>pp_link = None, pp_ref = 1\<rparr>, \<lparr>pp_link = None, pp_ref = 1\<rparr>, \<lparr>pp_link = None, pp_ref = 0\<rparr>,
              \<lparr>pp_link = Some 4, pp_ref = 0\<rparr>, \<lparr>pp_link = None, pp_ref = 0\<rparr>],
     pages_va = 0, page_free_list = Some 3, nextfree = 0xF0100000, kmem = (\<lambda>_. 7),
     tlb = Map.empty, cr0 = 0, cr3 = 0\<rparr>"

lemma alloc_machine_simps:
  "npages alloc_machine = 5" "length (pages alloc_machine) = 5" "page_free_list alloc_machine = Some 3"
  "nextfree alloc_machine = 0xF0100000" "kmem alloc_machine a = 7"
  "pages alloc_machine ! 0 = \<lparr>pp_link = None, pp_ref = 1\<rparr>"
  "pages alloc_machine ! Suc 0 = \<lparr>pp_link = None, pp_ref = 1\<rparr>"
  "pages alloc_machine ! 2 = \<lparr>pp_link = None, pp_ref = 0\<rparr>"
  "pages alloc_machine ! 3 = \<lparr>pp_link = Some 4, pp_ref = 0\<rparr>"
  "pages alloc_machine ! 4 = \<lparr>pp_link = None, pp_ref = 0\<rparr>"
  by (simp_all add: alloc_machine_def)

lemma below_5: "(i :: nat) < 5 \<longleftrightarrow> i = 0 \<or> i = Suc 0 \<or> i = 2 \<or> i = 3 \<or> i = 4"
  by auto

lemma alloc_machine_free_list: "free_list alloc_machine [3, 4]"
  by (simp add: free_list_def free_chain_def alloc_machine_simps) (auto simp: below_5 alloc_machine_simps)

section \<open>Helper facts\<close>

lemma unat8_bound: "unat (a :: u8) < 256"
  using unsigned_less [of a] by simp

lemma unat_mask16: "unat (ucast (a :: u8) OR push_bit 8 (ucast (b :: u8)) :: u32) = unat a + 256 * unat b"
proof -
  have ab: "unat a < 256" "unat b < 256" using unsigned_less [of a] unsigned_less [of b] by simp_all
  have "(ucast a :: u32) AND push_bit 8 (ucast b) = 0"
  proof (rule bit_word_eqI)
    fix n assume "n < LENGTH(32)"
    then show "bit ((ucast a :: u32) AND push_bit 8 (ucast b)) n = bit (0 :: u32) n"
      by (cases "n < 8") (auto simp: bit_simps dest: bit_imp_le_length)
  qed
  then have "(ucast a OR push_bit 8 (ucast b) :: u32) = ucast a + push_bit 8 (ucast b)"
    by (simp add: disjunctive_add_eq_or)
  moreover have "unat (ucast a :: u32) = unat a" "unat (ucast b :: u32) = unat b"
    using ab by (simp_all add: unsigned_ucast_eq take_bit_nat_eq_self)
  ultimately show ?thesis using ab by (simp add: push_bit_eq_mult unat_word_ariths)
qed

lemma free_list_links:
  "free_list s xs \<Longrightarrow> x \<in> set xs \<Longrightarrow> pp_link (pages s ! x) = None \<Longrightarrow> \<exists>ys. xs = ys @ [x]"
proof -
  assume fl: "free_list s xs" and x: "x \<in> set xs" "pp_link (pages s ! x) = None"
  obtain ys zs where xs: "xs = ys @ x # zs" using x(1) by (auto simp: in_set_conv_decomp)
  have "path (pages s) (page_free_list s) (ys @ x # zs) None"
    using free_chainD(1) [OF free_list_chain [OF fl]] xs by simp
  then have "path (pages s) (pp_link (pages s ! x)) zs None" by (auto simp: path_append)
  then have "zs = []" using x(2) by (cases zs) auto
  with xs show ?thesis by simp
qed

section \<open>Properties\<close>

text \<open>i386_detect_memory on numbers: with the three CMOS sizes base, ext and ext16, the number of
  pages is a quarter of the kilobytes the code adds up; nothing wraps around, and nothing clips
  the result to the memory that fits above KERNBASE.\<close>

lemma detect_memory_counts:
  "unat (npages_basemem (i386_detect_memory cmos s)) = unat (nvram_read cmos NVRAM_BASELO) div 4 \<and>
   unat (npages (i386_detect_memory cmos s)) =
     (if nvram_read cmos NVRAM_EXT16LO \<noteq> 0 then 16 * 1024 + 64 * unat (nvram_read cmos NVRAM_EXT16LO)
      else if nvram_read cmos NVRAM_EXTLO \<noteq> 0 then 1024 + unat (nvram_read cmos NVRAM_EXTLO)
      else unat (nvram_read cmos NVRAM_BASELO)) div 4"
proof -
  have b: "unat (nvram_read cmos r) < 65536" for r
    using unat8_bound [of "cmos (ucast r)"] unat8_bound [of "cmos (ucast (r + 1))"]
    by (simp add: nvram_read_def mc146818_read_def unat_mask16)
  have z: "nvram_read cmos r * 64 = 0 \<longleftrightarrow> nvram_read cmos r = 0" for r
  proof -
    have "unat (nvram_read cmos r * 64) = 64 * unat (nvram_read cmos r)"
      using b [of r] by (simp add: unat_word_ariths)
    then show ?thesis by (metis mult_eq_0_iff unat_eq_zero unat_0 zero_neq_numeral)
  qed
  have q: "PGSIZE div 1024 = 4" by (simp add: PGSIZE_def)
  show ?thesis
    using b [of NVRAM_EXT16LO] b [of NVRAM_EXTLO]
    by (simp add: i386_detect_memory_def Let_def q z unat_div unat_word_ariths)
qed

text \<open>Where \<open>boot_alloc\<close> has room below \<open>KERNBASE\<close> + 4MB.\<close>

lemma boot_alloc_room:
  assumes "0xF0000000 \<le> unat f" "unat f \<le> 0xF0400000"
  shows "PADDR f = Inr (f - KERNBASE)" "n \<le> 4 * 1024 * 1024 - (f - KERNBASE) \<longleftrightarrow> unat f + unat n \<le> 0xF0400000"
proof -
  have K: "KERNBASE \<le> f" using assms(1) by (simp add: KERNBASE_def word_le_nat_alt)
  then show "PADDR f = Inr (f - KERNBASE)" by (simp add: PADDR_def)
  have u: "unat (f - KERNBASE) = unat f - 0xF0000000" using K by (simp add: unat_sub) (simp add: KERNBASE_def)
  then have "f - KERNBASE \<le> 4 * 1024 * 1024" using assms by (simp add: word_le_nat_alt)
  then have "unat (4 * 1024 * 1024 - (f - KERNBASE)) = 0xF0400000 - unat f" using u assms by (simp add: unat_sub)
  then show "n \<le> 4 * 1024 * 1024 - (f - KERNBASE) \<longleftrightarrow> unat f + unat n \<le> 0xF0400000"
    using assms by (simp add: word_le_nat_alt le_diff_conv2 add.commute)
qed

lemma boot_alloc_fits:
  assumes "0xF0000000 \<le> unat (nextfree s)" "unat (nextfree s) + unat n \<le> 0xF0400000" "n \<noteq> 0"
  shows "\<exists>nf. boot_alloc kend n s = Inr (nextfree s, s\<lparr>nextfree := nf\<rparr>) \<and>
    unat (nextfree s) + unat n \<le> unat nf \<and> unat nf < unat (nextfree s) + unat n + 4096 \<and>
    unat nf mod 4096 = 0 \<and> unat nf \<le> 0xF0400000"
proof -
  let ?f = "nextfree s" and ?nf = "ROUNDUP (nextfree s + n) PGSIZE"
  have r: "unat ?nf = (unat ?f + unat n + 4095) div 4096 * 4096"
    using assms(2) unat_ROUNDUP [of PGSIZE "?f + n"] by (simp add: PGSIZE_def unat_word_ariths)
  have d: "(unat ?f + unat n + 4095) mod 4096 \<le> 4095" using pos_mod_bound [of 4096] by simp
  have m: "unat ?nf = unat ?f + unat n + 4095 - (unat ?f + unat n + 4095) mod 4096"
    unfolding r by (simp add: minus_mod_eq_div_mult [symmetric])
  have "(unat ?f + unat n + 4095) div 4096 \<le> 0xF0400" using assms(2) by linarith
  then have "unat ?nf \<le> 0xF0400000" "unat ?nf mod 4096 = 0" unfolding r by simp_all
  moreover have "boot_alloc kend n s = Inr (?f, s\<lparr>nextfree := ?nf\<rparr>)"
    using assms boot_alloc_room(1) [of ?f] boot_alloc_room(2) [of ?f n] by (auto simp: boot_alloc_def Let_def)
  ultimately show ?thesis using m d by auto
qed

text \<open>Above \<open>KERNBASE\<close> + 4MB the free bytes \<open>boot_alloc\<close> computes wrap around.\<close>

lemma boot_alloc_wrap:
  assumes "0xF0400000 < unat f"
  shows "PADDR f = Inr (f - KERNBASE)"
    "n \<le> 4 * 1024 * 1024 - (f - KERNBASE) \<longleftrightarrow> unat n + (unat f - 0xF0400000) \<le> 2 ^ 32"
proof -
  have K: "KERNBASE \<le> f" using assms by (simp add: KERNBASE_def word_le_nat_alt)
  then show "PADDR f = Inr (f - KERNBASE)" by (simp add: PADDR_def)
  have f: "unat f < 2 ^ 32" using unsigned_less [of f] by simp
  have u: "unat (f - KERNBASE) = unat f - 0xF0000000" using K by (simp add: unat_sub) (simp add: KERNBASE_def)
  have "unat (4 * 1024 * 1024 - (f - KERNBASE)) = 2 ^ 32 + 0x400000 - unat (f - KERNBASE)"
    using assms u f by (simp add: unat_sub_if')
  then show "n \<le> 4 * 1024 * 1024 - (f - KERNBASE) \<longleftrightarrow> unat n + (unat f - 0xF0400000) \<le> 2 ^ 32"
    using assms f by (simp add: u word_le_nat_alt le_diff_conv2) arith
qed

text \<open>C24. boot_alloc after the first call, with the next free address not below KERNBASE. A request for 0
  bytes gets that address and changes nothing. While the address is at most KERNBASE + 4MB, a
  request that fits below KERNBASE + 4MB gets it, and the next free address moves up to the
  first page boundary behind the block, still at most KERNBASE + 4MB, so blocks do not overlap
  and the next one is page-aligned; a request that does not fit panics. With the address above
  KERNBASE + 4MB the number of free bytes underflows, and every request of up to 2^32 bytes less
  the excess is granted although there is no room.\<close>

theorem boot_alloc_bumps:
  assumes "KERNBASE \<le> nextfree s"
  shows "if n = 0 then boot_alloc kend n s = Inr (nextfree s, s)
    else if nextfree s \<le> KERNBASE + 0x400000
    then if unat (nextfree s) + unat n \<le> unat KERNBASE + 0x400000
      then \<exists>nf. boot_alloc kend n s = Inr (nextfree s, s\<lparr>nextfree := nf\<rparr>) \<and>
        unat (nextfree s) + unat n \<le> unat nf \<and> unat nf < unat (nextfree s) + unat n + 4096 \<and>
        unat nf mod 4096 = 0 \<and> nf \<le> KERNBASE + 0x400000
      else \<exists>msg. boot_alloc kend n s = Inl (Panic msg)
    else if unat n + (unat (nextfree s) - unat (KERNBASE + 0x400000)) \<le> 2 ^ 32
      then boot_alloc kend n s = Inr (nextfree s, s\<lparr>nextfree := ROUNDUP (nextfree s + n) PGSIZE\<rparr>)
      else \<exists>msg. boot_alloc kend n s = Inl (Panic msg)"
proof -
  have K: "unat KERNBASE = 0xF0000000" "unat (KERNBASE + 0x400000) = 0xF0400000" by (simp_all add: KERNBASE_def)
  have f: "0xF0000000 \<le> unat (nextfree s)" using assms by (simp add: word_le_nat_alt K)
  then have nz: "nextfree s \<noteq> 0" by auto
  consider (zero) "n = 0" | (low) "n \<noteq> 0" "unat (nextfree s) \<le> 0xF0400000" | (high) "n \<noteq> 0" "0xF0400000 < unat (nextfree s)"
    by linarith
  then show ?thesis
  proof cases
    case zero
    then show ?thesis using nz by (simp add: boot_alloc_def)
  next
    case low
    then show ?thesis
      using boot_alloc_fits [OF f _ low(1), of kend] boot_alloc_room(1) [OF f low(2)] boot_alloc_room(2) [OF f low(2), of n] nz
      by (auto simp: K word_le_nat_alt boot_alloc_def Let_def)
  next
    case high
    then show ?thesis using boot_alloc_wrap(1) [OF high(2)] boot_alloc_wrap(2) [OF high(2), of n] nz
      by (simp add: K word_le_nat_alt boot_alloc_def Let_def)
  qed
qed

theorem boot_alloc_bumps_witness:
  "(\<exists>nf. boot_alloc 0 0x1001 alloc_machine = Inr (0xF0100000, alloc_machine\<lparr>nextfree := nf\<rparr>) \<and>
     0xF0101001 \<le> unat nf \<and> unat nf mod 4096 = 0) \<and>
   boot_alloc 0 0x1000 (alloc_machine\<lparr>nextfree := 0xF0500000\<rparr>)
     = Inr (0xF0500000, alloc_machine\<lparr>nextfree := 0xF0501000\<rparr>)"
proof
  show "\<exists>nf. boot_alloc 0 0x1001 alloc_machine = Inr (0xF0100000, alloc_machine\<lparr>nextfree := nf\<rparr>) \<and>
     0xF0101001 \<le> unat nf \<and> unat nf mod 4096 = 0"
    using boot_alloc_bumps [of alloc_machine "0x1001" 0] by (auto simp: alloc_machine_simps KERNBASE_def)
  have "ROUNDUP 0xF0501000 PGSIZE = 0xF0501000" by (simp add: ROUNDUP_def ROUNDDOWN_def PGSIZE_def)
  then show "boot_alloc 0 0x1000 (alloc_machine\<lparr>nextfree := 0xF0500000\<rparr>)
     = Inr (0xF0500000, alloc_machine\<lparr>nextfree := 0xF0501000\<rparr>)"
    using boot_alloc_bumps [of "alloc_machine\<lparr>nextfree := 0xF0500000\<rparr>" "0x1000" 0]
    by (simp add: KERNBASE_def)
qed

text \<open>page_init on a machine of at most 256 MB: the two loops end without a fault, the free list
  holds exactly the pages that are neither page 0 nor between the I/O hole and the end of the
  boot-time allocations, each once and the highest first, and every other page is in use.\<close>

lemma page_init_builds_free_list:
  assumes "length (pages s) = unat (npages s)" "npages s \<le> 0x10000" "page_free_list s = None"
    "nextfree s \<noteq> 0" "KERNBASE \<le> nextfree s"
  shows "\<exists>s'. page_init kend s = Some (Inr s') \<and>
    free_list s' (filter (page_usable (nextfree s - KERNBASE)) (rev [0..<unat (npages s)])) \<and>
    (\<forall>i<unat (npages s). \<not> page_usable (nextfree s - KERNBASE) i \<longrightarrow> pp_ref (pages s' ! i) = 1) \<and>
    npages s' = npages s \<and> kmem s' = kmem s \<and> nextfree s' = nextfree s"
  using page_init_spec [OF assms, of kend] by auto

text \<open>C10. page_alloc hands out the page at the head of the free list, with a null link and no
  references, and leaves the rest of the list; every other PageInfo stays; with ALLOC_ZERO the
  4096 bytes of the page, and no others, are zeroed, and without it memory stays.\<close>

theorem page_alloc_takes_head:
  assumes "free_list s (x # xs)"
  shows "\<exists>s'. page_alloc flags s = Inr (Some x, s') \<and> free_list s' xs \<and>
    pages s' ! x = \<lparr>pp_link = None, pp_ref = 0\<rparr> \<and> (\<forall>q. q \<noteq> x \<longrightarrow> pages s' ! q = pages s ! q) \<and>
    (\<forall>a. kmem s' a = (if flags AND ALLOC_ZERO \<noteq> 0 \<and> unat (a - kaddr x 0) < 4096 then 0 else kmem s a))"
proof -
  note fc = free_list_chain [OF assms] and f = free_chainD [OF free_list_chain [OF assms]]
  have "x < length (pages s)" "pp_ref (pages s ! x) = 0" using f(2) f(5,6) [of x] by auto
  then show ?thesis
    using page_alloc_Cons(1) [OF fc, of flags] alloc_state_free_list [OF assms, of flags]
    by (cases "pages s ! x") (auto simp: alloc_state_def memset_apply PGSIZE_def)
qed

theorem page_alloc_takes_head_witness:
  "\<exists>s'. page_alloc ALLOC_ZERO alloc_machine = Inr (Some 3, s') \<and> free_list s' [4] \<and>
    kmem s' (kaddr 3 0) = 0 \<and> kmem s' (kaddr 4 0) = 7"
  using page_alloc_takes_head [OF alloc_machine_free_list, of ALLOC_ZERO]
  by (auto simp: ALLOC_ZERO_def alloc_machine_simps kaddr_def)

text \<open>C23. page_free of a page that is not on the list and has no references puts it at the head of the
  list; of a page with references, or with a non-null link, it panics.\<close>

theorem page_free_checks:
  assumes "free_list s xs" "pp < length (pages s)" "pp \<notin> set xs \<or> pp_link (pages s ! pp) \<noteq> None"
  shows "if pp_ref (pages s ! pp) = 0 \<and> pp \<notin> set xs
    then \<exists>s'. page_free pp s = Inr s' \<and> free_list s' (pp # xs) \<and> kmem s' = kmem s \<and>
      (\<forall>q. q \<noteq> pp \<longrightarrow> pages s' ! q = pages s ! q)
    else \<exists>msg. page_free pp s = Inl (Panic msg)"
proof (cases "pp_ref (pages s ! pp) = 0 \<and> pp \<notin> set xs")
  case True
  then have "loose s pp" using assms free_list_unlinked by (simp add: loose_def)
  then show ?thesis
    using True page_free_Cons(1) [OF free_list_chain [OF assms(1)]] free_state_free_list [OF assms(1)]
    by (auto simp: free_state_def)
next
  case False
  then have "\<not> loose s pp" using assms(3) by (auto simp: loose_def)
  then show ?thesis using False page_free_panics [OF assms(2)] by auto
qed

theorem page_free_checks_witness:
  "(\<exists>s'. page_free 2 alloc_machine = Inr s' \<and> free_list s' [2, 3, 4]) \<and>
   (\<exists>msg. page_free 3 alloc_machine = Inl (Panic msg))"
  using page_free_checks [OF alloc_machine_free_list, of 2] page_free_checks [OF alloc_machine_free_list, of 3]
  by (auto simp: alloc_machine_simps)

text \<open>page_free does not notice that the last page of the free list is freed again: its link is null
  there as well. The call succeeds and the list becomes a cycle, a list that never ends.\<close>

lemma page_free_last_twice:
  assumes "free_list s (xs @ [x])"
  shows "\<exists>s'. page_free x s = Inr s' \<and> (\<forall>ys. \<not> path (pages s') (page_free_list s') ys None)"
proof -
  note f = free_chainD [OF free_list_chain [OF assms]]
  have x: "x < length (pages s)" "pp_ref (pages s ! x) = 0" "x \<notin> set xs"
    using f(2,4) f(5,6) [of x] by auto
  have p: "path (pages s) (page_free_list s) xs (Some x)" "pp_link (pages s ! x) = None"
    using f(1) by (auto simp: path_append)
  let ?s = "free_state x s"
  have "page_free x s = Inr ?s"
    using x p(2) by (simp add: page_free_def get_page_def set_page_def free_state_def)
  moreover have "\<not> path (pages ?s) (page_free_list ?s) ys None" for ys
  proof
    assume y: "path (pages ?s) (page_free_list ?s) ys None"
    have c: "path (pages ?s) (Some x) (x # xs) (Some x)" using x p by (simp add: free_state_def)
    with y have "path (pages ?s) (Some x) ((x # xs) @ ys) None"
      unfolding path_append by (auto simp: free_state_def)
    moreover have "path (pages ?s) (Some x) ys None" using y by (simp add: free_state_def)
    ultimately have "(x # xs) @ ys = ys" by (rule path_unique)
    then have "length ((x # xs) @ ys) = length ys" by simp
    then show False by simp
  qed
  ultimately show ?thesis by blast
qed

text \<open>C13. page_decref: one reference fewer; the page is put on the free list when it was the last
  reference, and the free list stays as it is otherwise.\<close>

theorem page_decref_frees_last:
  assumes "free_list s xs" "pp < length (pages s)" "pp \<notin> set xs" "pp_ref (pages s ! pp) \<noteq> 0"
  shows "\<exists>s'. page_decref pp s = Inr s' \<and> kmem s' = kmem s \<and>
    free_list s' (if pp_ref (pages s ! pp) = 1 then pp # xs else xs) \<and>
    unat (pp_ref (pages s' ! pp)) = unat (pp_ref (pages s ! pp)) - 1 \<and>
    (\<forall>q. q \<noteq> pp \<longrightarrow> pages s' ! q = pages s ! q)"
  using page_decref_ok [OF assms(2) free_list_unlinked [OF assms(1-3)]] decref_state_free_list [OF assms(1-3)]
    assms(2,4)
  by (auto simp: decref_state_def unat_minus_one)

theorem page_decref_frees_last_witness:
  "\<exists>s'. page_decref 1 alloc_machine = Inr s' \<and> free_list s' [1, 3, 4]"
  using page_decref_frees_last [OF alloc_machine_free_list, of 1] by (auto simp: alloc_machine_simps)

text \<open>C27. The address conversions are inverse to each other on the pages of a machine of at most 256 MB:
  PageInfo to physical address and back, and physical to kernel virtual address and back.\<close>

theorem page_address_roundtrip:
  assumes "pp < unat (npages s)" "npages s \<le> 0x10000"
  shows "pa2page s (page2pa pp) = Inr pp \<and> bindR (page2kva s pp) PADDR = Inr (page2pa pp)"
proof -
  have "KERNBASE \<le> kaddr pp 0 \<and> kaddr pp 0 - KERNBASE = page2pa pp"
  proof -
    have "unat (npages s) \<le> 65536" using assms(2) by (simp add: word_le_nat_alt)
    then have pp: "pp < 65536" using assms(1) by simp
    then have "unat KERNBASE \<le> unat (kaddr pp 0)" by (simp add: unat_kaddr KERNBASE_def)
    moreover have "kaddr pp 0 = page2pa pp + KERNBASE"
      by (simp add: page2pa_def PGSHIFT_def kaddr_def push_bit_eq_mult)
    ultimately show ?thesis by (simp add: word_le_nat_alt)
  qed
  then show ?thesis using pa2page_page2pa [OF assms] page2kva_ok [OF assms] by (simp add: PADDR_def not_less)
qed

theorem page_address_roundtrip_witness:
  "pa2page alloc_machine (page2pa 3) = Inr 3 \<and> bindR (page2kva alloc_machine 3) PADDR = Inr (page2pa 3)"
  using page_address_roundtrip [of 3 alloc_machine] by (simp add: alloc_machine_simps)

end
