(* ===== verification/Mem_Init.thy ===== *)
theory Mem_Init
  imports Installed_Test Alloc_Properties
begin

text \<open>
  \<open>mem_init\<close> from end to end: on a machine with enough memory it returns, with the kernel's address space
  built, the processor on it and the invariants of the page tables established; in particular none of
  its self-tests fails.
\<close>

section \<open>The directory and the array pages\<close>

text \<open>\<open>memset\<close> above a page leaves its words alone.\<close>

lemma pword_memset_above:
  assumes "p < q" "q < 65536" "i < 1024" "4096 * q + unat n \<le> 0x10000000"
  shows "pword (memset m (kaddr q 0) c n) p i = pword m p i"
  unfolding pword_def
proof (rule ld32_cong4)
  fix k :: nat assume k: "k < 4"
  have "unat (kaddr p i) mod 4 = 0" using assms by (simp add: unat_kaddr mod_add_eq [symmetric])
  then have "unat (kaddr p i + word_of_nat k) = unat (kaddr p i) + k" using k by (intro unat_add_small) simp_all
  then have a: "unat (kaddr p i + word_of_nat k) = 0xF0000000 + 4096 * p + 4 * i + k" "unat (kaddr q 0) = 0xF0000000 + 4096 * q"
    using assms by (simp_all add: unat_kaddr)
  have "4096 * p + 4096 \<le> 4096 * q" using assms(1) by simp
  then have "\<not> unat (kaddr p i + word_of_nat k - kaddr q 0) < unat n"
    using a assms k by (simp add: unat_diff_wrap)
  then show "memset m (kaddr q 0) c n (kaddr p i + word_of_nat k) = m (kaddr p i + word_of_nat k)"
    by (simp add: memset_apply)
qed

lemma kaddr_of_aligned:
  assumes "0xF0000000 \<le> unat a" "unat a mod 4096 = 0"
  shows "a = kaddr ((unat a - 0xF0000000) div 4096) 0"
proof -
  obtain k where k: "unat a = 4096 * k" using assms(2) by auto
  have e: "4096 * ((unat a - 0xF0000000) div 4096) = unat a - 0xF0000000" using k by simp
  have "(0xF0000000 :: u32) + word_of_nat (unat a - 0xF0000000) = a"
    using assms(1) by (simp add: of_nat_diff)
  then show ?thesis unfolding kaddr_def KERNBASE_def e by simp
qed

text \<open>The first page behind the kernel, where \<open>boot_alloc\<close> begins.\<close>

definition first_page :: "u32 \<Rightarrow> nat" where
  "first_page kend = (unat kend - 0xF0000000 + 4095) div 4096"

lemma first_page_bounds:
  assumes "0xF0100000 \<le> unat kend" "unat kend \<le> 0xF0400000"
  shows "unat (ROUNDUP kend PGSIZE) = 0xF0000000 + 4096 * first_page kend" "256 \<le> first_page kend"
    "4096 * first_page kend < unat kend - 0xF0000000 + 4096" "ROUNDUP kend PGSIZE = kaddr (first_page kend) 0"
proof -
  define d where "d = unat kend - 0xF0000000"
  then have d: "unat kend = 0xF0000000 + d" "0x100000 \<le> d" using assms(1) by simp_all
  have "0xF0000000 + d + 4095 = (d + 4095) + 983040 * 4096" by simp
  then have "(0xF0000000 + d + 4095) div 4096 = 983040 + (d + 4095) div 4096" by (simp only: div_mult_self1)
  then show u: "unat (ROUNDUP kend PGSIZE) = 0xF0000000 + 4096 * first_page kend"
    using assms(2) unat_ROUNDUP [of PGSIZE kend] d by (simp add: PGSIZE_def first_page_def)
  show "256 \<le> first_page kend" "4096 * first_page kend < unat kend - 0xF0000000 + 4096"
    using d by (simp_all add: first_page_def)
  then show "ROUNDUP kend PGSIZE = kaddr (first_page kend) 0"
    using kaddr_of_aligned [of "ROUNDUP kend PGSIZE"] u by simp
qed

lemma page2pa_kaddr: "page2pa p + KERNBASE = kaddr p 0"
  by (simp add: page2pa_def PGSHIFT_def kaddr_def push_bit_eq_mult)

lemma PADDR_kaddr:
  assumes "p < 65536" shows "PADDR (kaddr p 0) = Inr (page2pa p)"
proof -
  have "KERNBASE \<le> kaddr p 0" using assms by (simp add: word_le_nat_alt unat_kaddr KERNBASE_def)
  moreover have "kaddr p 0 - KERNBASE = page2pa p" unfolding page2pa_kaddr [symmetric] by simp
  ultimately show ?thesis by (simp add: PADDR_def not_less)
qed

text \<open>What the boot-time allocations leave: the directory in the first page, \<open>pages\<close> in the next ones.\<close>

lemma boot_allocations:
  fixes kend :: u32 and s :: kstate
  defines "P \<equiv> first_page kend"
  assumes nf: "nextfree s = 0" and n: "0 < unat (npages s)" "unat (npages s) \<le> 65536"
    and kend: "0xF0100000 \<le> unat kend" "unat kend + 4096 + 4096 + 8 * unat (npages s) \<le> 0xF0400000"
  shows "\<exists>s1 s2 m nf. make_pgdir kend s = Inr s1 \<and> make_pages kend s1 = Inr s2 \<and>
    s2 = s\<lparr>kern_pgdir := kaddr P 0, pages_va := kaddr (Suc P) 0,
      pages := replicate (unat (npages s)) \<lparr>pp_link = None, pp_ref = 0\<rparr>, nextfree := nf, kmem := m\<rparr> \<and>
    fresh_directory P m \<and> 0xF0000000 + 4096 * Suc P < unat nf \<and> unat nf < 0xF0000000 + 4096 * Suc P + 8 * unat (npages s) + 4096"
proof -
  note fp = first_page_bounds [OF kend(1), folded P_def]
  have ke: "unat kend \<le> 0xF0400000" using kend(2) by simp
  note F = fp(1,2,3,4) [OF ke]
  have P: "P < 1024" using F(3) kend by linarith
  let ?s0 = "s\<lparr>nextfree := kaddr P 0\<rparr>"
  have u: "unat (kaddr P 0) = 0xF0000000 + 4096 * P" using P by (simp add: unat_kaddr)
  have sz: "unat PGSIZE = 4096" "PGSIZE \<noteq> 0" by (simp_all add: PGSIZE_def)
  have first: "boot_alloc kend PGSIZE s = boot_alloc kend PGSIZE ?s0"
    using nf u by (auto simp: boot_alloc_def F(4) Let_def)
  have fits: "0xF0000000 \<le> unat (nextfree ?s0)" "unat (nextfree ?s0) + unat PGSIZE \<le> 0xF0400000"
    using u sz F(3) kend by simp_all
  obtain nf1 where a1: "boot_alloc kend PGSIZE ?s0 = Inr (nextfree ?s0, ?s0\<lparr>nextfree := nf1\<rparr>)"
      "unat (nextfree ?s0) + unat PGSIZE \<le> unat nf1" "unat nf1 < unat (nextfree ?s0) + unat PGSIZE + 4096" "unat nf1 mod 4096 = 0"
    using boot_alloc_fits [OF fits sz(2), of kend] by (elim exE conjE) (rule that)
  then have n1: "boot_alloc kend PGSIZE s = Inr (kaddr P 0, s\<lparr>nextfree := nf1\<rparr>)" "unat nf1 mod 4096 = 0"
      "0xF0000000 + 4096 * P + 4096 \<le> unat nf1" "unat nf1 < 0xF0000000 + 4096 * P + 4096 + 4096"
    by (simp_all add: first u sz(1))
  obtain k where k: "unat nf1 = 4096 * k" using n1(2) by auto
  then have "k = 983040 + Suc P" using n1(3,4) by simp
  then have "unat nf1 = 0xF0000000 + 4096 * Suc P" using k by simp
  moreover from this have "nf1 = kaddr (Suc P) 0" using kaddr_of_aligned [of nf1] by simp
  ultimately have nf1: "unat nf1 = 0xF0000000 + 4096 * Suc P" "nf1 = kaddr (Suc P) 0" by simp_all
  let ?m1 = "st32 (memset (kmem s) (kaddr P 0) 0 PGSIZE) (kaddr P self_slot) (page2pa P OR PTE_U OR PTE_P)"
  let ?s1 = "s\<lparr>nextfree := nf1, kern_pgdir := kaddr P 0, kmem := ?m1\<rparr>"
  have "kaddr P 0 + 4 * PDX UVPT = kaddr P self_slot"
    by (simp add: kaddr_index unat_PDX UVPT_def jos_consts self_slot_def)
  then have s1: "make_pgdir kend s = Inr ?s1"
    using P n1(1) by (simp add: make_pgdir_def PADDR_kaddr)
  have fresh: "fresh_directory P ?m1"
    using P sz by (simp add: fresh_directory_def pword_simps self_slot_def)
  let ?b = "npages s * page_info_size"
  have b: "unat ?b = 8 * unat (npages s)" "?b \<noteq> 0"
    using n by (simp_all add: page_info_size_def unat_word_ariths word_unat_eq_iff)
  have fits2: "0xF0000000 \<le> unat (nextfree ?s1)" "unat (nextfree ?s1) + unat ?b \<le> 0xF0400000"
    using nf1 b F(3) kend by simp_all
  obtain nf2 where a2: "boot_alloc kend ?b ?s1 = Inr (nextfree ?s1, ?s1\<lparr>nextfree := nf2\<rparr>)"
      "unat (nextfree ?s1) + unat ?b \<le> unat nf2" "unat nf2 < unat (nextfree ?s1) + unat ?b + 4096"
    using boot_alloc_fits [OF fits2 b(2), of kend] by (elim exE conjE) (rule that)
  then have n2: "boot_alloc kend ?b ?s1 = Inr (kaddr (Suc P) 0, ?s1\<lparr>nextfree := nf2\<rparr>)"
      "0xF0000000 + 4096 * Suc P + 8 * unat (npages s) \<le> unat nf2" "unat nf2 < 0xF0000000 + 4096 * Suc P + 8 * unat (npages s) + 4096"
    using nf1 by (simp_all add: b(1))
  let ?m2 = "memset ?m1 (kaddr (Suc P) 0) 0 ?b"
  have s2: "make_pages kend ?s1 = Inr (s\<lparr>kern_pgdir := kaddr P 0, pages_va := kaddr (Suc P) 0,
      pages := replicate (unat (npages s)) \<lparr>pp_link = None, pp_ref = 0\<rparr>, nextfree := nf2, kmem := ?m2\<rparr>)"
    using n2(1) by (simp add: make_pages_def)
  have "fresh_directory P ?m2"
    using fresh P b(1) n(2) by (simp add: fresh_directory_def pword_memset_above self_slot_def)
  then show ?thesis using s1 s2 n2(2,3) n(1) by (intro exI [of _ ?s1] exI conjI) (assumption | simp)+
qed

section \<open>The invariant across the tests\<close>

text \<open>What the page tables depend on: the free pages as a set, the reference counts, and the words of pages in use.\<close>

lemma vm_inv_frame:
  assumes inv: "vm_inv s P xs ex" and fl: "free_list s' ys" and set: "set ys = set xs" and n: "npages s' = npages s"
    and refs: "\<forall>i<unat (npages s). pp_ref (pages s' ! i) = pp_ref (pages s ! i)"
    and words: "\<forall>q<65536. q \<notin> set xs \<longrightarrow> (\<forall>i<1024. pword (kmem s') q i = pword (kmem s) q i)"
  shows "vm_inv s' P ys ex" "vmap (kmem s') P = vmap (kmem s) P" "table_slots (kmem s') P = table_slots (kmem s) P"
    "\<forall>d<1024. pword (kmem s') P d = pword (kmem s) P d"
proof -
  have wf: "pt_wf s P xs" using inv by (simp add: vm_inv_def)
  note w = pt_wf_simps [OF wf]
  show dir: "\<forall>d<1024. pword (kmem s') P d = pword (kmem s) P d" using words w(4-6) by simp
  then show slots: "table_slots (kmem s') P = table_slots (kmem s) P" by (auto simp: table_slots_def)
  have tab: "table_of (kmem s') P d = table_of (kmem s) P d" if "d \<in> table_slots (kmem s) P" for d
    using that dir by (simp add: table_of_def table_slots_def)
  have "pword (kmem s') (table_of (kmem s) P d) i = pword (kmem s) (table_of (kmem s) P d) i"
    if "d \<in> table_slots (kmem s) P" "i < 1024" for d i
    using words w(4) w(7,8) [OF that(1)] that(2) by simp
  then have "vmap (kmem s') P (d, i) = vmap (kmem s) P (d, i)" for d i
    by (cases "d \<in> table_slots (kmem s) P \<and> i < 1024") (auto simp: vmap_def slots tab)
  then show V: "vmap (kmem s') P = vmap (kmem s) P" by (intro ext) (metis surj_pair)
  have "table_of (kmem s') P ` table_slots (kmem s) P = table_of (kmem s) P ` table_slots (kmem s) P" using tab by force
  then have "ref_ok s' P ex" using inv refs by (simp add: vm_inv_def ref_ok_def n slots V)
  moreover have "inj_on (table_of (kmem s') P) (table_slots (kmem s) P)" using w(10) tab by (simp cong: inj_on_cong)
  then have "pt_wf s' P ys" using fl w(5-9,11) tab dir by (auto simp: pt_wf_def set n slots dest: table_slots_less)
  ultimately show "vm_inv s' P ys ex" using inv by (simp add: vm_inv_def V n)
qed

text \<open>Bytes of pages in use are no bytes of free pages.\<close>

lemma words_off_pages:
  assumes "\<forall>a. (\<forall>x\<in>set xs. 4096 \<le> unat (a - kaddr x 0)) \<longrightarrow> m a = m' a" "\<forall>x\<in>set xs. x < 65536" "q < 65536" "q \<notin> set xs" "i < 1024"
  shows "pword m q i = pword m' q i"
  unfolding pword_def
proof (rule ld32_cong4)
  fix k :: nat assume "k < 4"
  then have "4096 \<le> unat (kaddr q i + word_of_nat k - kaddr x 0)" if "x \<in> set xs" for x
    using unat_page_offset [OF assms(3,5), of x k] assms(2,4) that by (metis not_le)
  then show "m (kaddr q i + word_of_nat k) = m' (kaddr q i + word_of_nat k)" using assms(1) by blast
qed

lemma free_list_test_keeps:
  assumes inv: "vm_inv s P xs ex" and us: "\<forall>x\<in>set xs. page_usable (nextfree s - KERNBASE) x"
    and nf: "KERNBASE + EXTPHYSMEM < nextfree s"
    and base: "\<exists>x\<in>set xs. page2pa x < EXTPHYSMEM" and ext: "\<exists>x\<in>set xs. \<not> page2pa x < EXTPHYSMEM"
  shows "\<exists>ps p m. check_page_free_list kend low s = Inr (s\<lparr>pages := ps, page_free_list := p, kmem := m\<rparr>) \<and>
    vm_inv (s\<lparr>pages := ps, page_free_list := p, kmem := m\<rparr>) P (low_order low xs) ex \<and>
    vmap m P = vmap (kmem s) P \<and> (\<forall>d<1024. pword m P d = pword (kmem s) P d)"
proof -
  have fl: "free_list s xs" using inv by (simp add: vm_inv_def pt_wf_def)
  obtain ps p m where c: "check_page_free_list kend low s = Inr (s\<lparr>pages := ps, page_free_list := p, kmem := m\<rparr>)"
    "free_list (s\<lparr>pages := ps, page_free_list := p, kmem := m\<rparr>) (low_order low xs)"
    "\<forall>i. pp_ref (ps ! i) = pp_ref (pages s ! i)" "\<forall>a. (\<forall>x\<in>set xs. 128 \<le> unat (a - kaddr x 0)) \<longrightarrow> m a = kmem s a"
    using check_page_free_list_ok [OF fl us nf base ext] by blast
  have "m a = kmem s a" if "\<forall>x\<in>set xs. 4096 \<le> unat (a - kaddr x 0)" for a
  proof -
    have "\<forall>x\<in>set xs. 128 \<le> unat (a - kaddr x 0)" using that by (auto intro: order_trans [of _ 4096])
    then show ?thesis using c(4) by blast
  qed
  then have "\<forall>q<65536. q \<notin> set xs \<longrightarrow> (\<forall>i<1024. pword m q i = pword (kmem s) q i)"
    using free_chainD(7) [OF free_list_chain [OF fl]] by (blast intro: words_off_pages)
  then have "vm_inv (s\<lparr>pages := ps, page_free_list := p, kmem := m\<rparr>) P (low_order low xs) ex" "vmap m P = vmap (kmem s) P"
    "\<forall>d<1024. pword m P d = pword (kmem s) P d"
    using vm_inv_frame [OF inv c(2)] c(3) by simp_all
  then show ?thesis using c(1) by blast
qed

lemma alloc_test_keeps:
  assumes inv: "vm_inv s P xs ex" and len: "3 \<le> length xs" and va: "pages_va s \<noteq> 0"
  shows "\<exists>m. check_page_alloc s = Inr (s\<lparr>kmem := m\<rparr>) \<and> vm_inv (s\<lparr>kmem := m\<rparr>) P xs ex \<and> vmap m P = vmap (kmem s) P \<and>
    (\<forall>d<1024. pword m P d = pword (kmem s) P d)"
proof -
  obtain x y z zs where xs: "xs = x # y # z # zs" using len by (auto simp: numeral_3_eq_3 Suc_le_length_iff)
  have fl: "free_list s xs" using inv by (simp add: vm_inv_def pt_wf_def)
  let ?m = "memset (memset (kmem s) (kaddr z 0) 1 PGSIZE) (kaddr z 0) 0 PGSIZE"
  have c: "check_page_alloc s = Inr (s\<lparr>kmem := ?m\<rparr>)"
    using check_page_alloc_ok [OF free_list_chain [OF fl [unfolded xs]] va] .
  have "z < 65536" "z \<in> set xs" using free_chainD(7) [OF free_list_chain [OF fl], of z] by (simp_all add: xs)
  then have "pword ?m q i = pword (kmem s) q i" if "q < 65536" "q \<notin> set xs" "i < 1024" for q i
    using that PGSIZE_le pword_memset_other [of q i z PGSIZE] by metis
  then have w: "\<forall>q<65536. q \<notin> set xs \<longrightarrow> (\<forall>i<1024. pword ?m q i = pword (kmem s) q i)" by blast
  have "free_list (s\<lparr>kmem := ?m\<rparr>) xs" using fl by (simp add: free_list_def free_chain_def)
  then show ?thesis using c vm_inv_frame [OF inv _ refl, of "s\<lparr>kmem := ?m\<rparr>"] w by auto
qed

lemma page_test_keeps:
  assumes inv: "vm_inv s P xs ex" and len: "3 \<le> length xs" and dir: "kern_pgdir s = kaddr P 0"
    and empty: "pword (kmem s) P 0 = 0" "pword (kmem s) P (Suc 0) = 0"
  shows "\<exists>ps p m t ys. check_page s = Inr (s\<lparr>pages := ps, page_free_list := p, kmem := m, tlb := t\<rparr>) \<and>
    vm_inv (s\<lparr>pages := ps, page_free_list := p, kmem := m, tlb := t\<rparr>) P ys ex \<and> set ys = set xs \<and>
    vmap m P = vmap (kmem s) P \<and> (\<forall>d<1024. pword m P d = pword (kmem s) P d)"
proof -
  obtain x y z zs where xs: "xs = x # y # z # zs" using len by (auto simp: numeral_3_eq_3 Suc_le_length_iff)
  have wf: "pt_wf s P xs" using inv by (simp add: vm_inv_def)
  note w = pt_wf_simps [OF wf]
  have P: "P \<notin> {x, y, z}" using w(6) by (auto simp: xs)
  obtain ps m t where c: "check_page s = Inr (s\<lparr>pages := ps, page_free_list := Some z, kmem := m, tlb := t\<rparr>)"
    "free_list (s\<lparr>pages := ps, page_free_list := Some z, kmem := m, tlb := t\<rparr>) (z # y # x # zs)"
    "\<forall>i<length (pages s). pp_ref (ps ! i) = pp_ref (pages s ! i)"
    "\<forall>q<65536. q \<noteq> x \<longrightarrow> (\<forall>i<1024. pword m q i = pword (kmem s) q i)"
    using check_page_ok [OF w(1) [unfolded xs] dir w(5) P empty] by blast
  have s: "set (z # y # x # zs) = set xs" by (auto simp: xs)
  have "\<forall>q<65536. q \<notin> set xs \<longrightarrow> (\<forall>i<1024. pword m q i = pword (kmem s) q i)" using c(4) by (simp add: xs)
  then have "vm_inv (s\<lparr>pages := ps, page_free_list := Some z, kmem := m, tlb := t\<rparr>) P (z # y # x # zs) ex"
    "vmap m P = vmap (kmem s) P" "\<forall>d<1024. pword m P d = pword (kmem s) P d"
    using vm_inv_frame [OF inv c(2) s] c(3) w(3) by simp_all
  then show ?thesis using c(1) s by blast
qed

lemma installed_test_keeps:
  assumes inv: "vm_inv s P xs ex" and len: "3 \<le> length xs" and dir: "kern_pgdir s = kaddr P 0"
    and cr: "PTE_ADDR (cr3 s) = page2pa P" and empty: "pword (kmem s) P 0 = 0" and cache: "tlb s = (\<lambda>_. None)"
  shows "\<exists>ps p m ys. check_page_installed_pgdir s = Inr (s\<lparr>pages := ps, page_free_list := p, kmem := m\<rparr>) \<and>
    vm_inv (s\<lparr>pages := ps, page_free_list := p, kmem := m\<rparr>) P ys ex \<and> set ys = set xs \<and>
    vmap m P = vmap (kmem s) P \<and> (\<forall>d<1024. pword m P d = pword (kmem s) P d)"
proof -
  obtain x y z zs where xs: "xs = x # y # z # zs" using len by (auto simp: numeral_3_eq_3 Suc_le_length_iff)
  have wf: "pt_wf s P xs" using inv by (simp add: vm_inv_def)
  note w = pt_wf_simps [OF wf]
  have P: "P \<notin> {x, y, z}" using w(6) by (auto simp: xs)
  have t: "(tlb s)(PGNUM PGSIZE := None) = tlb s" using cache by auto
  obtain ps m where "check_page_installed_pgdir s = Inr (s\<lparr>pages := ps, page_free_list := Some x, kmem := m, tlb := tlb s\<rparr>)"
    "free_list (s\<lparr>pages := ps, page_free_list := Some x, kmem := m, tlb := tlb s\<rparr>) (x # z # y # zs)"
    and r: "\<forall>i<length (pages s). pp_ref (ps ! i) = pp_ref (pages s ! i)"
    "\<forall>q<65536. q \<notin> {x, y, z} \<longrightarrow> (\<forall>i<1024. pword m q i = pword (kmem s) q i)"
    using check_page_installed_ok [OF w(1) [unfolded xs] dir w(5) P cr empty] cache unfolding t by auto
  then have c: "check_page_installed_pgdir s = Inr (s\<lparr>pages := ps, page_free_list := Some x, kmem := m\<rparr>)"
    "free_list (s\<lparr>pages := ps, page_free_list := Some x, kmem := m\<rparr>) (x # z # y # zs)" by simp_all
  have s: "set (x # z # y # zs) = set xs" by (auto simp: xs)
  have "\<forall>q<65536. q \<notin> set xs \<longrightarrow> (\<forall>i<1024. pword m q i = pword (kmem s) q i)" using r(2) by (simp add: xs)
  then have "vm_inv (s\<lparr>pages := ps, page_free_list := Some x, kmem := m\<rparr>) P (x # z # y # zs) ex" "vmap m P = vmap (kmem s) P"
    "\<forall>d<1024. pword m P d = pword (kmem s) P d"
    using vm_inv_frame [OF inv c(2) s] r(1) w(3) by simp_all
  then show ?thesis using c(1) s by blast
qed

section \<open>mem_init\<close>

lemma left_after_drop:
  assumes "A \<subseteq> set xs" "k < card A" shows "\<exists>x\<in>A. x \<in> set (drop k xs)"
proof (rule ccontr)
  assume "\<not> ?thesis"
  moreover have "set xs = set (take k xs) \<union> set (drop k xs)" by (metis append_take_drop_id set_append)
  ultimately have "A \<subseteq> set (take k xs)" using assms(1) by blast
  then have "card A \<le> card (set (take k xs))" by (intro card_mono) simp
  also have "\<dots> \<le> length (take k xs)" by (rule card_length)
  finally show False using assms(2) by simp
qed

text \<open>A machine on which \<open>mem_init\<close> has what it needs: the kernel is linked above 1 MB and ends, with the
  directory and the array \<open>pages\<close>, below 4 MB; and 100 pages of memory lie behind all that.\<close>

definition memory_fits :: "u32 \<Rightarrow> u32 \<Rightarrow> bool" where
  "memory_fits kend n \<longleftrightarrow> unat n \<le> 65536 \<and> 0xF0100000 \<le> unat kend \<and> unat kend + 8192 + 8 * unat n \<le> 0xF0400000 \<and>
     unat kend - 0xF0000000 + 12288 + 8 * unat n + 4096 * 100 \<le> 4096 * unat n"

definition enough_memory :: "u32 \<Rightarrow> kstate \<Rightarrow> bool" where
  "enough_memory kend s \<longleftrightarrow> nextfree s = 0 \<and> page_free_list s = None \<and> memory_fits kend (npages s)"

text \<open>The first part of \<open>mem_init\<close>, up to the free list.\<close>

lemma boot_to_page_init:
  fixes kend :: u32 and s :: kstate
  defines "P \<equiv> first_page kend"
  assumes mem: "enough_memory kend s"
  shows "\<exists>s1 s2 s3. make_pgdir kend s = Inr s1 \<and> make_pages kend s1 = Inr s2 \<and> page_init kend s2 = Some (Inr s3) \<and>
    vm_inv s3 P (usable_pages s3) (boot_refs s3) \<and> kern_pgdir s3 = kaddr P 0 \<and> pages_va s3 = kaddr (Suc P) 0 \<and>
    npages s3 = npages s \<and> fresh_directory P (kmem s3) \<and> Suc P < 65536 \<and>
    KERNBASE + EXTPHYSMEM < nextfree s3 \<and> unat (nextfree s3) - 0xF0000000 + 4096 * 99 \<le> 4096 * unat (npages s)"
proof -
  note e = mem [unfolded enough_memory_def memory_fits_def]
  have n: "0 < unat (npages s)" "unat (npages s) \<le> 65536" "nextfree s = 0"
    and k: "0xF0100000 \<le> unat kend" "unat kend + 4096 + 4096 + 8 * unat (npages s) \<le> 0xF0400000"
    using e by simp_all
  obtain s1 s2 m nf where b: "make_pgdir kend s = Inr s1" "make_pages kend s1 = Inr s2"
    "s2 = s\<lparr>kern_pgdir := kaddr P 0, pages_va := kaddr (Suc P) 0,
      pages := replicate (unat (npages s)) \<lparr>pp_link = None, pp_ref = 0\<rparr>, nextfree := nf, kmem := m\<rparr>"
    "fresh_directory P m" "0xF0000000 + 4096 * Suc P < unat nf" "unat nf < 0xF0000000 + 4096 * Suc P + 8 * unat (npages s) + 4096"
    using boot_allocations [OF n(3,1,2) k] unfolding P_def by blast
  have F: "256 \<le> P" "4096 * P < unat kend - 0xF0000000 + 4096"
    using first_page_bounds [of kend] e unfolding P_def by linarith+
  have P: "P < unat (npages s)" "Suc P < 65536" using F e by linarith+
  have K: "unat KERNBASE = 0xF0000000" by (simp add: KERNBASE_def)
  have nf: "KERNBASE \<le> nf" "unat (nf - KERNBASE) = unat nf - 0xF0000000" "nf \<noteq> 0"
    using b(5) by (auto simp: word_le_nat_alt K unat_sub)
  have hole: "\<not> page_usable (nf - KERNBASE) P"
    using F P(2) b(5) nf(2) unat_page2pa [of P] by (simp add: page_usable_def word_le_nat_alt word_less_nat_alt IOPHYSMEM_def)
  obtain ps p where i: "page_init kend s2 = Some (Inr (s2\<lparr>pages := ps, page_free_list := p\<rparr>))"
    "vm_inv (s2\<lparr>pages := ps, page_free_list := p\<rparr>) P (usable_pages s2) (boot_refs s2)"
    using page_init_vm_inv [of s2 P kend] e P nf(1,3) hole b(4) by (auto simp: b(3) word_le_nat_alt)
  let ?s3 = "s2\<lparr>pages := ps, page_free_list := p\<rparr>"
  have "usable_pages ?s3 = usable_pages s2" "boot_refs ?s3 = boot_refs s2" by (simp_all add: usable_pages_def boot_refs_def fun_eq_iff)
  then have "vm_inv ?s3 P (usable_pages ?s3) (boot_refs ?s3)" using i(2) by simp
  moreover have "KERNBASE + EXTPHYSMEM < nf" using b(5) F(1) by (simp add: word_less_nat_alt KERNBASE_def EXTPHYSMEM_def)
  moreover have "unat nf - 0xF0000000 + 4096 * 99 \<le> 4096 * unat (npages s)"
  proof -
    define d where "d = unat kend - 0xF0000000"
    have "d + 12288 + 8 * unat (npages s) + 4096 * 100 \<le> 4096 * unat (npages s)" "4096 * P < d + 4096"
      unfolding d_def using e F(2) by blast+
    then have "unat nf + 4096 * 99 \<le> 0xF0000000 + 4096 * unat (npages s)" using b(6) by simp
    then show ?thesis using b(5) by simp
  qed
  ultimately show ?thesis using b(1,2,4) i(1) P(2)
    by (intro exI [of _ s1] exI [of _ s2] exI [of _ ?s3]) (simp add: b(3))
qed

text \<open>The usable pages of such a machine: more than 98 below 1 MB, and as many above.\<close>

lemma usable_enough:
  assumes "unat (nextfree s) - 0xF0000000 + 4096 * 99 \<le> 4096 * unat (npages s)" "KERNBASE + EXTPHYSMEM < nextfree s"
    "unat (npages s) \<le> 65536"
  shows "{1..<160} \<subseteq> set (usable_pages s)" "{unat (npages s) - 99..<unat (npages s)} \<subseteq> set (usable_pages s)"
    "x \<in> {unat (npages s) - 99..<unat (npages s)} \<Longrightarrow> \<not> page2pa x < EXTPHYSMEM" "99 \<le> unat (npages s)"
proof -
  have K: "unat KERNBASE = 0xF0000000" "unat EXTPHYSMEM = 0x100000" "unat (KERNBASE + EXTPHYSMEM) = 0xF0100000"
    by (simp_all add: KERNBASE_def EXTPHYSMEM_def)
  have nf: "0xF0100000 < unat (nextfree s)" using assms(2) unfolding word_less_nat_alt K .
  then have "KERNBASE \<le> nextfree s" by (simp add: word_le_nat_alt K)
  then have u: "unat (nextfree s - KERNBASE) = unat (nextfree s) - 0xF0000000" by (simp add: unat_sub K)
  show n: "99 \<le> unat (npages s)" using assms(1) by linarith
  have big: "160 \<le> unat (npages s)" using assms(1) nf by linarith
  then show "{1..<160} \<subseteq> set (usable_pages s)" using page_usable_low by (auto simp: usable_pagesD)
  have ext: "unat (nextfree s) - 0xF0000000 \<le> unat (page2pa x)" if "x \<in> {unat (npages s) - 99..<unat (npages s)}" for x
    using that assms(1,3) n unat_page2pa [of x] by auto
  then show "x \<in> {unat (npages s) - 99..<unat (npages s)} \<Longrightarrow> \<not> page2pa x < EXTPHYSMEM"
    using nf by (fastforce simp: word_less_nat_alt K)
  show "{unat (npages s) - 99..<unat (npages s)} \<subseteq> set (usable_pages s)"
  proof
    fix x assume x: "x \<in> {unat (npages s) - 99..<unat (npages s)}"
    then have "\<not> page2pa x < nextfree s - KERNBASE" using ext [OF x] by (simp add: word_less_nat_alt u)
    moreover have "x \<noteq> 0" using x big by auto
    ultimately show "x \<in> set (usable_pages s)" using x by (simp add: usable_pagesD page_usable_def)
  qed
qed

lemma vm_inv_control:
  "vm_inv (s\<lparr>cr0 := a\<rparr>) P xs ex = vm_inv s P xs ex" "vm_inv (s\<lparr>cr3 := b, tlb := t\<rparr>) P xs ex = vm_inv s P xs ex"
  by (simp_all add: vm_inv_def pt_wf_def ref_ok_def free_list_def free_chain_def)

text \<open>The tests between \<open>page_init\<close> and the kernel's mappings.\<close>

lemma tests_after_page_init:
  assumes inv: "vm_inv s P (usable_pages s) ex" and dir: "kern_pgdir s = kaddr P 0" "fresh_directory P (kmem s)" "pages_va s \<noteq> 0"
    and mem: "KERNBASE + EXTPHYSMEM < nextfree s" "unat (nextfree s) - 0xF0000000 + 4096 * 99 \<le> 4096 * unat (npages s)"
  shows "\<exists>s1 s2 s3 ys. check_page_free_list kend True s = Inr s1 \<and> check_page_alloc s1 = Inr s2 \<and> check_page s2 = Inr s3 \<and>
    vm_inv s3 P ys ex \<and> set ys = set (usable_pages s) \<and> fresh_directory P (kmem s3) \<and>
    s3 = s\<lparr>pages := pages s3, page_free_list := page_free_list s3, kmem := kmem s3, tlb := tlb s3\<rparr>"
proof -
  have wf: "pt_wf s P (usable_pages s)" using inv by (simp add: vm_inv_def)
  note us = usable_enough [OF mem(2,1) pt_wf_simps(4) [OF wf]]
  have "1 \<in> set (usable_pages s)" "page2pa 1 < EXTPHYSMEM" using us(1) page2pa_low [of 1] by auto
  then have base: "\<exists>x\<in>set (usable_pages s). page2pa x < EXTPHYSMEM" by blast
  have "unat (npages s) - 1 \<in> {unat (npages s) - 99..<unat (npages s)}" using us(4) by auto
  then have ext: "\<exists>x\<in>set (usable_pages s). \<not> page2pa x < EXTPHYSMEM" using us(2,3) by blast
  have "\<forall>x\<in>set (usable_pages s). page_usable (nextfree s - KERNBASE) x" by (simp add: usable_pagesD)
  then obtain ps1 p1 m1 where c1: "check_page_free_list kend True s = Inr (s\<lparr>pages := ps1, page_free_list := p1, kmem := m1\<rparr>)"
    "vm_inv (s\<lparr>pages := ps1, page_free_list := p1, kmem := m1\<rparr>) P (low_order True (usable_pages s)) ex"
    "\<forall>d<1024. pword m1 P d = pword (kmem s) P d"
    using free_list_test_keeps [OF inv _ mem(1) base ext, of kend True] by blast
  let ?s1 = "s\<lparr>pages := ps1, page_free_list := p1, kmem := m1\<rparr>" and ?xs = "low_order True (usable_pages s)"
  have "card {1..<160 :: nat} \<le> card (set ?xs)" using us(1) by (intro card_mono) auto
  then have len: "3 \<le> length ?xs" using card_length [of ?xs] by simp
  have "pages_va ?s1 \<noteq> 0" using dir(3) by simp
  from alloc_test_keeps [OF c1(2) len this] obtain m2 where c2: "check_page_alloc ?s1 = Inr (?s1\<lparr>kmem := m2\<rparr>)"
    "vm_inv (?s1\<lparr>kmem := m2\<rparr>) P ?xs ex" "\<forall>d<1024. pword m2 P d = pword (kmem ?s1) P d" by blast
  let ?s2 = "?s1\<lparr>kmem := m2\<rparr>"
  have d2: "\<forall>d<1024. pword m2 P d = pword (kmem s) P d" using c1(3) c2(3) by simp
  then have e2: "pword (kmem ?s2) P 0 = 0" "pword (kmem ?s2) P (Suc 0) = 0" "kern_pgdir ?s2 = kaddr P 0"
    using dir by (simp_all add: fresh_directory_def self_slot_def)
  from page_test_keeps [OF c2(2) len e2(3,1,2)] obtain ps3 p3 m3 t3 ys where
    c3: "check_page ?s2 = Inr (?s2\<lparr>pages := ps3, page_free_list := p3, kmem := m3, tlb := t3\<rparr>)"
      "vm_inv (?s2\<lparr>pages := ps3, page_free_list := p3, kmem := m3, tlb := t3\<rparr>) P ys ex" "set ys = set ?xs"
      "\<forall>d<1024. pword m3 P d = pword (kmem ?s2) P d" by blast
  have "fresh_directory P m3" using dir(2) d2 c3(4) by (simp add: fresh_directory_def self_slot_def)
  then show ?thesis using c1(1) c2(1) c3(1-3)
    by (intro exI [of _ ?s1] exI [of _ ?s2] exI [of _ "?s2\<lparr>pages := ps3, page_free_list := p3, kmem := m3, tlb := t3\<rparr>"] exI [of _ ys]) simp
qed

text \<open>The tests after the kernel's mappings, with the processor on the kernel's directory.\<close>

lemma tests_after_mapping:
  assumes inv: "vm_inv s P zs ex" and dir: "kern_pgdir s = kaddr P 0" "pword (kmem s) P 0 = 0"
    and us: "set zs \<subseteq> set (usable_pages s)" and mem: "KERNBASE + EXTPHYSMEM < nextfree s"
    and base: "\<exists>x\<in>set zs. page2pa x < EXTPHYSMEM" and ext: "\<exists>x\<in>set zs. \<not> page2pa x < EXTPHYSMEM" and len: "3 \<le> length zs"
  shows "\<exists>s1 s2 ps p m xs. check_page_free_list kend False (lcr3 (page2pa P) s) = Inr s1 \<and>
    check_page_installed_pgdir (set_cr0 s1) = Inr s2 \<and>
    s2 = (set_cr0 (lcr3 (page2pa P) s))\<lparr>pages := ps, page_free_list := p, kmem := m\<rparr> \<and>
    vm_inv s2 P xs ex \<and> set xs = set zs \<and> vmap m P = vmap (kmem s) P \<and>
    (\<forall>d<1024. pword m P d = pword (kmem s) P d)"
proof -
  let ?s0 = "lcr3 (page2pa P) s"
  have inv0: "vm_inv ?s0 P zs ex" using inv by (simp add: lcr3_def vm_inv_control)
  have "\<forall>x\<in>set zs. page_usable (nextfree ?s0 - KERNBASE) x" using us by (auto simp: usable_pagesD lcr3_def)
  moreover have "KERNBASE + EXTPHYSMEM < nextfree ?s0" using mem by (simp add: lcr3_def)
  ultimately obtain ps1 p1 m1 where c1: "check_page_free_list kend False ?s0 = Inr (?s0\<lparr>pages := ps1, page_free_list := p1, kmem := m1\<rparr>)"
    "vm_inv (?s0\<lparr>pages := ps1, page_free_list := p1, kmem := m1\<rparr>) P (low_order False zs) ex"
    "vmap m1 P = vmap (kmem ?s0) P" "\<forall>d<1024. pword m1 P d = pword (kmem ?s0) P d"
    using free_list_test_keeps [OF inv0 _ _ base ext, of kend False] by blast
  let ?s1 = "?s0\<lparr>pages := ps1, page_free_list := p1, kmem := m1\<rparr>"
  have inv1: "vm_inv (set_cr0 ?s1) P zs ex" using c1(2) by (simp add: set_cr0_def rcr0_def lcr0_def Let_def vm_inv_control low_order_def)
  have f1: "kern_pgdir (set_cr0 ?s1) = kaddr P 0" "PTE_ADDR (cr3 (set_cr0 ?s1)) = page2pa P" "tlb (set_cr0 ?s1) = (\<lambda>_. None)"
    "pword (kmem (set_cr0 ?s1)) P 0 = 0" "vmap (kmem (set_cr0 ?s1)) P = vmap (kmem s) P"
    using dir c1(3,4) PTE_ADDR_flags [OF page2pa_aligned, of 0 P] by (simp_all add: set_cr0_def rcr0_def lcr0_def lcr3_def Let_def)
  obtain ps p m xs where c2: "check_page_installed_pgdir (set_cr0 ?s1) = Inr ((set_cr0 ?s1)\<lparr>pages := ps, page_free_list := p, kmem := m\<rparr>)"
    "vm_inv ((set_cr0 ?s1)\<lparr>pages := ps, page_free_list := p, kmem := m\<rparr>) P xs ex" "set xs = set zs"
    "vmap m P = vmap (kmem (set_cr0 ?s1)) P" "\<forall>d<1024. pword m P d = pword (kmem (set_cr0 ?s1)) P d"
    using installed_test_keeps [OF inv1 len f1(1,2,4,3)] by blast
  have "(set_cr0 ?s1)\<lparr>pages := ps, page_free_list := p, kmem := m\<rparr> = (set_cr0 ?s0)\<lparr>pages := ps, page_free_list := p, kmem := m\<rparr>"
    by (simp add: set_cr0_def rcr0_def lcr0_def Let_def)
  moreover have "kmem (set_cr0 ?s1) = m1" by (simp add: set_cr0_def rcr0_def lcr0_def Let_def)
  moreover have "\<forall>d<1024. pword m1 P d = pword (kmem s) P d" using c1(4) by (simp add: lcr3_def)
  ultimately show ?thesis using c1(1) c2 f1(5) by (intro exI conjI) (assumption | simp)+
qed

text \<open>The state \<open>mem_init\<close> establishes: the processor on the kernel's directory with paging on, the invariants of
  the page tables, the free list and the reference counts, a consistent translation cache, the kernel's
  part of the address space as it should be, and nothing below \<open>UPAGES\<close>.\<close>

definition kernel_space :: "nat \<Rightarrow> u32 \<Rightarrow> kstate \<Rightarrow> bool" where
  "kernel_space P bootstack s \<longleftrightarrow>
     kern_pgdir s = kaddr P 0 \<and> cr3 s = page2pa P \<and> cr0 s AND CR0_PG \<noteq> 0 \<and>
     (\<exists>xs. vm_inv s P xs (boot_refs s) \<and> set xs \<subseteq> set (usable_pages s)) \<and> tlb s = (\<lambda>_. None) \<and>
     pword (kmem s) P self_slot = page2pa P OR PTE_U OR PTE_P \<and>
     kernel_layout (pages_pages s) (pages_va s - KERNBASE) (bootstack - KERNBASE) (vmap (kmem s) P) \<and>
     (\<forall>a. unat a < 0xEF000000 \<or> 0xEF000000 + 4096 * pages_pages s \<le> unat a \<and> unat a < 0xEFFF8000 \<longrightarrow>
        vmap (kmem s) P (key a) = None)"

lemma paging_on: "cr0 (set_cr0 s) AND CR0_PG \<noteq> 0"
proof -
  have "bit (cr0 (set_cr0 s) AND CR0_PG) 31" by (simp add: set_cr0_def rcr0_def lcr0_def Let_def CR0_PG_def CR0_TS_def CR0_EM_def bit_simps bit_numeral_rec)
  then show ?thesis by (metis bit_0_eq bot_apply bot_bool_def)
qed

lemma mem_init_ready:
  assumes mem: "enough_memory kend (i386_detect_memory cmos s)"
    and stack: "KERNBASE \<le> bootstack" "unat bootstack mod 4096 = 0"
  shows "\<exists>s'. mem_init kend bootstack cmos s = Inr s' \<and> kernel_space (first_page kend) bootstack s'"
proof -
  define P where "P = first_page kend"
  obtain s1 s2 s3 where b: "make_pgdir kend (i386_detect_memory cmos s) = Inr s1" "make_pages kend s1 = Inr s2"
    "page_init kend s2 = Some (Inr s3)" "vm_inv s3 P (usable_pages s3) (boot_refs s3)" "kern_pgdir s3 = kaddr P 0"
    "pages_va s3 = kaddr (Suc P) 0" "npages s3 = npages (i386_detect_memory cmos s)" "fresh_directory P (kmem s3)" "Suc P < 65536"
    "KERNBASE + EXTPHYSMEM < nextfree s3"
    "unat (nextfree s3) - 0xF0000000 + 4096 * 99 \<le> 4096 * unat (npages (i386_detect_memory cmos s))"
    using boot_to_page_init [OF mem] unfolding P_def by blast
  have va: "unat (pages_va s3) = 0xF0000000 + 4096 * Suc P" using b(6,9) by (simp add: unat_kaddr)
  then have va': "pages_va s3 \<noteq> 0" "KERNBASE \<le> pages_va s3" "unat (pages_va s3) mod 4096 = 0"
    by (auto simp: word_le_nat_alt KERNBASE_def mod_add_eq [symmetric])
  obtain s4 s5 s6 ys where t: "check_page_free_list kend True s3 = Inr s4" "check_page_alloc s4 = Inr s5" "check_page s5 = Inr s6"
    "vm_inv s6 P ys (boot_refs s3)" "set ys = set (usable_pages s3)" "fresh_directory P (kmem s6)"
    "s6 = s3\<lparr>pages := pages s6, page_free_list := page_free_list s6, kmem := kmem s6, tlb := tlb s6\<rparr>"
    using tests_after_page_init [OF b(4,5,8) va'(1) b(10), of kend] b(7,11) by auto
  have f6: "npages s6 = npages s3" "pages_va s6 = pages_va s3" "nextfree s6 = nextfree s3" "kern_pgdir s6 = kaddr P 0"
    using b(5) by (subst t(7), simp)+
  have "unat (npages s3) \<le> 65536" using b(4) pt_wf_simps(4) by (auto simp: vm_inv_def)
  note us = usable_enough [of s3, OF b(11) [folded b(7)] b(10) this]
  have "card {1..<160 :: nat} \<le> card (set ys)" using us(1) t(5) by (intro card_mono) auto
  then have len: "159 \<le> length ys" using card_length [of ys] by simp
  obtain s7 zs k where m: "map_kernel bootstack s6 = Inr s7" "check_kern_pgdir bootstack s7 = Inr ()" "vm_inv s7 P zs (boot_refs s3)"
    "vm_step P s6 s7" "kernel_layout (pages_pages s6) (pages_va s6 - KERNBASE) (bootstack - KERNBASE) (vmap (kmem s7) P)"
    "\<forall>a. unat a < 0xEF000000 \<or> 0xEF000000 + 4096 * pages_pages s6 \<le> unat a \<and> unat a < 0xEFFF8000 \<longrightarrow> vmap (kmem s7) P (key a) = None"
    "k \<le> 98" "zs = drop k ys" "pword (kmem s7) P 0 = 0" "pword (kmem s7) P self_slot = page2pa P OR PTE_U OR PTE_P"
    using kernel_mapped [OF t(4) f6(4) t(6), of bootstack] len va'(2,3) stack f6(2) by auto
  have f7: "npages s7 = npages s3" "pages_va s7 = pages_va s3" "nextfree s7 = nextfree s3" "kern_pgdir s7 = kaddr P 0"
    using m(4) f6 by (simp_all add: vm_step_def)
  have "usable_pages s7 = usable_pages s3" using f7(1,3) by (simp add: usable_pages_def)
  then have zs: "set zs \<subseteq> set (usable_pages s7)" "set zs \<subseteq> set (usable_pages s3)" using m(8) t(5) set_drop_subset by fastforce+
  have "\<exists>x\<in>{1..<160}. x \<in> set zs"
    unfolding m(8) using us(1) t(5) m(7) by (intro left_after_drop) auto
  then have base: "\<exists>x\<in>set zs. page2pa x < EXTPHYSMEM" using page2pa_low by fastforce
  have "\<exists>x\<in>{unat (npages s3) - 99..<unat (npages s3)}. x \<in> set zs"
    unfolding m(8) using us(2,4) t(5) m(7) by (intro left_after_drop) auto
  then have ext: "\<exists>x\<in>set zs. \<not> page2pa x < EXTPHYSMEM" using us(3) by blast
  have len7: "3 \<le> length zs" and nf7: "KERNBASE + EXTPHYSMEM < nextfree s7" using len m(7,8) b(10) f7(3) by simp_all
  obtain s8 s' ps p mm xs where c: "check_page_free_list kend False (lcr3 (page2pa P) s7) = Inr s8"
    "check_page_installed_pgdir (set_cr0 s8) = Inr s'" "s' = (set_cr0 (lcr3 (page2pa P) s7))\<lparr>pages := ps, page_free_list := p, kmem := mm\<rparr>"
    "vm_inv s' P xs (boot_refs s3)" "set xs = set zs" "vmap mm P = vmap (kmem s7) P" "\<forall>d<1024. pword mm P d = pword (kmem s7) P d"
    using tests_after_mapping [OF m(3) f7(4) m(9) zs(1) nf7 base ext len7] by blast
  have run: "mem_init kend bootstack cmos s = Inr s'"
    using b(1-3) t(1-3) m(1,2) c(1,2) f7(4) PADDR_kaddr [of P] b(9) by (simp add: mem_init_def)
  have f: "npages s' = npages s3" "nextfree s' = nextfree s3" "pages_va s' = pages_va s6" "kern_pgdir s' = kaddr P 0"
    "cr3 s' = page2pa P" "tlb s' = (\<lambda>_. None)" "vmap (kmem s') P = vmap (kmem s7) P"
    using f6 f7 c(6) unfolding c(3) by (simp_all add: set_cr0_def rcr0_def lcr0_def lcr3_def Let_def)
  have "cr0 s' AND CR0_PG \<noteq> 0" using paging_on [of "lcr3 (page2pa P) s7"] unfolding c(3) by simp
  moreover have "boot_refs s' = boot_refs s3" "usable_pages s' = usable_pages s3" "pages_pages s' = pages_pages s6"
    using f(1,2) f6(1) by (simp_all add: boot_refs_def usable_pages_def pages_pages_def fun_eq_iff)
  moreover have "pword (kmem s') P self_slot = page2pa P OR PTE_U OR PTE_P"
    using c(7) m(10) unfolding c(3) by (simp add: self_slot_def)
  ultimately have "kernel_space P bootstack s'" using c(4,5) zs(2) m(5,6) f unfolding kernel_space_def by auto
  then show ?thesis using run unfolding P_def by blast
qed

text \<open>C2. mem_init succeeds: on a machine of at most 256 MB with room for what the boot code allocates, it
  returns without a panic or a fault, so all of its self-tests pass. The processor is on the kernel's
  directory with paging on; the directory maps the array pages, the kernel stack and physical memory as
  it should and nothing below UPAGES; the reference counts, the free list and the page tables satisfy
  the invariant of the page table operations; and the translation cache is consistent.\<close>

theorem mem_init_succeeds:
  assumes "enough_memory kend (i386_detect_memory cmos s)" "KERNBASE \<le> bootstack" "unat bootstack mod 4096 = 0"
  shows "\<exists>s' xs. mem_init kend bootstack cmos s = Inr s' \<and>
    kern_pgdir s' = kaddr (first_page kend) 0 \<and> cr3 s' = page2pa (first_page kend) \<and> cr0 s' AND CR0_PG \<noteq> 0 \<and>
    vm_inv s' (first_page kend) xs (boot_refs s') \<and> set xs \<subseteq> set (usable_pages s') \<and> tlb_ok s' (first_page kend) \<and>
    kernel_layout (pages_pages s') (pages_va s' - KERNBASE) (bootstack - KERNBASE) (vmap (kmem s') (first_page kend)) \<and>
    (\<forall>a. unat a < 0xEF000000 \<or> 0xEF000000 + 4096 * pages_pages s' \<le> unat a \<and> unat a < 0xEFFF8000 \<longrightarrow>
       vmap (kmem s') (first_page kend) (key a) = None)"
  using mem_init_ready [OF assms] unfolding kernel_space_def by (auto simp: tlb_ok_def)

text \<open>A machine with 16 MB of memory, 15360 KB of it above 1 MB, before anything has run.\<close>

definition fresh_machine :: kstate where
  "fresh_machine = test_machine\<lparr>nextfree := 0\<rparr>"

definition cmos_16MB :: "u8 \<Rightarrow> u8" where
  "cmos_16MB r = (if r = 0x18 then 0x3C else 0)"

lemma fresh_npages: "npages (i386_detect_memory cmos_16MB fresh_machine) = 4096"
  by (simp add: i386_detect_memory_def nvram_read_def mc146818_read_def cmos_16MB_def NVRAM_EXT16LO_def NVRAM_EXTLO_def
      NVRAM_BASELO_def PGSIZE_def push_bit_eq_mult Let_def)

lemma fresh_enough: "enough_memory 0xF0110000 (i386_detect_memory cmos_16MB fresh_machine)"
proof -
  have "nextfree (i386_detect_memory cmos_16MB fresh_machine) = 0" "page_free_list (i386_detect_memory cmos_16MB fresh_machine) = None"
    by (simp_all add: i386_detect_memory_def Let_def fresh_machine_def test_machine_def)
  then show ?thesis by (simp add: enough_memory_def memory_fits_def fresh_npages)
qed

theorem mem_init_succeeds_witness:
  "\<exists>s'. mem_init 0xF0110000 0xF0108000 cmos_16MB fresh_machine = Inr s' \<and> kern_pgdir s' = kaddr 272 0"
  using mem_init_succeeds [OF fresh_enough, where bootstack = "0xF0108000"] by (auto simp: KERNBASE_def first_page_def)

end
