(* ===== verification/Vm_Properties.thy ===== *)
theory Vm_Properties
  imports Boot_Map
begin

text \<open>
  The properties of the page tables, each with its application to a small concrete machine:
  five pages, page 1 the directory, pages 0 and 2 held, pages 3 and 4 free, no table yet.
\<close>

section \<open>A small machine\<close>

definition small_machine :: kstate where
  "small_machine = \<lparr>npages = 5, npages_basemem = 5, kern_pgdir = kaddr 1 0,
     pages = [\<lparr>pp_link = None, pp_ref = 1\<rparr>, \<lparr>pp_link = None, pp_ref = 1\<rparr>, \<lparr>pp_link = None, pp_ref = 1\<rparr>,
              \<lparr>pp_link = Some 4, pp_ref = 0\<rparr>, \<lparr>pp_link = None, pp_ref = 0\<rparr>],
     pages_va = 0, page_free_list = Some 3, nextfree = 0xF0100000, kmem = (\<lambda>_. 0),
     tlb = Map.empty, cr0 = 0, cr3 = 0\<rparr>"

definition small_held :: "nat \<Rightarrow> nat" where
  "small_held q = (if q < 3 then 1 else 0)"

lemma no_tables [simp]: "table_slots (\<lambda>_. 0) P = {}" "vmap (\<lambda>_. 0) P = Map.empty"
  by (auto simp: table_slots_def vmap_def)

lemma small_simps:
  "kmem small_machine = (\<lambda>_. 0)" "npages small_machine = 5" "tlb small_machine = Map.empty"
  "length (pages small_machine) = 5" "page_free_list small_machine = Some 3"
  "pages small_machine ! 0 = \<lparr>pp_link = None, pp_ref = 1\<rparr>"
  "pages small_machine ! Suc 0 = \<lparr>pp_link = None, pp_ref = 1\<rparr>"
  "pages small_machine ! 2 = \<lparr>pp_link = None, pp_ref = 1\<rparr>"
  "pages small_machine ! 3 = \<lparr>pp_link = Some 4, pp_ref = 0\<rparr>"
  "pages small_machine ! 4 = \<lparr>pp_link = None, pp_ref = 0\<rparr>"
  by (simp_all add: small_machine_def)

lemma less_5: "(i :: nat) < 5 \<longleftrightarrow> i = 0 \<or> i = Suc 0 \<or> i = 2 \<or> i = 3 \<or> i = 4"
  by auto

lemma small_free_list: "free_list small_machine [3, 4]"
  by (simp add: free_list_def free_chain_def small_simps) (auto simp: less_5 small_simps)

lemma small_inv: "vm_inv small_machine 1 [3, 4] small_held"
  using small_free_list
  by (auto simp: vm_inv_def pt_wf_def ref_ok_def small_simps small_held_def maps_to_def less_5)

lemma small_tlb: "tlb_ok small_machine P"
  by (simp add: tlb_ok_def small_simps)

lemma small_va: "user_va 0x1000" "key 0x1000 = (0, Suc 0)" "unat (PDX 0x1000) = 0" "unat (PDX 0x1000) \<noteq> self_slot"
  by (simp_all add: user_va_def jos_consts key_def unat_PDX unat_PTX self_slot_def)

lemma small_entry: "page2pa 2 OR 2 OR PTE_P = 0x2003" "pte_entry 2 2 = 0x2003" "PTE_ADDR 0x2003 = 0x2000"
  by (simp_all add: pte_entry_def page2pa_def PGSHIFT_def PTE_P_def PTE_ADDR_def push_bit_eq_mult)

lemma small_insert:
  "\<exists>s' ys. page_insert (kaddr 1 0) 2 0x1000 2 small_machine = Inr (0, s') \<and>
    vm_inv s' 1 ys small_held \<and> vmap (kmem s') 1 = [key 0x1000 \<mapsto> pte_entry 2 2]"
  using page_insert_ok [OF small_inv user_va_key [OF small_va(1)], of 2 2] by (auto simp: small_simps)

section \<open>Properties\<close>

text \<open>C12. pgdir_walk: a present page table gives the address of its entry; otherwise, without
  create or without a free page, the null pointer and no change; otherwise the first free page,
  zeroed, becomes the table, and neither the mappings nor the invariant are disturbed.\<close>

theorem pgdir_walk_cases:
  assumes "vm_inv s P xs ex" "unat (PDX va) \<noteq> self_slot"
  shows "pgdir_walk (kaddr P 0) va create s =
      (if unat (PDX va) \<in> table_slots (kmem s) P
       then Inr (Some (kaddr (table_of (kmem s) P (unat (PDX va))) (unat (PTX va))), s)
       else if \<not> create \<or> xs = [] then Inr (None, s)
       else Inr (Some (kaddr (hd xs) (unat (PTX va))), walk_state P (unat (PDX va)) (hd xs) s)) \<and>
    (unat (PDX va) \<in> table_slots (kmem s) P \<or> xs = [] \<or>
      (vm_inv (walk_state P (unat (PDX va)) (hd xs) s) P (tl xs) ex \<and>
       vmap (kmem (walk_state P (unat (PDX va)) (hd xs) s)) P = vmap (kmem s) P))"
proof -
  have wf: "pt_wf s P xs" using assms(1) by (simp add: vm_inv_def)
  show ?thesis
    using pgdir_walk_present [OF wf] pgdir_walk_absent [OF assms(2)] pgdir_walk_no_mem [of s P va]
      pgdir_walk_create [of s P "hd xs" "tl xs" va] walk_state_step(1,2) [of s P "hd xs" "tl xs" ex "unat (PDX va)"]
      wf assms PDX_less [of va]
    by (cases "unat (PDX va) \<in> table_slots (kmem s) P"; cases create; cases xs) simp_all
qed

theorem pgdir_walk_cases_witness:
  "pgdir_walk (kaddr 1 0) 0x1000 False small_machine = Inr (None, small_machine) \<and>
   pgdir_walk (kaddr 1 0) 0x1000 True small_machine = Inr (Some (kaddr 3 1), walk_state 1 0 3 small_machine)"
  using pgdir_walk_cases [OF small_inv small_va(4), of False] pgdir_walk_cases [OF small_inv small_va(4), of True]
  by (simp add: small_simps small_va unat_PTX)

text \<open>C4. page_insert maps the page at the address with the permissions, whatever was mapped there
  before (the same page included): the old mapping's reference is given back, the new one is
  counted, the stale translation is dropped, and nothing else in the address space changes.\<close>

theorem page_insert_maps:
  assumes "vm_inv s P xs ex" "tlb_ok s P" "user_va va"
    "unat (PDX va) \<in> table_slots (kmem s) P \<or> xs \<noteq> []"
    "pp < unat (npages s)" "pp \<notin> set xs" "unat (pp_ref (pages s ! pp)) < 65535" "perm < 4096"
  shows "\<exists>s' ys. page_insert (kaddr P 0) pp va perm s = Inr (0, s') \<and> vm_inv s' P ys ex \<and> tlb_ok s' P \<and>
    vmap (kmem s') P = (vmap (kmem s) P)(key va \<mapsto> page2pa pp OR perm OR PTE_P)"
  using page_insert_ok [OF assms(1) user_va_key [OF assms(3)] assms(4-8)] assms(2)
  by (auto simp: pte_entry_def)

theorem page_insert_maps_witness:
  "\<exists>s'. page_insert (kaddr 1 0) 2 0x1000 2 small_machine = Inr (0, s') \<and>
    vmap (kmem s') 1 = [(0, Suc 0) \<mapsto> 0x2003]"
  using page_insert_maps [OF small_inv small_tlb small_va(1), of 2 2]
  by (auto simp: small_simps small_va small_entry)

text \<open>C26. page_insert without a page table and without a free page answers -E_NO_MEM and changes
  nothing: no count is taken and no entry is written.\<close>

theorem page_insert_out_of_memory:
  assumes "vm_inv s P [] ex" "user_va va" "unat (PDX va) \<notin> table_slots (kmem s) P"
  shows "page_insert (kaddr P 0) pp va perm s = Inr (- E_NO_MEM, s)"
  using assms page_insert_no_mem [OF _ user_not_self [OF user_va_key [OF assms(2)]]] by (simp add: vm_inv_def)

definition full_machine :: kstate where
  "full_machine = small_machine\<lparr>page_free_list := None,
     pages := replicate 5 \<lparr>pp_link = None, pp_ref = 1\<rparr>\<rparr>"

lemma full_inv: "vm_inv full_machine 1 [] (\<lambda>_. 1)"
  by (auto simp: vm_inv_def pt_wf_def ref_ok_def full_machine_def small_machine_def maps_to_def
      free_list_def free_chain_def)

theorem page_insert_out_of_memory_witness:
  "page_insert (kaddr 1 0) 2 0x1000 2 full_machine = Inr (- 4, full_machine)"
  using page_insert_out_of_memory [OF full_inv small_va(1)]
  by (simp add: full_machine_def small_simps E_NO_MEM_def)

text \<open>C8. page_remove: the address is unmapped, every other mapping stays, the reference of the page
  that was mapped is given back and the page is freed with its last one, and the translation is
  dropped; an unmapped address is left as it is.\<close>

theorem page_remove_unmaps:
  assumes "vm_inv s P xs ex" "tlb_ok s P" "user_va va"
  shows "\<exists>s'. page_remove (kaddr P 0) va s = Inr s' \<and>
    vmap (kmem s') P = (vmap (kmem s) P)(key va := None) \<and> tlb_ok s' P \<and>
    (case vmap (kmem s) P (key va) of
       None \<Rightarrow> s' = s
     | Some p \<Rightarrow> vm_inv s' P (if pp_ref (pages s ! pte_page p) = 1 then pte_page p # xs else xs) ex)"
proof (cases "vmap (kmem s) P (key va)")
  case None
  then have "(vmap (kmem s) P)(key va := None) = vmap (kmem s) P" by auto
  then show ?thesis
    using None assms(1,2) page_remove_unmapped [OF _ user_not_self [OF user_va_key [OF assms(3)]] None]
    by (auto simp: vm_inv_def)
next
  case (Some p)
  note k = user_va_key [OF assms(3)]
  have "tlb_ok (unmap_state P va s) P"
    using unmap_or_same [OF assms(1) k] page_remove_mapped [OF assms(1) k Some] assms(2) by auto
  then show ?thesis
    using Some page_remove_mapped [OF assms(1) k Some] unmap_state_inv [OF assms(1) k Some]
    by simp
qed

theorem page_remove_unmaps_witness:
  "page_remove (kaddr 1 0) 0x1000 small_machine = Inr small_machine"
  using page_remove_unmaps [OF small_inv small_tlb small_va(1)] by (simp add: small_simps)

text \<open>C3. Any list of page_insert and page_remove calls on user addresses, with pages the caller holds,
  runs without a panic, and acts on the address space as the same list of updates acts on a map
  (an insertion that reports -E_NO_MEM changes nothing); the reference counts stay exact and the
  cached translations stay right.\<close>

theorem mapping_commands_refine_map:
  assumes "as_inv P N ex s" "cmds_allowed user_va (as_allowed N ex) key pte_entry cs (vmap (kmem s) P)"
  shows "\<exists>rs s'. run_cmds (page_insert (kaddr P 0)) (page_remove (kaddr P 0)) cs s = Inr (rs, s') \<and>
    as_inv P N ex s' \<and> length rs = length cs \<and> set rs \<subseteq> {0, - E_NO_MEM} \<and>
    vmap (kmem s') P = abs_run key pte_entry cs rs (vmap (kmem s) P)"
  using assms by (rule vm.run_refines)

lemma small_as_inv: "as_inv 1 5 small_held small_machine"
  using small_inv small_tlb by (auto simp: as_inv_def small_simps)

theorem mapping_commands_refine_map_witness:
  "\<exists>rs s'. run_cmds (page_insert (kaddr 1 0)) (page_remove (kaddr 1 0))
      [Ins 2 0x1000 2, Ins 2 0x1000 4, Rem 0x1000] small_machine = Inr (rs, s') \<and>
    as_inv 1 5 small_held s' \<and> length rs = 3"
proof -
  have m: "maps_to [(0, Suc 0) \<mapsto> e] 2 \<le> 1" "maps_to Map.empty 2 \<le> 1" for e
    using maps_to_upd [of "(0, Suc 0)" Map.empty "Some e" 2]
    by (auto simp: user_keys_def maps_to_def hits_def)
  have "cmds_allowed user_va (as_allowed 5 small_held) key pte_entry
      [Ins 2 0x1000 2, Ins 2 0x1000 4, Rem 0x1000] (vmap (kmem small_machine) 1)"
    using m(1) [of "pte_entry 2 2"] m(2) by (simp add: small_simps small_va as_allowed_def small_held_def)
  from mapping_commands_refine_map [OF small_as_inv this] show ?thesis by auto
qed

text \<open>page_lookup: without a page table the answer is null; with one, it is the page the entry's
  address bits name, and the entry is stored through pte_store when that is not null. A mapped
  address gives the page it is mapped to.\<close>

lemma page_lookup_answers:
  assumes "vm_inv s P xs ex" "user_va va"
  shows "(unat (PDX va) \<notin> table_slots (kmem s) P \<longrightarrow> page_lookup (kaddr P 0) va want s = Inr (None, None, s)) \<and>
    (\<forall>p. vmap (kmem s) P (key va) = Some p \<longrightarrow> page_lookup (kaddr P 0) va want s =
      Inr (Some (pte_page p),
        if want then Some (kaddr (table_of (kmem s) P (unat (PDX va))) (unat (PTX va))) else None, s))"
  using assms page_lookup_no_table [OF user_not_self [OF user_va_key [OF assms(2)]]]
    page_lookup_mapped [of s P xs va _ want] user_va_key [OF assms(2)]
  by (simp add: vm_inv_def)

text \<open>C28. page_lookup at an address whose page table exists but whose entry is empty does not answer
  null: the entry is not tested for PTE_P, so the answer is the PageInfo of page 0.\<close>

theorem page_lookup_empty_entry:
  assumes "vm_inv s P xs ex" "unat (PDX va) \<in> table_slots (kmem s) P"
    "pword (kmem s) (table_of (kmem s) P (unat (PDX va))) (unat (PTX va)) = 0"
  shows "page_lookup (kaddr P 0) va False s = Inr (Some 0, None, s) \<and> vmap (kmem s) P (key va) = None"
  using assms page_lookup_zero_entry [of s P xs va] by (simp add: vm_inv_def vmap_key)

lemma walked_small:
  "vm_inv (walk_state 1 0 3 small_machine) 1 [4] small_held"
  "table_slots (kmem (walk_state 1 0 3 small_machine)) 1 = {0}"
  "table_of (kmem (walk_state 1 0 3 small_machine)) 1 0 = 3"
  "pword (kmem (walk_state 1 0 3 small_machine)) 3 1 = 0"
  using walk_state_step(1,5,8) [OF small_inv, of 0]
  by (simp_all add: small_simps self_slot_def walk_state_def pword_simps)

theorem page_lookup_empty_entry_witness:
  "page_lookup (kaddr 1 0) 0x1000 False (walk_state 1 0 3 small_machine)
     = Inr (Some 0, None, walk_state 1 0 3 small_machine)"
  using page_lookup_empty_entry [OF walked_small(1), of "0x1000"] walked_small(2-4)
  by (simp add: small_va unat_PTX)

text \<open>C25. check_va2pa, the independent walk the boot checks use, reads the same map as the operations
  write: the page address of the mapping, or ~0 where there is none.\<close>

theorem check_va2pa_reads_map:
  assumes "vm_inv s P xs ex" "unat (PDX va) \<noteq> self_slot"
  shows "check_va2pa (kaddr P 0) va s =
    Inr (case vmap (kmem s) P (key va) of None \<Rightarrow> NOT 0 | Some p \<Rightarrow> PTE_ADDR p)"
  using assms check_va2pa_eq [of s P xs va] by (simp add: vm_inv_def)

theorem check_va2pa_reads_map_witness:
  "\<exists>s'. page_insert (kaddr 1 0) 2 0x1000 2 small_machine = Inr (0, s') \<and>
    check_va2pa (kaddr 1 0) 0x1000 s' = Inr 0x2000"
proof -
  obtain s' ys where s': "page_insert (kaddr 1 0) 2 0x1000 2 small_machine = Inr (0, s')"
    "vm_inv s' 1 ys small_held" "vmap (kmem s') 1 = [key 0x1000 \<mapsto> pte_entry 2 2]"
    using small_insert by blast
  from check_va2pa_reads_map [OF s'(2) small_va(4)] s'(1,3) show ?thesis by (simp add: small_entry)
qed

text \<open>C11. boot_map_region with a size in pages, over a region above UTOP that does not wrap around, has
  no page in the directory slot of UVPT, and for whose page tables there are free pages: it
  ends, never writes through a null entry pointer, maps page j of the region to pa + j * PGSIZE
  with the permissions, and changes no other mapping. For each directory slot of the region
  without a page table it takes one page from the head of the free list; these pages become page
  tables and their reference count goes from 0 to 1, and no other reference count changes.\<close>

theorem boot_map_region_maps:
  assumes "vm_inv s P xs ex" "unat va + 4096 * unat sz \<le> 2 ^ 32" "unat va + unat sz < 2 ^ 32"
    "\<forall>j<unat sz. 955 \<le> unat (PDX (region_va va j)) \<and> unat (PDX (region_va va j)) \<noteq> self_slot"
    "tables_needed (kmem s) P va {..<unat sz} \<le> length xs"
  shows "\<exists>s' ys ns. boot_map_region (kaddr P 0) va sz pa perm s = Inr s' \<and> vm_inv s' P ys ex \<and>
    (\<forall>j<unat sz. vmap (kmem s') P (key (va + word_of_nat j * PGSIZE)) =
       Some ((pa + word_of_nat j * PGSIZE) OR perm OR PTE_P)) \<and>
    (\<forall>k. (\<forall>j<unat sz. k \<noteq> key (va + word_of_nat j * PGSIZE)) \<longrightarrow> vmap (kmem s') P k = vmap (kmem s) P k) \<and>
    xs = ns @ ys \<and> length ns = tables_needed (kmem s) P va {..<unat sz} \<and>
    table_slots (kmem s') P = table_slots (kmem s) P \<union> region_slots va {..<unat sz} \<and>
    table_of (kmem s') P ` table_slots (kmem s') P = table_of (kmem s) P ` table_slots (kmem s) P \<union> set ns \<and>
    (\<forall>q<unat (npages s). if q \<in> set ns then pp_ref (pages s ! q) = 0 \<and> pp_ref (pages s' ! q) = 1
       else pp_ref (pages s' ! q) = pp_ref (pages s ! q))"
proof -
  let ?n = "tables_needed (kmem s) P va {..<unat sz}"
  obtain s' ys where r: "boot_map_region (kaddr P 0) va sz pa perm s = Inr s'" "vm_inv s' P ys ex" "vm_step P s s'"
    "\<forall>j<unat sz. vmap (kmem s') P (key (region_va va j)) = Some (region_entry pa perm j)"
    "\<forall>k. (\<forall>j<unat sz. k \<noteq> key (region_va va j)) \<longrightarrow> vmap (kmem s') P k = vmap (kmem s) P k"
    "table_slots (kmem s') P = table_slots (kmem s) P \<union> region_slots va {..<unat sz}"
    "ys = drop ?n xs" "table_pages s' P = table_pages s P \<union> set (take ?n xs)"
    using boot_map_region_spec [OF assms, of pa perm] by blast
  have c: "\<forall>q<unat (npages s). if q \<in> set (take ?n xs) then pp_ref (pages s ! q) = 0 \<and> pp_ref (pages s' ! q) = 1
       else pp_ref (pages s' ! q) = pp_ref (pages s ! q)"
    using boot_map_region_counts [OF assms(1) r(2,3) _ r(5,8)] assms(4) by blast
  show ?thesis
    by (rule exI [of _ s'], rule exI [of _ ys], rule exI [of _ "take ?n xs"])
      (use r c assms(5) in \<open>simp add: region_va_def region_entry_def table_pages_def\<close>)
qed

theorem boot_map_region_maps_witness:
  "\<exists>s'. boot_map_region (kaddr 1 0) 0xEF000000 2 0x2000 PTE_U small_machine = Inr s' \<and>
    vmap (kmem s') 1 (956, 1) = Some 0x3005 \<and> pp_ref (pages s' ! 3) = 1"
proof -
  have j: "region_slots 0xEF000000 {..<unat (2 :: u32)} = {956}"
    "\<forall>j<unat (2 :: u32). unat (PDX (region_va 0xEF000000 j)) = 956"
    by (auto simp: region_slots_def region_va_def unat_PDX less_2_cases_iff PGSIZE_def image_iff
        intro!: bexI [of _ 0])
  have k: "key (0xEF000000 + PGSIZE) = (956, 1)" "(0x2000 + PGSIZE) OR PTE_U OR PTE_P = 0x3005" by (simp_all add: key_def unat_PDX unat_PTX PGSIZE_def PTE_U_def PTE_P_def)
  have need: "tables_needed (kmem small_machine) 1 0xEF000000 {..<unat (2 :: u32)} = 1"
    using j(1) by (simp add: small_simps tables_needed_def)
  obtain s' ys ns where r: "boot_map_region (kaddr 1 0) 0xEF000000 2 0x2000 PTE_U small_machine = Inr s'"
    "\<forall>j<unat (2 :: u32). vmap (kmem s') 1 (key (0xEF000000 + word_of_nat j * PGSIZE)) =
       Some ((0x2000 + word_of_nat j * PGSIZE) OR PTE_U OR PTE_P)"
    "[3, 4] = ns @ ys" "length ns = tables_needed (kmem small_machine) 1 0xEF000000 {..<unat (2 :: u32)}"
    "\<forall>q<unat (npages small_machine). if q \<in> set ns then pp_ref (pages small_machine ! q) = 0 \<and> pp_ref (pages s' ! q) = 1
       else pp_ref (pages s' ! q) = pp_ref (pages small_machine ! q)"
    using boot_map_region_maps [OF small_inv, of "0xEF000000" 2 "0x2000" PTE_U] j need
    by (auto simp: self_slot_def)
  have "vmap (kmem s') 1 (key (0xEF000000 + PGSIZE)) = Some ((0x2000 + PGSIZE) OR PTE_U OR PTE_P)"
    using r(2) [THEN spec, of 1] by simp
  moreover have "ns = [3]" using r(3,4) need by (cases ns) auto
  then have "pp_ref (pages s' ! 3) = 1" using r(5) [THEN spec, of 3] by (simp add: small_simps)
  ultimately show ?thesis using r(1) k by simp
qed

end
