(* ===== verification/Mmu_Access.thy ===== *)
theory Mmu_Access
  imports Mem_Init Vm_Properties
begin

text \<open>
  What a program sees of its page tables: accesses to virtual memory through the processor, against the
  abstract map \<open>vmap\<close>.
\<close>

section \<open>Translation\<close>

lemma cr3_page:
  assumes "PTE_ADDR (cr3 s) = page2pa P" "P < 65536"
  shows "pte_page (cr3 s) = P"
  using assms unat_PTE_ADDR [of "cr3 s"] unat_page2pa [of P] by simp

lemma walk_words:
  assumes "PTE_ADDR (cr3 s) = page2pa P" "P < 65536"
  shows "ld32 (kmem s) (KERNBASE + PTE_ADDR (cr3 s) + 4 * PDX va) = pword (kmem s) P (unat (PDX va))"
    "ld32 (kmem s) (KERNBASE + PTE_ADDR (pword (kmem s) P (unat (PDX va))) + 4 * PTX va) =
      pword (kmem s) (table_of (kmem s) P (unat (PDX va))) (unat (PTX va))"
  using kaddr_entry [of "cr3 s" "PDX va"] kaddr_entry [of "pword (kmem s) P (unat (PDX va))" "PTX va"] cr3_page [OF assms]
  by (simp_all add: pword_def table_of_def add.commute)

text \<open>The processor finds the entry of the map, in the cache or in the tables, and remembers it.\<close>

lemma mmu_entry_map:
  assumes inv: "vm_inv s P xs ex" "tlb_ok s P" and cr: "PTE_ADDR (cr3 s) = page2pa P" and va: "unat (PDX va) \<noteq> self_slot"
  shows "case vmap (kmem s) P (key va) of
      None \<Rightarrow> mmu_entry va s = Inl WildPtr
    | Some e \<Rightarrow> mmu_entry va s = Inr (e, s\<lparr>tlb := (tlb s)(PGNUM va := Some e)\<rparr>)"
proof -
  have wf: "pt_wf s P xs" using inv(1) by (simp add: vm_inv_def)
  have P: "P < 65536" using pt_wf_simps(4,5) [OF wf] by simp
  note w = walk_words [OF cr P]
  let ?d = "unat (PDX va)" and ?e = "pword (kmem s) (table_of (kmem s) P (unat (PDX va))) (unat (PTX va))"
  have d: "?d \<in> table_slots (kmem s) P \<longleftrightarrow> present (pword (kmem s) P ?d)"
    using va PDX_less [of va] by (simp add: table_slots_def)
  have V: "vmap (kmem s) P (key va) = (if present (pword (kmem s) P ?d) \<and> present ?e then Some ?e else None)"
    using PTX_less [of va] by (simp add: vmap_def key_def d)
  show ?thesis
  proof (cases "tlb s (PGNUM va)")
    case None
    have "both_permit (pword (kmem s) P ?d) ?e = ?e" if "present (pword (kmem s) P ?d)"
      using pt_wf_simps(11) [OF wf] d that by (simp add: both_permit_grants)
    then show ?thesis unfolding V using None by (simp add: mmu_entry_def w Let_def not_present_iff)
  next
    case (Some e)
    then have "vmap (kmem s) P (key va) = Some e" using inv(2) va by (simp add: tlb_ok_def)
    moreover have "(tlb s)(PGNUM va := Some e) = tlb s" using Some by auto
    ultimately show ?thesis using Some by (simp add: mmu_entry_def)
  qed
qed

lemma tlb_ok_fill:
  assumes "tlb_ok s P" "vmap (kmem s) P (key va) = Some e"
  shows "tlb_ok (s\<lparr>tlb := (tlb s)(PGNUM va := Some e)\<rparr>) P"
  using assms by (auto simp: tlb_ok_def) (metis key_eq_iff)

lemma vm_inv_tlb: "vm_inv (s\<lparr>tlb := t\<rparr>) P xs ex = vm_inv s P xs ex"
  by (simp add: vm_inv_def pt_wf_def ref_ok_def free_list_def free_chain_def)

section \<open>Accesses\<close>

lemma access_fault:
  assumes "vm_inv s P xs ex" "tlb_ok s P" "PTE_ADDR (cr3 s) = page2pa P" "unat (PDX va) \<noteq> self_slot" "vmap (kmem s) P (key va) = None"
  shows "vm_read va s = Inl WildPtr" "vm_write va v s = Inl WildPtr"
  using mmu_entry_map [OF assms(1-4)] assms(5) by (simp_all add: vm_read_def vm_write_def)

lemma access_entry:
  assumes "vm_inv s P xs ex" "tlb_ok s P" "PTE_ADDR (cr3 s) = page2pa P" "unat (PDX va) \<noteq> self_slot" "vmap (kmem s) P (key va) = Some e"
  shows "vm_read va s = Inr (ld32 (kmem s) (KERNBASE + PTE_ADDR e + PGOFF va), s\<lparr>tlb := (tlb s)(PGNUM va := Some e)\<rparr>)"
    "vm_write va v s = (if e AND PTE_W = 0 then Inl WildPtr
      else Inr (s\<lparr>tlb := (tlb s)(PGNUM va := Some e), kmem := st32 (kmem s) (KERNBASE + PTE_ADDR e + PGOFF va) v\<rparr>))"
  using mmu_entry_map [OF assms(1-4)] assms(5) by (simp_all add: vm_read_def vm_write_def)

text \<open>C7. A page that page_insert has mapped is what the processor reads and writes at the address, as
  far as the permissions allow: a read gives the word of the page, a write changes it if the page was
  entered writable and faults otherwise; after page_remove every access faults.\<close>

theorem insert_access_remove:
  assumes "vm_inv s P xs ex" "tlb_ok s P" "PTE_ADDR (cr3 s) = page2pa P" "user_va va" "unat (PGOFF va) mod 4 = 0"
    "unat (PDX va) \<in> table_slots (kmem s) P \<or> xs \<noteq> []"
    "pp < unat (npages s)" "pp \<notin> set xs" "unat (pp_ref (pages s ! pp)) < 65535" "perm < 4096"
  shows "\<exists>s1. page_insert (kaddr P 0) pp va perm s = Inr (0, s1) \<and>
    (\<exists>s2. vm_read va s1 = Inr (pword (kmem s1) pp (unat (PGOFF va) div 4), s2)) \<and>
    (if perm AND PTE_W = 0 then vm_write va v s1 = Inl WildPtr
     else \<exists>s2. vm_write va v s1 = Inr s2 \<and> pword (kmem s2) pp (unat (PGOFF va) div 4) = v) \<and>
    (\<exists>s3. page_remove (kaddr P 0) va s1 = Inr s3 \<and> vm_read va s3 = Inl WildPtr \<and> vm_write va v s3 = Inl WildPtr)"
proof -
  note k = user_va_key [OF assms(4)]
  obtain s1 ys where i: "page_insert (kaddr P 0) pp va perm s = Inr (0, s1)" "vm_inv s1 P ys ex" "tlb_ok s1 P" "vm_step P s s1"
    "vmap (kmem s1) P = (vmap (kmem s) P)(key va \<mapsto> page_entry pp perm)"
    using page_insert_ok [OF assms(1) k assms(6-10)] assms(2) by (auto simp: pte_entry_def page_entry_def)
  have pp: "pp < 65536" using assms(1,7) pt_wf_simps(4) [of s P xs] by (simp add: vm_inv_def)
  have a: "KERNBASE + PTE_ADDR (page_entry pp perm) + PGOFF va = kaddr pp (unat (PGOFF va) div 4)"
    using kaddr_off [OF assms(5)] page_entry_simps(2) [OF pp assms(10)] by simp
  have W: "page_entry pp perm AND PTE_W = perm AND PTE_W"
    using page_entry_simps(4) [of PTE_W pp perm] by (simp add: PTE_W_def PTE_P_def bit.conj_disj_distrib2)
  have cr1: "PTE_ADDR (cr3 s1) = page2pa P" using i(4) assms(3) by (simp add: vm_step_def)
  have "vmap (kmem s1) P (key va) = Some (page_entry pp perm)" unfolding i(5) by simp
  note acc = access_entry [OF i(2,3) cr1 user_not_self [OF k] this]
  obtain s3 zs where r: "page_remove (kaddr P 0) va s1 = Inr s3" "vm_inv s3 P zs ex" "tlb_ok s3 P" "vm_step P s1 s3"
    "vmap (kmem s3) P (key va) = None"
    using unmap_or_same [OF i(2) k] i(3) by auto
  have cr3: "PTE_ADDR (cr3 s3) = page2pa P" using r(4) cr1 by (simp add: vm_step_def)
  have "vm_read va s3 = Inl WildPtr \<and> vm_write va v s3 = Inl WildPtr"
    using access_fault [OF r(2,3) cr3 user_not_self [OF k] r(5)] by simp
  moreover have "vm_read va s1 = Inr (pword (kmem s1) pp (unat (PGOFF va) div 4), s1\<lparr>tlb := (tlb s1)(PGNUM va := Some (page_entry pp perm))\<rparr>)"
    using acc(1) unfolding a by (simp add: pword_def)
  moreover have "if perm AND PTE_W = 0 then vm_write va v s1 = Inl WildPtr
      else \<exists>s2. vm_write va v s1 = Inr s2 \<and> pword (kmem s2) pp (unat (PGOFF va) div 4) = v"
    using acc(2) [of v] pp unat_PTX_less [of va] unfolding a W by (simp add: pword_st32)
  ultimately show ?thesis using i(1) r(1) by blast
qed

definition paged_machine :: kstate where
  "paged_machine = small_machine\<lparr>cr3 := 0x1000\<rparr>"

lemma paged_simps: "vm_inv paged_machine 1 [3, 4] small_held" "tlb_ok paged_machine 1" "PTE_ADDR (cr3 paged_machine) = page2pa 1"
  "npages paged_machine = 5" "pages paged_machine = pages small_machine"
  using small_inv small_tlb [of 1]
  by (simp_all add: paged_machine_def vm_inv_def pt_wf_def ref_ok_def free_list_def free_chain_def tlb_ok_def small_simps
      PTE_ADDR_def page2pa_def PGSHIFT_def push_bit_eq_mult)

theorem insert_access_remove_witness:
  "\<exists>s1 s2. page_insert (kaddr 1 0) 2 0x1000 PTE_W paged_machine = Inr (0, s1) \<and> vm_write 0x1000 7 s1 = Inr s2 \<and>
    pword (kmem s2) 2 0 = 7"
  using insert_access_remove [OF paged_simps(1-3) small_va(1), of 2 PTE_W 7]
  by (auto simp: paged_simps small_simps PTE_W_def PGOFF_def)

section \<open>The kernel's address space\<close>

text \<open>An address in a mapped region has an entry that leads to the corresponding physical address.\<close>

lemma region_translates:
  assumes V: "\<forall>j<n. V (key (region_va base j)) = Some (region_entry pa perm j)"
    and base: "unat base mod 4096 = 0" "unat base + 4096 * n \<le> 2 ^ 32"
    and va: "unat base \<le> unat va" "unat va < unat base + 4096 * n"
    and pa: "unat pa mod 4096 = 0" "take_bit 12 perm = perm"
  shows "\<exists>j<n. V (key va) = Some (region_entry pa perm j) \<and> PTE_ADDR (region_entry pa perm j) + PGOFF va = pa + (va - base)"
proof -
  define j where "j = (unat va - unat base) div 4096"
  obtain b where b: "unat base = 4096 * b" using base(1) by auto
  have j: "j < n" using va unfolding j_def by (simp add: div_less_iff_less_mult)
  define x where "x = unat va - unat base"
  have x: "unat va = x + 4096 * b" using va(1) b unfolding x_def by simp
  have d: "unat va div 4096 = b + j" and m: "4096 * j + unat va mod 4096 = unat va - unat base"
    unfolding x_def [symmetric] j_def unfolding x by simp_all
  have "unat (PGNUM va) = unat (PGNUM (region_va base j))"
    using unat_region_va [OF base(2) j] d b by (simp add: unat_PGNUM)
  then have "key va = key (region_va base j)" by (simp add: key_eq_iff word_unat_eq_iff)
  then have V': "V (key va) = Some (region_entry pa perm j)" using V j by simp
  have "PGOFF va = word_of_nat (unat va mod 4096)" by (simp add: unat_PGOFF [symmetric])
  then have "PTE_ADDR (region_entry pa perm j) + PGOFF va = pa + word_of_nat (4096 * j + unat va mod 4096)"
    unfolding region_entry_addr [OF pa] by (simp add: add.assoc)
  also have "word_of_nat (4096 * j + unat va mod 4096) = va - base"
    unfolding m using va(1) by (simp add: of_nat_diff)
  finally show ?thesis using j V' by blast
qed

lemma region_entry_flag:
  assumes "unat pa mod 4096 = 0" "g < 4096"
  shows "region_entry pa perm j AND g = (perm OR PTE_P) AND g"
proof -
  have "region_entry pa perm j = page2pa (unat pa div 4096 + j) OR (perm OR PTE_P)"
  proof -
    have "word_of_nat (4096 * (unat pa div 4096)) = pa" using assms(1) by (simp add: mult_div_mod_eq [symmetric] flip: minus_mod_eq_mult_div)
    then have "pa + word_of_nat j * PGSIZE = page2pa (unat pa div 4096 + j)"
      by (simp add: page2pa_def PGSHIFT_def push_bit_eq_mult PGSIZE_def algebra_simps)
    then show ?thesis by (simp add: region_entry_def or.assoc)
  qed
  then show ?thesis using assms(2) by (simp add: entry_flag)
qed

text \<open>What an access through such an entry does.\<close>

lemma region_access:
  assumes s: "vm_inv s P xs ex" "tlb_ok s P" "PTE_ADDR (cr3 s) = page2pa P"
    and V: "\<forall>j<n. vmap (kmem s) P (key (region_va base j)) = Some (region_entry pa perm j)"
    and base: "unat base mod 4096 = 0" "unat base + 4096 * n \<le> 2 ^ 32"
    and va: "unat base \<le> unat va" "unat va < unat base + 4096 * n" "unat (PDX va) \<noteq> self_slot"
    and pa: "unat pa mod 4096 = 0" "take_bit 12 perm = perm"
  shows "\<exists>t. vm_read va s = Inr (ld32 (kmem s) (KERNBASE + (pa + (va - base))), s\<lparr>tlb := t\<rparr>) \<and>
    vm_write va v s = (if (perm OR PTE_P) AND PTE_W = 0 then Inl WildPtr
      else Inr (s\<lparr>tlb := t, kmem := st32 (kmem s) (KERNBASE + (pa + (va - base))) v\<rparr>))"
proof -
  obtain j where j: "vmap (kmem s) P (key va) = Some (region_entry pa perm j)"
    "PTE_ADDR (region_entry pa perm j) + PGOFF va = pa + (va - base)"
    using region_translates [OF V base va(1,2) pa] by blast
  have W: "region_entry pa perm j AND PTE_W = (perm OR PTE_P) AND PTE_W"
    by (rule region_entry_flag [OF pa(1)]) (simp add: PTE_W_def)
  show ?thesis using access_entry [OF s va(3) j(1)] j(2) unfolding W by (auto simp: add.assoc)
qed

lemma PTE_ADDR_page2pa: "PTE_ADDR (page2pa P) = page2pa P"
  by (rule bit_word_eqI) (auto simp: PTE_ADDR_def mask_consts page2pa_def PGSHIFT_def bit_simps)

lemma kernel_space_access:
  assumes k: "kernel_space P bootstack s" and stack: "KERNBASE \<le> bootstack" "unat bootstack mod 4096 = 0"
  shows "KERNBASE \<le> va \<Longrightarrow> \<exists>t. vm_read va s = Inr (ld32 (kmem s) va, s\<lparr>tlb := t\<rparr>) \<and>
      vm_write va v s = Inr (s\<lparr>tlb := t, kmem := st32 (kmem s) va v\<rparr>)"
    "KSTACKTOP - KSTKSIZE \<le> va \<Longrightarrow> va < KSTACKTOP \<Longrightarrow> \<exists>t.
      vm_read va s = Inr (ld32 (kmem s) (bootstack + (va - (KSTACKTOP - KSTKSIZE))), s\<lparr>tlb := t\<rparr>) \<and>
      vm_write va v s = Inr (s\<lparr>tlb := t, kmem := st32 (kmem s) (bootstack + (va - (KSTACKTOP - KSTKSIZE))) v\<rparr>)"
    "KSTACKTOP - PTSIZE \<le> va \<and> va < KSTACKTOP - KSTKSIZE \<or> va < UPAGES \<Longrightarrow>
      vm_read va s = Inl WildPtr \<and> vm_write va v s = Inl WildPtr"
proof -
  obtain xs where i: "vm_inv s P xs (boot_refs s)" "tlb s = (\<lambda>_. None)" "cr3 s = page2pa P"
    and L: "kernel_layout (pages_pages s) (pages_va s - KERNBASE) (bootstack - KERNBASE) (vmap (kmem s) P)"
    and N: "\<And>a. unat a < 0xEF000000 \<or> 0xEF000000 + 4096 * pages_pages s \<le> unat a \<and> unat a < 0xEFFF8000 \<Longrightarrow>
      vmap (kmem s) P (key a) = None"
    using k unfolding kernel_space_def by blast
  have cr: "PTE_ADDR (cr3 s) = page2pa P" unfolding i(3) by (rule PTE_ADDR_page2pa)
  have np: "npages s \<le> 0x10000" using i(1) by (auto simp: vm_inv_def pt_wf_def free_list_def free_chain_def)
  have "tlb_ok s P" using i(2) by (simp add: tlb_ok_def)
  note acc = region_access [OF i(1) this cr] and fault = access_fault [OF i(1) this cr]
  note b = upages_bounds word_le_nat_alt word_less_nat_alt
  have T: "unat KSTACKTOP = 0xF0000000" "unat (KSTACKTOP - PTSIZE) = 0xEFC00000"
    by (simp_all add: KSTACKTOP_def KERNBASE_def PTSIZE_def jos_consts)
  have W: "(PTE_W OR PTE_P OR PTE_P) AND PTE_W \<noteq> (0 :: u32)" "take_bit 12 (PTE_W OR PTE_P) = PTE_W OR PTE_P"
    by (simp_all add: PTE_W_def PTE_P_def)
  have slot: "unat (PDX va) \<noteq> self_slot" if "unat va < 0xEF000000 \<or> 0xEF800000 \<le> unat va" for va :: u32
    using that by (auto simp: unat_PDX self_slot_def)
  show "\<exists>t. vm_read va s = Inr (ld32 (kmem s) va, s\<lparr>tlb := t\<rparr>) \<and> vm_write va v s = Inr (s\<lparr>tlb := t, kmem := st32 (kmem s) va v\<rparr>)"
    if "KERNBASE \<le> va"
  proof -
    have "\<forall>j<65536. vmap (kmem s) P (key (region_va KERNBASE j)) = Some (region_entry 0 (PTE_W OR PTE_P) j)"
      using L by (simp add: kernel_layout_def)
    from acc [OF this, of va v] show ?thesis using that W slot [of va] unat32_bound [of va] by (simp add: b or.assoc)
  qed
  show "\<exists>t. vm_read va s = Inr (ld32 (kmem s) (bootstack + (va - (KSTACKTOP - KSTKSIZE))), s\<lparr>tlb := t\<rparr>) \<and>
      vm_write va v s = Inr (s\<lparr>tlb := t, kmem := st32 (kmem s) (bootstack + (va - (KSTACKTOP - KSTKSIZE))) v\<rparr>)"
    if "KSTACKTOP - KSTKSIZE \<le> va" "va < KSTACKTOP"
  proof -
    have A: "\<forall>j<8. vmap (kmem s) P (key (region_va (KSTACKTOP - KSTKSIZE) j)) = Some (region_entry (bootstack - KERNBASE) (PTE_W OR PTE_P) j)"
      using L by (simp add: kernel_layout_def)
    have B: "unat (KSTACKTOP - KSTKSIZE) mod 4096 = 0" "unat (KSTACKTOP - KSTKSIZE) + 4096 * 8 \<le> 2 ^ 32" by (simp_all add: b)
    have R: "unat (KSTACKTOP - KSTKSIZE) \<le> unat va" "unat va < unat (KSTACKTOP - KSTKSIZE) + 4096 * 8" "unat (PDX va) \<noteq> self_slot"
      using that slot [of va] by (simp_all add: b T)
    have E: "KERNBASE + (bootstack - KERNBASE + x) = bootstack + x" for x by simp
    show ?thesis using acc [OF A B R aligned_phys [OF stack] W(2), of v] W(1) unfolding E by (simp only: or.assoc if_False)
  qed
  show "vm_read va s = Inl WildPtr \<and> vm_write va v s = Inl WildPtr"
    if "KSTACKTOP - PTSIZE \<le> va \<and> va < KSTACKTOP - KSTKSIZE \<or> va < UPAGES"
  proof -
    have r: "unat va < 0xEF000000 \<or> 0xEFC00000 \<le> unat va \<and> unat va < 0xEFFF8000" using that by (auto simp: b T)
    then have "vmap (kmem s) P (key va) = None" using pages_size(3) [OF np] by (intro N) auto
    then show ?thesis using fault slot [of va] r by auto
  qed
qed

text \<open>C5. The address space that mem_init leaves behind, as the processor sees it: from KERNBASE on, a
  load or a store reaches physical memory at the address less KERNBASE; the kernel stack below KSTACKTOP is
  the memory of bootstack; the page below the stack and everything below UPAGES fault.\<close>

theorem kernel_address_space:
  assumes "enough_memory kend (i386_detect_memory cmos s)" "KERNBASE \<le> bootstack" "unat bootstack mod 4096 = 0"
  shows "\<exists>s'. mem_init kend bootstack cmos s = Inr s' \<and>
    (\<forall>va\<ge>KERNBASE. \<forall>v. \<exists>t. vm_read va s' = Inr (ld32 (kmem s') va, s'\<lparr>tlb := t\<rparr>) \<and>
       vm_write va v s' = Inr (s'\<lparr>tlb := t, kmem := st32 (kmem s') va v\<rparr>)) \<and>
    (\<forall>va. KSTACKTOP - KSTKSIZE \<le> va \<and> va < KSTACKTOP \<longrightarrow> (\<forall>v. \<exists>t.
       vm_read va s' = Inr (ld32 (kmem s') (bootstack + (va - (KSTACKTOP - KSTKSIZE))), s'\<lparr>tlb := t\<rparr>) \<and>
       vm_write va v s' = Inr (s'\<lparr>tlb := t, kmem := st32 (kmem s') (bootstack + (va - (KSTACKTOP - KSTKSIZE))) v\<rparr>))) \<and>
    (\<forall>va. KSTACKTOP - PTSIZE \<le> va \<and> va < KSTACKTOP - KSTKSIZE \<or> va < UPAGES \<longrightarrow>
       (\<forall>v. vm_read va s' = Inl WildPtr \<and> vm_write va v s' = Inl WildPtr))"
  using mem_init_ready [OF assms] kernel_space_access [OF _ assms(2,3)] by blast

theorem kernel_address_space_witness:
  "\<exists>s1 s2 t. mem_init 0xF0110000 0xF0108000 cmos_16MB fresh_machine = Inr s1 \<and>
     vm_write 0xEFFFFFFC 7 s1 = Inr s2 \<and> kmem s2 = st32 (kmem s1) 0xF010FFFC 7 \<and> vm_read 0 s1 = Inl WildPtr \<and>
     vm_read 0xF0100000 s1 = Inr (ld32 (kmem s1) 0xF0100000, s1\<lparr>tlb := t\<rparr>)"
proof -
  have "KERNBASE \<le> (0xF0108000 :: u32)" "unat (0xF0108000 :: u32) mod 4096 = 0" by (simp_all add: KERNBASE_def)
  from kernel_address_space [OF fresh_enough this] obtain s1 where
    m: "mem_init 0xF0110000 0xF0108000 cmos_16MB fresh_machine = Inr s1"
    and K: "\<And>va v. KERNBASE \<le> va \<Longrightarrow> \<exists>t. vm_read va s1 = Inr (ld32 (kmem s1) va, s1\<lparr>tlb := t\<rparr>)"
    and S: "\<And>va v. KSTACKTOP - KSTKSIZE \<le> va \<Longrightarrow> va < KSTACKTOP \<Longrightarrow> \<exists>t.
       vm_write va v s1 = Inr (s1\<lparr>tlb := t, kmem := st32 (kmem s1) (0xF0108000 + (va - (KSTACKTOP - KSTKSIZE))) v\<rparr>)"
    and N: "\<And>va. va < UPAGES \<Longrightarrow> vm_read va s1 = Inl WildPtr"
    by blast
  have st: "KSTKSIZE = 0x8000" "KSTACKTOP = 0xF0000000" by (simp_all add: KSTACKTOP_def KSTKSIZE_def KERNBASE_def jos_consts)
  obtain t where "vm_write 0xEFFFFFFC 7 s1 = Inr (s1\<lparr>tlb := t, kmem := st32 (kmem s1) 0xF010FFFC 7\<rparr>)"
    using S [of "0xEFFFFFFC" 7] unfolding st by auto
  moreover have "vm_read 0 s1 = Inl WildPtr" by (rule N) (simp add: upages_bounds word_less_nat_alt)
  ultimately show ?thesis using m K [of "0xF0100000"] by (auto simp: KERNBASE_def)
qed

section \<open>The virtual page table\<close>

lemma uvpt_address:
  "unat (PDX (UVPT + 4 * PGNUM va)) = self_slot" "PTX (UVPT + 4 * PGNUM va) = PDX va" "PGOFF (UVPT + 4 * PGNUM va) = 4 * PTX va"
proof -
  define x where "x = unat va div 4096"
  have x: "x < 1048576" using unat32_bound [of va] by (simp add: x_def div_less_iff_less_mult)
  have "unat (4 * PGNUM va) = 4 * x" using x by (simp add: unat_word_ariths unat_PGNUM x_def)
  then have u: "unat (UVPT + 4 * PGNUM va) = 957 * 4194304 + 4 * x"
    using x by (simp add: unat_word_ariths UVPT_def jos_consts)
  have q: "4 * x div 4194304 = 0" "4 * x div 4096 = x div 1024" "4 * x mod 4096 = 4 * (x mod 1024)" "x div 1024 < 1024"
    using x mult_mod_right [of 4 x 1024] by (simp_all add: div_mult2_eq [of "4 * x" 4 1024, simplified])
  show "unat (PDX (UVPT + 4 * PGNUM va)) = self_slot"
    unfolding unat_PDX u using q(1) by (simp add: self_slot_def)
  have "(957 * 4194304 + 4 * x) div 4096 = x div 1024 + 957 * 1024" using div_mult_self1 [of 4096 "4 * x" 979968] q(2) by simp
  then have "(957 * 4194304 + 4 * x) div 4096 mod 1024 = x div 1024" using mod_mult_self1 [of "x div 1024" 957 1024] q(4) by simp
  moreover have "unat (PDX va) = x div 1024" by (simp add: unat_PDX x_def div_mult2_eq [symmetric])
  ultimately show "PTX (UVPT + 4 * PGNUM va) = PDX va" by (simp only: word_unat_eq_iff unat_PTX u) simp
  have "unat (4 * PTX va) = 4 * (x mod 1024)" by (simp add: unat_word_ariths unat_PTX x_def)
  moreover have "(957 * 4194304 + 4 * x) mod 4096 = 4 * (x mod 1024)" using q(3) by (simp add: mod_add_left_eq [symmetric])
  ultimately show "PGOFF (UVPT + 4 * PGNUM va) = 4 * PTX va" by (simp only: word_unat_eq_iff unat_PGOFF u)
qed

lemma PTE_ADDR_mask:
  assumes "take_bit 12 f = f"
  shows "PTE_ADDR (e AND (p OR NOT f)) = PTE_ADDR e"
proof -
  have "\<not> bit f n" if "12 \<le> n" for n using that by (metis assms bit_take_bit_iff not_le)
  then show ?thesis
    unfolding PTE_ADDR_def mask_consts by (intro bit_word_eqI) (auto simp: bit_simps)
qed

lemma flag_bits: "bit PTE_P n \<longleftrightarrow> n = 0" "bit PTE_W n \<longleftrightarrow> n = 1" "bit PTE_U n \<longleftrightarrow> n = 2"
proof -
  have e: "PTE_P = 2 ^ 0" "PTE_W = 2 ^ 1" "PTE_U = 2 ^ 2" by (simp_all add: PTE_P_def PTE_W_def PTE_U_def)
  show "bit PTE_P n \<longleftrightarrow> n = 0" unfolding e(1) bit_exp_iff by auto
  show "bit PTE_W n \<longleftrightarrow> n = 1" unfolding e(2) bit_exp_iff by auto
  show "bit PTE_U n \<longleftrightarrow> n = 2" unfolding e(3) bit_exp_iff by auto
qed

lemma self_permits:
  "PTE_ADDR (both_permit (page2pa P OR PTE_U OR PTE_P) e) = PTE_ADDR e"
  "both_permit (page2pa P OR PTE_U OR PTE_P) e AND PTE_W = 0"
proof -
  show "PTE_ADDR (both_permit (page2pa P OR PTE_U OR PTE_P) e) = PTE_ADDR e"
    unfolding both_permit_def by (rule PTE_ADDR_mask) (simp add: PTE_W_def PTE_U_def)
  show "both_permit (page2pa P OR PTE_U OR PTE_P) e AND PTE_W = 0"
    unfolding both_permit_def
    by (rule bit_word_eqI) (auto simp: bit_and_iff bit_or_iff bit_not_iff page2pa_def PGSHIFT_def bit_push_bit_iff flag_bits)
qed

lemma uvpt_access:
  assumes "cr3 s = page2pa P" "P < 65536" "tlb s = (\<lambda>_. None)" "pword (kmem s) P self_slot = page2pa P OR PTE_U OR PTE_P"
  shows "if ld32 (kmem s) (kaddr P 0 + 4 * PDX va) AND PTE_P = 0 then vm_read (UVPT + 4 * PGNUM va) s = Inl WildPtr
    else \<exists>t. vm_read (UVPT + 4 * PGNUM va) s =
      Inr (ld32 (kmem s) (KERNBASE + PTE_ADDR (ld32 (kmem s) (kaddr P 0 + 4 * PDX va)) + 4 * PTX va), s\<lparr>tlb := t\<rparr>)"
    "vm_write (UVPT + 4 * PGNUM va) v s = Inl WildPtr"
proof -
  let ?u = "UVPT + 4 * PGNUM va" and ?self = "page2pa P OR PTE_U OR PTE_P" and ?pde = "ld32 (kmem s) (kaddr P 0 + 4 * PDX va)"
  have cr: "PTE_ADDR (cr3 s) = page2pa P" unfolding assms(1) by (rule PTE_ADDR_page2pa)
  note w = walk_words [OF cr assms(2), of ?u]
  have "pte_page ?self = P"
    using PTE_ADDR_flags [OF page2pa_aligned, of "PTE_U OR PTE_P" P] assms(2) unat_PTE_ADDR [of ?self] unat_page2pa [of P]
    by (simp add: or.assoc PTE_U_def PTE_P_def)
  then have tab: "table_of (kmem s) P (unat (PDX ?u)) = P" by (simp add: table_of_def uvpt_address(1) assms(4))
  have pde: "?pde = pword (kmem s) P (unat (PDX va))" by (rule ld_pde)
  have m: "mmu_entry ?u s = (if ?pde AND PTE_P = 0 then Inl WildPtr
      else Inr (both_permit ?self ?pde, s\<lparr>tlb := (tlb s)(PGNUM ?u := Some (both_permit ?self ?pde))\<rparr>))"
    using w(1) [unfolded uvpt_address(1) assms(4)] w(2) [unfolded tab, unfolded uvpt_address(1,2) assms(4)] assms(3)
    unfolding pde by (simp add: mmu_entry_def Let_def not_present_iff uvpt_address(1,2))
  show "if ?pde AND PTE_P = 0 then vm_read ?u s = Inl WildPtr
    else \<exists>t. vm_read ?u s = Inr (ld32 (kmem s) (KERNBASE + PTE_ADDR ?pde + 4 * PTX va), s\<lparr>tlb := t\<rparr>)"
    using m by (auto simp: vm_read_def self_permits(1) uvpt_address(3))
  show "vm_write ?u v s = Inl WildPtr" using m by (simp add: vm_write_def self_permits(2))
qed

text \<open>C6. The virtual page table: after mem_init has entered the directory into itself, the word of the array
  uvpt at UVPT that belongs to an address is the page table entry of the address, wherever the
  directory has a table for it (the directory itself for the addresses from UVPT on), and accessing it
  faults where there is none; nothing can be written through the array.\<close>

theorem uvpt_window:
  assumes "enough_memory kend (i386_detect_memory cmos s)" "KERNBASE \<le> bootstack" "unat bootstack mod 4096 = 0"
  shows "\<exists>s'. mem_init kend bootstack cmos s = Inr s' \<and>
    (\<forall>va. (let pde = ld32 (kmem s') (kern_pgdir s' + 4 * PDX va)
      in if pde AND PTE_P = 0 then vm_read (UVPT + 4 * PGNUM va) s' = Inl WildPtr
         else \<exists>t. vm_read (UVPT + 4 * PGNUM va) s' = Inr (ld32 (kmem s') (KERNBASE + PTE_ADDR pde + 4 * PTX va), s'\<lparr>tlb := t\<rparr>)) \<and>
      (\<forall>v. vm_write (UVPT + 4 * PGNUM va) v s' = Inl WildPtr))"
proof -
  obtain s' where s': "mem_init kend bootstack cmos s = Inr s'" "kernel_space (first_page kend) bootstack s'"
    using mem_init_ready [OF assms] by blast
  obtain xs where k: "kern_pgdir s' = kaddr (first_page kend) 0" "cr3 s' = page2pa (first_page kend)" "tlb s' = (\<lambda>_. None)"
    "pword (kmem s') (first_page kend) self_slot = page2pa (first_page kend) OR PTE_U OR PTE_P"
    "vm_inv s' (first_page kend) xs (boot_refs s')"
    using s'(2) unfolding kernel_space_def by blast
  have "first_page kend < 65536" using k(5) pt_wf_simps(4,5) unfolding vm_inv_def by (metis order_less_le_trans)
  note u = uvpt_access [OF k(2) this k(3,4)]
  show ?thesis unfolding Let_def by (intro exI [of _ s'] conjI allI, rule s'(1), unfold k(1), rule u(1), rule u(2))
qed

theorem uvpt_window_witness:
  "\<exists>s'. mem_init 0xF0110000 0xF0108000 cmos_16MB fresh_machine = Inr s' \<and> vm_write 0xEF400000 7 s' = Inl WildPtr"
proof -
  have "KERNBASE \<le> (0xF0108000 :: u32)" "unat (0xF0108000 :: u32) mod 4096 = 0" by (simp_all add: KERNBASE_def)
  from uvpt_window [OF fresh_enough this] obtain s' where
    "mem_init 0xF0110000 0xF0108000 cmos_16MB fresh_machine = Inr s'" "vm_write (UVPT + 4 * PGNUM 0) 7 s' = Inl WildPtr"
    by blast
  then show ?thesis by (simp add: UVPT_def jos_consts PGNUM_def)
qed

end
