(* ===== verification/Console_Out.thy ===== *)
theory Console_Out
  imports Mmu Cstring
begin

text \<open>
  The output half of kern/console.c: the serial port, the parallel port and the text-mode
  display, with its scrolling. What a device answers is not in the sources: \<open>inb\<close> and \<open>outb\<close> of
  inc/x86.h are the two fields of the parameter \<open>io\<close>, on a device state of any type. Display
  memory is ordinary memory behind \<open>crt_buf\<close>.
\<close>

section \<open>State\<close>

record 'd ports =
  inb :: "u32 \<Rightarrow> 'd \<Rightarrow> u8 \<times> 'd"
  outb :: "u32 \<Rightarrow> u8 \<Rightarrow> 'd \<Rightarrow> 'd"

text \<open>
  The static variables of kern/console.c, the one of \<open>kbd_proc_data\<close> included, the device state
  and memory.
\<close>

record 'd console =
  dev :: 'd
  con_mem :: memory
  serial_exists :: bool
  addr_6845 :: u32
  crt_buf :: u32
  crt_pos :: u16
  kbd_shift :: u32
  cons_buf :: "u8 list"
  cons_rpos :: u32
  cons_wpos :: u32

definition con_in :: "'d ports \<Rightarrow> u32 \<Rightarrow> 'd console \<Rightarrow> u8 \<times> 'd console" where
  "con_in io port s = (let (v, d) = inb io port (dev s) in (v, s\<lparr>dev := d\<rparr>))"

definition con_out :: "'d ports \<Rightarrow> u32 \<Rightarrow> u8 \<Rightarrow> 'd console \<Rightarrow> 'd console" where
  "con_out io port v s = s\<lparr>dev := outb io port v (dev s)\<rparr>"

section \<open>The serial and the parallel port\<close>

definition COM1 :: u32 where "COM1 = 0x3F8"
definition COM_RX :: u32 where "COM_RX = 0"
definition COM_TX :: u32 where "COM_TX = 0"
definition COM_DLL :: u32 where "COM_DLL = 0"
definition COM_DLM :: u32 where "COM_DLM = 1"
definition COM_IER :: u32 where "COM_IER = 1"
definition COM_IER_RDI :: u8 where "COM_IER_RDI = 0x01"
definition COM_IIR :: u32 where "COM_IIR = 2"
definition COM_FCR :: u32 where "COM_FCR = 2"
definition COM_LCR :: u32 where "COM_LCR = 3"
definition COM_LCR_DLAB :: u8 where "COM_LCR_DLAB = 0x80"
definition COM_LCR_WLEN8 :: u8 where "COM_LCR_WLEN8 = 0x03"
definition COM_MCR :: u32 where "COM_MCR = 4"
definition COM_LSR :: u32 where "COM_LSR = 5"
definition COM_LSR_DATA :: u8 where "COM_LSR_DATA = 0x01"
definition COM_LSR_TXRDY :: u8 where "COM_LSR_TXRDY = 0x20"

definition delay :: "'d ports \<Rightarrow> 'd console \<Rightarrow> 'd console" where
  "delay io s =
     (let (_, s) = con_in io 0x84 s; (_, s) = con_in io 0x84 s;
          (_, s) = con_in io 0x84 s; (_, s) = con_in io 0x84 s
      in s)"

text \<open>
  The wait loops: poll the status port until a bit of the mask is set, with a delay after each
  of the first \<open>k\<close> polls that found none.
\<close>

fun wait_ready :: "'d ports \<Rightarrow> u32 \<Rightarrow> u8 \<Rightarrow> nat \<Rightarrow> 'd console \<Rightarrow> 'd console" where
  "wait_ready io port msk k s =
     (let (v, s) = con_in io port s
      in if v AND msk \<noteq> 0 then s
         else (case k of 0 \<Rightarrow> s | Suc k \<Rightarrow> wait_ready io port msk k (delay io s)))"

declare wait_ready.simps [simp del]

definition serial_putc :: "'d ports \<Rightarrow> u32 \<Rightarrow> 'd console \<Rightarrow> 'd console" where
  "serial_putc io c s =
     con_out io (COM1 + COM_TX) (ucast c) (wait_ready io (COM1 + COM_LSR) COM_LSR_TXRDY 12800 s)"

definition lpt_putc :: "'d ports \<Rightarrow> u32 \<Rightarrow> 'd console \<Rightarrow> 'd console" where
  "lpt_putc io c s =
     (let s = wait_ready io (0x378 + 1) 0x80 12800 s;
          s = con_out io (0x378 + 0) (ucast c) s;
          s = con_out io (0x378 + 2) (0x08 OR 0x04 OR 0x01) s
      in con_out io (0x378 + 2) 0x08 s)"

section \<open>The text-mode display\<close>

definition CRT_ROWS :: u16 where "CRT_ROWS = 25"
definition CRT_COLS :: u16 where "CRT_COLS = 80"
definition CRT_SIZE :: u16 where "CRT_SIZE = CRT_ROWS * CRT_COLS"

definition ld16 :: "memory \<Rightarrow> u32 \<Rightarrow> u16" where
  "ld16 m a = ucast (m a) OR push_bit 8 (ucast (m (a + 1)))"

definition st16 :: "memory \<Rightarrow> u32 \<Rightarrow> u16 \<Rightarrow> memory" where
  "st16 m a v = m(a := ucast v, a + 1 := ucast (drop_bit 8 v))"

definition put_cell :: "u16 \<Rightarrow> u16 \<Rightarrow> 'd console \<Rightarrow> 'd console" where
  "put_cell i v s = s\<lparr>con_mem := st16 (con_mem s) (crt_buf s + 2 * ucast i) v\<rparr>"

text \<open>The loop that blanks the last line, over the cells from \<open>i\<close> on, \<open>n\<close> of them.\<close>

fun blank_cells :: "u16 \<Rightarrow> nat \<Rightarrow> 'd console \<Rightarrow> 'd console" where
  "blank_cells i 0 s = s"
| "blank_cells i (Suc n) s = blank_cells (i + 1) n (put_cell i (0x0700 OR 32) s)"

definition scroll :: "'d console \<Rightarrow> 'd console" where
  "scroll s =
     (if crt_pos s \<ge> CRT_SIZE
      then let s = s\<lparr>con_mem := memmove (con_mem s) (crt_buf s) (crt_buf s + 2 * ucast CRT_COLS)
                     (ucast (CRT_SIZE - CRT_COLS) * 2)\<rparr>;
               s = blank_cells (CRT_SIZE - CRT_COLS) (unat CRT_COLS) s
           in s\<lparr>crt_pos := crt_pos s - CRT_COLS\<rparr>
      else s)"

definition move_cursor :: "'d ports \<Rightarrow> 'd console \<Rightarrow> 'd console" where
  "move_cursor io s =
     (let s = con_out io (addr_6845 s) 14 s;
          s = con_out io (addr_6845 s + 1) (ucast (drop_bit 8 (crt_pos s))) s;
          s = con_out io (addr_6845 s) 15 s
      in con_out io (addr_6845 s + 1) (ucast (crt_pos s)) s)"

text \<open>The character with its attribute: black on white if none is given.\<close>

definition with_attr :: "u32 \<Rightarrow> u32" where
  "with_attr c = (if c AND NOT 0xFF = 0 then c OR 0x0700 else c)"

text \<open>
  The switch of \<open>cga_putc\<close> on a character other than the tab: backspace, newline, carriage return
  and the default case.
\<close>

definition cga_switch :: "u32 \<Rightarrow> 'd console \<Rightarrow> 'd console" where
  "cga_switch c s =
     (if c AND 0xff = 8
      then if crt_pos s > 0
           then put_cell (crt_pos s - 1) (ucast (c AND NOT 0xff OR 32)) (s\<lparr>crt_pos := crt_pos s - 1\<rparr>)
           else s
      else if c AND 0xff = 10
      then let s = s\<lparr>crt_pos := crt_pos s + CRT_COLS\<rparr>
           in s\<lparr>crt_pos := crt_pos s - crt_pos s mod CRT_COLS\<rparr>
      else if c AND 0xff = 13
      then s\<lparr>crt_pos := crt_pos s - crt_pos s mod CRT_COLS\<rparr>
      else put_cell (crt_pos s) (ucast c) (s\<lparr>crt_pos := crt_pos s + 1\<rparr>))"

lemma with_attr_low: "with_attr c AND 0xff = c AND 0xff"
  by (simp only: with_attr_def bit.conj_disj_distrib2 split: if_split) simp

text \<open>
  \<open>cga_putc\<close> prints a tab as five spaces through \<open>cons_putc\<close>, so the spaces also go to the serial
  and the parallel port.
\<close>

function cga_putc :: "'d ports \<Rightarrow> u32 \<Rightarrow> 'd console \<Rightarrow> 'd console"
  and cons_putc :: "'d ports \<Rightarrow> u32 \<Rightarrow> 'd console \<Rightarrow> 'd console" where
  "cga_putc io c s =
     (let c = with_attr c;
          s = (if c AND 0xff = 9
               then cons_putc io 32 (cons_putc io 32 (cons_putc io 32 (cons_putc io 32 (cons_putc io 32 s))))
               else cga_switch c s)
      in move_cursor io (scroll s))"
| "cons_putc io c s = cga_putc io c (lpt_putc io c (serial_putc io c s))"
  by pat_completeness auto
termination
  by (relation "measure (case_sum (\<lambda>(io, c, s). if c AND 0xff = 9 then 2 else 0)
       (\<lambda>(io, c, s). if c AND 0xff = 9 then 3 else 1))") (simp_all add: with_attr_low)

declare cga_putc.simps [simp del] cons_putc.simps [simp del]

definition cputchar :: "'d ports \<Rightarrow> u32 \<Rightarrow> 'd console \<Rightarrow> 'd console" where
  "cputchar io c s = cons_putc io c s"

end
