(* ===== verification/Printfmt.thy ===== *)
theory Printfmt
  imports Prelude
begin

text \<open>
  lib/printfmt.c. The output routine \<open>putch\<close> and its \<open>putdat\<close> are a parameter and the state it
  updates. A C string is the list of its bytes without the terminator; reading at the end gives 0.
  The variable arguments are a list of words, quad words and string pointers; an argument of
  another kind than \<open>va_arg\<close> asks for is the fault \<open>BadArg\<close>. \<open>width\<close>, \<open>precision\<close> and \<open>lflag\<close> are
  C ints whose overflow is undefined; they are unbounded here.
\<close>

section \<open>printnum\<close>

text \<open>Output the same character \<open>k\<close> times: the padding loops.\<close>

fun put_n :: "(u32 \<Rightarrow> 's \<Rightarrow> 's) \<Rightarrow> u32 \<Rightarrow> nat \<Rightarrow> 's \<Rightarrow> 's" where
  "put_n putch c 0 s = s"
| "put_n putch c (Suc k) s = put_n putch c k (putch c s)"

text \<open>The string literal \<open>0123456789abcdef\<close>.\<close>

definition hex_digits :: "u8 list" where
  "hex_digits = [48, 49, 50, 51, 52, 53, 54, 55, 56, 57, 97, 98, 99, 100, 101, 102]"

partial_function (option) printnum ::
  "(u32 \<Rightarrow> 's \<Rightarrow> 's) \<Rightarrow> u64 \<Rightarrow> u32 \<Rightarrow> int \<Rightarrow> u32 \<Rightarrow> 's \<Rightarrow> 's option" where
  "printnum putch num base width padc s =
     Option.bind
       (if num \<ge> ucast base
        then printnum putch (num div ucast base) base (width - 1) padc s
        else Some (put_n putch padc (nat (width - 1)) s))
       (\<lambda>s. Some (putch (ucast (hex_digits ! unat (num mod ucast base))) s))"

section \<open>Arguments\<close>

datatype va = VWord u32 | VQuad u64 | VStr "u8 list option"

fun va_word :: "va list \<Rightarrow> (u32 \<times> va list) result" where
  "va_word (VWord w # ap) = Inr (w, ap)"
| "va_word ap = Inl BadArg"

fun va_quad :: "va list \<Rightarrow> (u64 \<times> va list) result" where
  "va_quad (VQuad q # ap) = Inr (q, ap)"
| "va_quad ap = Inl BadArg"

fun va_str :: "va list \<Rightarrow> (u8 list option \<times> va list) result" where
  "va_str (VStr p # ap) = Inr (p, ap)"
| "va_str ap = Inl BadArg"

text \<open>\<open>long\<close> has 32 bits, so the first \<open>l\<close> changes nothing.\<close>

definition getuint :: "va list \<Rightarrow> nat \<Rightarrow> (u64 \<times> va list) result" where
  "getuint ap lflag =
     (if lflag \<ge> 2 then va_quad ap
      else bindR (va_word ap) (\<lambda>(w, ap). Inr (ucast w, ap)))"

definition getint :: "va list \<Rightarrow> nat \<Rightarrow> (u64 \<times> va list) result" where
  "getint ap lflag =
     (if lflag \<ge> 2 then va_quad ap
      else bindR (va_word ap) (\<lambda>(w, ap). Inr (scast w, ap)))"

section \<open>The flags of a conversion\<close>

text \<open>The byte at a position of the format, 0 at its end.\<close>

definition fmt_at :: "u8 list \<Rightarrow> nat \<Rightarrow> u8" where
  "fmt_at fmt i = (if i < length fmt then fmt ! i else 0)"

record spec =
  padc :: u32
  width :: int
  precision :: int
  lflag :: nat
  altflag :: bool

definition spec0 :: spec where
  "spec0 = \<lparr>padc = 32, width = -1, precision = -1, lflag = 0, altflag = False\<rparr>"

definition process_precision :: "spec \<Rightarrow> spec" where
  "process_precision sp =
     (if width sp < 0 then sp\<lparr>width := precision sp, precision := -1\<rparr> else sp)"

text \<open>The width field: \<open>ch\<close> is its first digit, \<open>pos\<close> the position behind it.\<close>

function width_digits :: "u8 list \<Rightarrow> nat \<Rightarrow> u8 \<Rightarrow> int \<Rightarrow> int \<times> nat" where
  "width_digits fmt pos ch prec =
     (let prec = prec * 10 + uint ch - 48; ch = fmt_at fmt pos
      in if ch < 48 \<or> ch > 57 then (prec, pos) else width_digits fmt (pos + 1) ch prec)"
  by pat_completeness auto
termination
  by (relation "measure (\<lambda>(fmt, pos, ch, prec). length fmt - pos)")
    (auto simp: fmt_at_def split: if_splits)

declare width_digits.simps [simp del]

lemma width_digits_pos: "pos \<le> snd (width_digits fmt pos ch prec)"
proof (induction fmt pos ch prec rule: width_digits.induct)
  case (1 fmt pos ch prec)
  then show ?case by (subst width_digits.simps) (auto simp: Let_def not_less intro: Suc_leD)
qed

text \<open>
  \<open>reswitch\<close>: consume flags until a character that is not one; the result is that character,
  the position behind it, the arguments left and the flags. The cases are, in order, minus, 0,
  the digits 1 to 9, star, dot, hash and l.
\<close>

function reswitch :: "u8 list \<Rightarrow> nat \<Rightarrow> va list \<Rightarrow> spec \<Rightarrow> (u8 \<times> nat \<times> va list \<times> spec) result" where
  "reswitch fmt pos ap sp =
     (let ch = fmt_at fmt pos
      in if ch = 45 then reswitch fmt (pos + 1) ap (sp\<lparr>padc := 45\<rparr>)
         else if ch = 48 then reswitch fmt (pos + 1) ap (sp\<lparr>padc := 48\<rparr>)
         else if 49 \<le> ch \<and> ch \<le> 57 then
           (let (prec, pos') = width_digits fmt (pos + 1) ch 0
            in reswitch fmt pos' ap (process_precision (sp\<lparr>precision := prec\<rparr>)))
         else if ch = 42 then
           (case va_word ap of
              Inl e \<Rightarrow> Inl e
            | Inr (w, ap) \<Rightarrow> reswitch fmt (pos + 1) ap (process_precision (sp\<lparr>precision := sint w\<rparr>)))
         else if ch = 46 then
           reswitch fmt (pos + 1) ap (if width sp < 0 then sp\<lparr>width := 0\<rparr> else sp)
         else if ch = 35 then reswitch fmt (pos + 1) ap (sp\<lparr>altflag := True\<rparr>)
         else if ch = 108 then reswitch fmt (pos + 1) ap (sp\<lparr>lflag := lflag sp + 1\<rparr>)
         else Inr (ch, pos + 1, ap, sp))"
  by pat_completeness auto
termination
proof (relation "measure (\<lambda>(fmt, pos, ap, sp). length fmt - pos)", goal_cases)
  case (4 fmt pos ap sp ch x prec pos')
  then have "pos < length fmt" by (auto simp: fmt_at_def split: if_splits)
  moreover have "pos + 1 \<le> pos'"
    using width_digits_pos [of "pos + 1" fmt ch 0] 4 by (metis snd_conv)
  ultimately show ?case by simp
qed (auto simp: fmt_at_def split: if_splits)

declare reswitch.simps [simp del]

lemma reswitch_pos: "reswitch fmt pos ap sp = Inr (ch, pos', ap', sp') \<Longrightarrow> pos < pos'"
proof (induction fmt pos ap sp rule: reswitch.induct)
  case (1 fmt pos ap sp)
  note r = "1.prems" [unfolded reswitch.simps [of fmt pos ap sp] Let_def]
  have w: "pos < snd (width_digits fmt (pos + 1) (fmt_at fmt pos) 0)"
    using width_digits_pos [of "pos + 1" fmt "fmt_at fmt pos" 0] by simp
  show ?case
    using r w "1.IH"(1) [OF refl] "1.IH"(2) [OF refl] "1.IH"(3) [OF refl _ _ _ refl] "1.IH"(4) [OF refl _ _ _ _ _ refl]
      "1.IH"(5) [OF refl] "1.IH"(6) [OF refl] "1.IH"(7) [OF refl]
    by (cases "width_digits fmt (pos + 1) (fmt_at fmt pos) 0")
      (simp split: if_splits sum.splits prod.splits)
qed

section \<open>Conversions\<close>

definition MAXERROR :: int where "MAXERROR = 7"

text \<open>The table \<open>error_string\<close>; its entry 0 is null.\<close>

definition error_string :: "int \<Rightarrow> u8 list option" where
  "error_string err =
     (if err = 1 then Some (bytes ''unspecified error'')
      else if err = 2 then Some (bytes ''bad environment'')
      else if err = 3 then Some (bytes ''invalid parameter'')
      else if err = 4 then Some (bytes ''out of memory'')
      else if err = 5 then Some (bytes ''out of environments'')
      else if err = 6 then Some (bytes ''segmentation fault'')
      else None)"

text \<open>\<open>strnlen\<close> of the string of a list, with the precision converted to \<open>size_t\<close>.\<close>

definition str_nlen :: "u8 list \<Rightarrow> int \<Rightarrow> int" where
  "str_nlen p prec = min (int (length p)) (prec mod 2 ^ 32)"

text \<open>
  The loop of \<open>%s\<close>, with the characters sign-extended as plain chars are; the result has the
  width left.
\<close>

fun put_str :: "(u32 \<Rightarrow> 's \<Rightarrow> 's) \<Rightarrow> bool \<Rightarrow> u8 list \<Rightarrow> int \<Rightarrow> int \<Rightarrow> 's \<Rightarrow> int \<times> 's" where
  "put_str putch alt [] prec w s = (w, s)"
| "put_str putch alt (c # p) prec w s =
     (if c = 0 then (w, s)
      else if prec < 0 \<or> prec - 1 \<ge> 0
      then let ch = scast c :: u32
           in put_str putch alt p (if prec < 0 then prec else prec - 1) (w - 1)
                (if alt \<and> (sint ch < 32 \<or> sint ch > 126) then putch 63 s else putch ch s)
      else (w, s))"

definition conv_s :: "(u32 \<Rightarrow> 's \<Rightarrow> 's) \<Rightarrow> spec \<Rightarrow> u8 list option \<Rightarrow> 's \<Rightarrow> 's" where
  "conv_s putch sp p s =
     (let p = (case p of None \<Rightarrow> bytes ''(null)'' | Some p \<Rightarrow> p);
          (w, s) = (if width sp > 0 \<and> padc sp \<noteq> 45
                    then let w = width sp - str_nlen p (precision sp)
                         in (min w 0, put_n putch (padc sp) (nat w) s)
                    else (width sp, s));
          (w, s) = put_str putch (altflag sp) p (precision sp) w s
      in put_n putch 32 (nat w) s)"

text \<open>The label \<open>number\<close>.\<close>

definition number :: "(u32 \<Rightarrow> 's \<Rightarrow> 's) \<Rightarrow> u64 \<Rightarrow> u32 \<Rightarrow> spec \<Rightarrow> va list \<Rightarrow> 's \<Rightarrow> (va list \<times> 's) result" where
  "number putch num base sp ap s =
     bindR (returns (printnum putch num base (width sp) (padc sp) s)) (\<lambda>s. Inr (ap, s))"

text \<open>
  One conversion: \<open>None\<close> for an unrecognized character. Its cases are, in order, c, e, s, d, u, o,
  p, x and the percent sign. \<open>conv_e\<close> prints an error code.
\<close>

definition convert :: "(u32 \<Rightarrow> 's \<Rightarrow> 's result) \<Rightarrow> (u32 \<Rightarrow> 's \<Rightarrow> 's) \<Rightarrow> u8 \<Rightarrow> va list \<Rightarrow> spec \<Rightarrow> 's \<Rightarrow>
    (va list \<times> 's) result option" where
  "convert conv_e putch ch ap sp s =
     (if ch = 99 then Some (bindR (va_word ap) (\<lambda>(w, ap). Inr (ap, putch w s)))
      else if ch = 101 then Some (bindR (va_word ap) (\<lambda>(w, ap). bindR (conv_e w s) (\<lambda>s. Inr (ap, s))))
      else if ch = 115 then Some (bindR (va_str ap) (\<lambda>(p, ap). Inr (ap, conv_s putch sp p s)))
      else if ch = 100 then Some (bindR (getint ap (lflag sp)) (\<lambda>(num, ap).
        if sint num < 0 then number putch (- num) 10 sp ap (putch 45 s)
        else number putch num 10 sp ap s))
      else if ch = 117 then Some (bindR (getuint ap (lflag sp)) (\<lambda>(num, ap). number putch num 10 sp ap s))
      else if ch = 111 then Some (bindR (getuint ap (lflag sp)) (\<lambda>(num, ap). number putch num 8 sp ap s))
      else if ch = 112 then Some (bindR (va_word ap) (\<lambda>(w, ap).
        number putch (ucast w) 16 sp ap (putch 120 (putch 48 s))))
      else if ch = 120 then Some (bindR (getuint ap (lflag sp)) (\<lambda>(num, ap). number putch num 16 sp ap s))
      else if ch = 37 then Some (Inr (ap, putch (ucast ch) s))
      else None)"

section \<open>vprintfmt\<close>

text \<open>The loop that walks back to the position behind the percent sign.\<close>

fun back_to_percent :: "u8 list \<Rightarrow> nat \<Rightarrow> nat" where
  "back_to_percent fmt 0 = 0"
| "back_to_percent fmt (Suc i) = (if fmt_at fmt i = 37 then Suc i else back_to_percent fmt i)"

lemma back_to_percent_ge: "fmt_at fmt i = 37 \<Longrightarrow> i < j \<Longrightarrow> i < back_to_percent fmt j"
  by (induction j) (auto simp: less_Suc_eq)

lemma fmt_at_less: "fmt_at fmt pos \<noteq> 0 \<Longrightarrow> pos < length fmt"
  by (auto simp: fmt_at_def split: if_splits)

function vprintfmt_loop :: "(u32 \<Rightarrow> 's \<Rightarrow> 's result) \<Rightarrow> (u32 \<Rightarrow> 's \<Rightarrow> 's) \<Rightarrow> u8 list \<Rightarrow> nat \<Rightarrow> va list \<Rightarrow> 's \<Rightarrow>
    's result" where
  "vprintfmt_loop conv_e putch fmt pos ap s =
     (let ch = fmt_at fmt pos
      in if ch \<noteq> 37
         then if ch = 0 then Inr s
              else vprintfmt_loop conv_e putch fmt (pos + 1) ap (putch (ucast ch) s)
         else (case reswitch fmt (pos + 1) ap spec0 of
                 Inl e \<Rightarrow> Inl e
               | Inr (ch, pos', ap, sp) \<Rightarrow>
                   (case convert conv_e putch ch ap sp s of
                      None \<Rightarrow> vprintfmt_loop conv_e putch fmt (back_to_percent fmt (pos' - 1)) ap
                                (putch 37 s)
                    | Some (Inl e) \<Rightarrow> Inl e
                    | Some (Inr (ap, s)) \<Rightarrow> vprintfmt_loop conv_e putch fmt pos' ap s)))"
  by pat_completeness auto
termination
proof (relation "measure (\<lambda>(conv_e, putch, fmt, pos, ap, s). length fmt - pos)", goal_cases)
  case (2 conv_e putch fmt pos ap s ch)
  then show ?case using fmt_at_less [of fmt pos] by simp
next
  case (3 conv_e putch fmt pos ap s ch r ch' x pos' y ap' sp)
  then have p: "fmt_at fmt pos = 37" "pos + 1 < pos'" using reswitch_pos by auto
  then have "pos < back_to_percent fmt (pos' - 1)" "pos < length fmt"
    using back_to_percent_ge [of fmt pos "pos' - 1"] fmt_at_less [of fmt pos] by auto
  then show ?case by simp
next
  case (4 conv_e putch fmt pos ap s ch r ch' x pos' y ap' sp)
  then have p: "fmt_at fmt pos = 37" "pos + 1 < pos'" using reswitch_pos by auto
  then show ?case using fmt_at_less [of fmt pos] by simp
qed simp

declare vprintfmt_loop.simps [simp del]

text \<open>
  \<open>%e\<close> calls \<open>printfmt\<close> again, with the formats \<open>%s\<close> and \<open>error %d\<close>, which hold no \<open>%e\<close>: the inner
  call is \<open>printfmt0\<close>, where that case is out of reach.
\<close>

definition printfmt0 :: "(u32 \<Rightarrow> 's \<Rightarrow> 's) \<Rightarrow> u8 list \<Rightarrow> va list \<Rightarrow> 's \<Rightarrow> 's result" where
  "printfmt0 putch fmt ap s = vprintfmt_loop (\<lambda>err s. Inl BadArg) putch fmt 0 ap s"

definition conv_err :: "(u32 \<Rightarrow> 's \<Rightarrow> 's) \<Rightarrow> u32 \<Rightarrow> 's \<Rightarrow> 's result" where
  "conv_err putch err s =
     (let err = (if sint err < 0 then - err else err)
      in if sint err \<ge> MAXERROR then printfmt0 putch (bytes ''error %d'') [VWord err] s
         else if sint err < 0 then Inl WildPtr
         else (case error_string (sint err) of
                 None \<Rightarrow> printfmt0 putch (bytes ''error %d'') [VWord err] s
               | Some p \<Rightarrow> printfmt0 putch (bytes ''%s'') [VStr (Some p)] s))"

definition vprintfmt :: "(u32 \<Rightarrow> 's \<Rightarrow> 's) \<Rightarrow> u8 list \<Rightarrow> va list \<Rightarrow> 's \<Rightarrow> 's result" where
  "vprintfmt putch fmt ap s = vprintfmt_loop (conv_err putch) putch fmt 0 ap s"

definition printfmt :: "(u32 \<Rightarrow> 's \<Rightarrow> 's) \<Rightarrow> u8 list \<Rightarrow> va list \<Rightarrow> 's \<Rightarrow> 's result" where
  "printfmt putch fmt ap s = vprintfmt putch fmt ap s"

section \<open>vsnprintf\<close>

record sprintbuf =
  buf :: u32
  ebuf :: u32
  cnt :: u32
  sb_mem :: memory

definition sprintputch :: "u32 \<Rightarrow> sprintbuf \<Rightarrow> sprintbuf" where
  "sprintputch ch b =
     (let b = b\<lparr>cnt := cnt b + 1\<rparr>
      in if buf b < ebuf b
         then b\<lparr>sb_mem := (sb_mem b)(buf b := ucast ch), buf := buf b + 1\<rparr>
         else b)"

definition E_INVAL :: u32 where "E_INVAL = 3"

definition vsnprintf :: "u32 \<Rightarrow> u32 \<Rightarrow> u8 list \<Rightarrow> va list \<Rightarrow> memory \<Rightarrow> (u32 \<times> memory) result" where
  "vsnprintf bf n fmt ap m =
     (let b = \<lparr>buf = bf, ebuf = bf + n - 1, cnt = 0, sb_mem = m\<rparr>
      in if bf = 0 \<or> sint n < 1 then Inr (- E_INVAL, m)
         else bindR (vprintfmt sprintputch fmt ap b) (\<lambda>b.
                Inr (cnt b, (sb_mem b)(buf b := 0))))"

definition snprintf :: "u32 \<Rightarrow> u32 \<Rightarrow> u8 list \<Rightarrow> va list \<Rightarrow> memory \<Rightarrow> (u32 \<times> memory) result" where
  "snprintf bf n fmt ap m = vsnprintf bf n fmt ap m"

end
