(* ===== verification/Console_In.thy ===== *)
theory Console_In
  imports Console_Out Printfmt
begin

text \<open>
  kern/printf.c, and the input half of kern/console.c: the keyboard driver with its scan code
  tables, the circular input buffer, and \<open>cons_getc\<close>, \<open>getchar\<close> and \<open>cons_init\<close>. A C int is a
  word of 32 bits, so the answer -1 of the drivers is the word of all ones.
\<close>

section \<open>cprintf (kern/printf.c)\<close>

text \<open>
  \<open>putch\<close> of kern/printf.c: the state has the console and the counter of \<open>vcprintf\<close>. Its second
  statement increments the pointer to the counter, a copy of the argument, and not the counter.
\<close>

definition putch :: "'d ports \<Rightarrow> u32 \<Rightarrow> 'd console \<times> u32 \<Rightarrow> 'd console \<times> u32" where
  "putch io ch = (\<lambda>(s, cnt). (cputchar io ch s, cnt))"

definition vcprintf :: "'d ports \<Rightarrow> u8 list \<Rightarrow> va list \<Rightarrow> 'd console \<Rightarrow> (u32 \<times> 'd console) result" where
  "vcprintf io fmt ap s = bindR (vprintfmt (putch io) fmt ap (s, 0)) (\<lambda>(s, cnt). Inr (cnt, s))"

definition cprintf :: "'d ports \<Rightarrow> u8 list \<Rightarrow> va list \<Rightarrow> 'd console \<Rightarrow> (u32 \<times> 'd console) result" where
  "cprintf io fmt ap s = vcprintf io fmt ap s"

section \<open>Scan code tables\<close>

definition KEY_HOME :: u8 where "KEY_HOME = 0xE0"
definition KEY_END :: u8 where "KEY_END = 0xE1"
definition KEY_UP :: u8 where "KEY_UP = 0xE2"
definition KEY_DN :: u8 where "KEY_DN = 0xE3"
definition KEY_LF :: u8 where "KEY_LF = 0xE4"
definition KEY_RT :: u8 where "KEY_RT = 0xE5"
definition KEY_PGUP :: u8 where "KEY_PGUP = 0xE6"
definition KEY_PGDN :: u8 where "KEY_PGDN = 0xE7"
definition KEY_INS :: u8 where "KEY_INS = 0xE8"
definition KEY_DEL :: u8 where "KEY_DEL = 0xE9"

definition SHIFT :: u32 where "SHIFT = 1"
definition CTL :: u32 where "CTL = 2"
definition ALT :: u32 where "ALT = 4"
definition CAPSLOCK :: u32 where "CAPSLOCK = 8"
definition NUMLOCK :: u32 where "NUMLOCK = 16"
definition SCROLLLOCK :: u32 where "SCROLLLOCK = 32"
definition E0ESC :: u32 where "E0ESC = 64"

definition shiftcode :: "u8 \<Rightarrow> u32" where
  "shiftcode data =
     (if data = 0x1D \<or> data = 0x9D then CTL
      else if data = 0x2A \<or> data = 0x36 then SHIFT
      else if data = 0x38 \<or> data = 0xB8 then ALT
      else 0)"

definition togglecode :: "u8 \<Rightarrow> u32" where
  "togglecode data =
     (if data = 0x3A then CAPSLOCK
      else if data = 0x45 then NUMLOCK
      else if data = 0x46 then SCROLLLOCK
      else 0)"

text \<open>The extended keys of the normal and the shift table.\<close>

definition ext_keys :: "u8 \<Rightarrow> u8" where
  "ext_keys data =
     (if data = 0xC7 then KEY_HOME else if data = 0x9C then 10
      else if data = 0xB5 then 47 else if data = 0xC8 then KEY_UP
      else if data = 0xC9 then KEY_PGUP else if data = 0xCB then KEY_LF
      else if data = 0xCD then KEY_RT else if data = 0xCF then KEY_END
      else if data = 0xD0 then KEY_DN else if data = 0xD1 then KEY_PGDN
      else if data = 0xD2 then KEY_INS else if data = 0xD3 then KEY_DEL
      else 0)"

text \<open>The rows of the tables from \<open>0x00\<close> on.\<close>

definition normal_rows :: "u8 list" where
  "normal_rows =
     [0, 0x1B] @ bytes ''1234567890-='' @ [8, 9] @
     bytes ''qwertyuiop[]'' @ [10, 0] @ bytes ''asdfghjkl;'' @
     [39, 96, 0, 92] @ bytes ''zxcvbnm,./'' @ [0, 42,
     0, 32, 0, 0, 0, 0, 0, 0,
     0, 0, 0, 0, 0, 0, 0] @ bytes ''789-456+1230.'' @ [0, 0, 0, 0]"

definition shift_rows :: "u8 list" where
  "shift_rows =
     [0, 27] @ bytes ''!@#$%^&*()_+'' @ [8, 9] @
     bytes ''QWERTYUIOP{}'' @ [10, 0] @ bytes ''ASDFGHJKL:'' @
     [34, 126, 0, 124] @ bytes ''ZXCVBNM<>?'' @ [0, 42,
     0, 32, 0, 0, 0, 0, 0, 0,
     0, 0, 0, 0, 0, 0, 0] @ bytes ''789-456+1230.'' @ [0, 0, 0, 0]"

text \<open>\<open>C(x)\<close>: the control character of a letter.\<close>

definition ctl :: "u8 \<Rightarrow> u8" where "ctl x = x - 64"

definition ctl_rows :: "u8 list" where
  "ctl_rows = replicate 16 0 @
     map ctl (bytes ''QWERTYUIOP'') @ [0, 0, 13, 0] @ map ctl (bytes ''AS'') @
     map ctl (bytes ''DFGHJKL'') @ [0, 0, 0, 0, ctl 92] @ map ctl (bytes ''ZXCV'') @
     map ctl (bytes ''BNM'') @ [0, 0, ctl 47, 0, 0]"

definition normalmap :: "u8 \<Rightarrow> u8" where
  "normalmap data = (if unat data < length normal_rows then normal_rows ! unat data else ext_keys data)"

definition shiftmap :: "u8 \<Rightarrow> u8" where
  "shiftmap data = (if unat data < length shift_rows then shift_rows ! unat data else ext_keys data)"

definition ctlmap :: "u8 \<Rightarrow> u8" where
  "ctlmap data =
     (if unat data < length ctl_rows then ctl_rows ! unat data
      else if data = 0x97 then KEY_HOME
      else if data = 0xB5 then ctl 47 else if data = 0xC8 then KEY_UP
      else if data = 0xC9 then KEY_PGUP else if data = 0xCB then KEY_LF
      else if data = 0xCD then KEY_RT else if data = 0xCF then KEY_END
      else if data = 0xD0 then KEY_DN else if data = 0xD1 then KEY_PGDN
      else if data = 0xD2 then KEY_INS else if data = 0xD3 then KEY_DEL
      else 0)"

definition charcode :: "u32 \<Rightarrow> u8 \<Rightarrow> u8" where
  "charcode i = (if i = 0 then normalmap else if i = 1 then shiftmap else ctlmap)"

section \<open>The keyboard\<close>

definition KBSTATP :: u32 where "KBSTATP = 0x64"
definition KBDATAP :: u32 where "KBDATAP = 0x60"
definition KBS_DIB :: u8 where "KBS_DIB = 0x01"
definition KBS_TERR :: u8 where "KBS_TERR = 0x20"

text \<open>
  What \<open>kbd_proc_data\<close> does with a data byte in the shift state: the new shift state and the
  character, 0 when no character is finished.
\<close>

definition caps :: "u32 \<Rightarrow> u32" where
  "caps c = (if 97 \<le> c \<and> c \<le> 122 then c + 65 - 97 else if 65 \<le> c \<and> c \<le> 90 then c + 97 - 65 else c)"

definition kbd_decode :: "u32 \<Rightarrow> u8 \<Rightarrow> u32 \<times> u32" where
  "kbd_decode shift data =
     (if data = 0xE0 then (shift OR E0ESC, 0)
      else if data AND 0x80 \<noteq> 0
      then let data = (if shift AND E0ESC \<noteq> 0 then data else data AND 0x7F)
           in (shift AND NOT (shiftcode data OR E0ESC), 0)
      else let (data, shift) = (if shift AND E0ESC \<noteq> 0 then (data OR 0x80, shift AND NOT E0ESC)
                                else (data, shift));
               shift = shift OR shiftcode data;
               shift = shift XOR togglecode data;
               c = ucast (charcode (shift AND (CTL OR SHIFT)) data);
               c = (if shift AND CAPSLOCK \<noteq> 0 then caps c else c)
           in (shift, c))"

text \<open>
  The reboot: a key that reads as delete with control and alt held. The early returns of the C
  function give 0, which is not that key.
\<close>

definition kbd_proc_data :: "'d ports \<Rightarrow> 'd console \<Rightarrow> (u32 \<times> 'd console) result" where
  "kbd_proc_data io s =
     (let (stat, s) = con_in io KBSTATP s
      in if stat AND KBS_DIB = 0 then Inr (-1, s)
         else if stat AND KBS_TERR \<noteq> 0 then Inr (-1, s)
         else let (data, s) = con_in io KBDATAP s;
                  (shift, c) = kbd_decode (kbd_shift s) data;
                  s = s\<lparr>kbd_shift := shift\<rparr>
              in if NOT shift AND (CTL OR ALT) = 0 \<and> c = ucast KEY_DEL
                 then bindR (cprintf io (bytes ''Rebooting!'' @ [10]) [] s) (\<lambda>(_, s).
                        Inr (c, con_out io 0x92 0x3 s))
                 else Inr (c, s))"

definition serial_proc_data :: "'d ports \<Rightarrow> 'd console \<Rightarrow> (u32 \<times> 'd console) result" where
  "serial_proc_data io s =
     (let (v, s) = con_in io (COM1 + COM_LSR) s
      in if v AND COM_LSR_DATA = 0 then Inr (-1, s)
         else let (v, s) = con_in io (COM1 + COM_RX) s in Inr (ucast v, s))"

section \<open>The input buffer\<close>

definition CONSBUFSIZE :: u32 where "CONSBUFSIZE = 512"

text \<open>The body of the loop of \<open>cons_intr\<close>, and the end of \<open>cons_getc\<close>.\<close>

definition cons_store :: "u32 \<Rightarrow> 'd console \<Rightarrow> 'd console" where
  "cons_store c s =
     (let s = s\<lparr>cons_buf := (cons_buf s)[unat (cons_wpos s) := ucast c], cons_wpos := cons_wpos s + 1\<rparr>
      in if cons_wpos s = CONSBUFSIZE then s\<lparr>cons_wpos := 0\<rparr> else s)"

definition cons_fetch :: "'d console \<Rightarrow> u32 \<times> 'd console" where
  "cons_fetch s =
     (if cons_rpos s \<noteq> cons_wpos s
      then let c = cons_buf s ! unat (cons_rpos s);
               s = s\<lparr>cons_rpos := cons_rpos s + 1\<rparr>;
               s = (if cons_rpos s = CONSBUFSIZE then s\<lparr>cons_rpos := 0\<rparr> else s)
           in (ucast c, s)
      else (0, s))"

partial_function (option) cons_intr ::
  "('d console \<Rightarrow> (u32 \<times> 'd console) result) \<Rightarrow> 'd console \<Rightarrow> 'd console result option" where
  "cons_intr proc s =
     (case proc s of
        Inl e \<Rightarrow> Some (Inl e)
      | Inr (c, s) \<Rightarrow>
          if c = -1 then Some (Inr s)
          else if c = 0 then cons_intr proc s
          else cons_intr proc (cons_store c s))"

definition serial_intr :: "'d ports \<Rightarrow> 'd console \<Rightarrow> 'd console result" where
  "serial_intr io s = (if serial_exists s then joinR (cons_intr (serial_proc_data io) s) else Inr s)"

definition kbd_intr :: "'d ports \<Rightarrow> 'd console \<Rightarrow> 'd console result" where
  "kbd_intr io s = joinR (cons_intr (kbd_proc_data io) s)"

definition cons_getc :: "'d ports \<Rightarrow> 'd console \<Rightarrow> (u32 \<times> 'd console) result" where
  "cons_getc io s =
     bindR (serial_intr io s) (\<lambda>s. bindR (kbd_intr io s) (\<lambda>s. Inr (cons_fetch s)))"

partial_function (option) getchar :: "'d ports \<Rightarrow> 'd console \<Rightarrow> (u32 \<times> 'd console) result option" where
  "getchar io s =
     (case cons_getc io s of
        Inl e \<Rightarrow> Some (Inl e)
      | Inr (c, s) \<Rightarrow> if c = 0 then getchar io s else Some (Inr (c, s)))"

definition iscons :: "u32 \<Rightarrow> bool" where
  "iscons fdnum = True"

section \<open>Initialization\<close>

text \<open>
  \<open>cga_init\<close> writes \<open>0xA55A\<close> to the color display memory and reads it back; \<open>color\<close> says whether
  that memory is there. Where it is not, the write has no effect and something else is read.
\<close>

definition CGA_BASE :: u32 where "CGA_BASE = 0x3D4"
definition CGA_BUF :: u32 where "CGA_BUF = 0xB8000"
definition MONO_BASE :: u32 where "MONO_BASE = 0x3B4"
definition MONO_BUF :: u32 where "MONO_BUF = 0xB0000"

definition cga_init :: "bool \<Rightarrow> 'd ports \<Rightarrow> 'd console \<Rightarrow> 'd console" where
  "cga_init color io s =
     (let cp = KERNBASE + CGA_BUF;
          was = ld16 (con_mem s) cp;
          s = (if color then s\<lparr>con_mem := st16 (con_mem s) cp 0xA55A\<rparr> else s);
          (cp, s) = (if \<not> color then (KERNBASE + MONO_BUF, s\<lparr>addr_6845 := MONO_BASE\<rparr>)
                     else (cp, s\<lparr>con_mem := st16 (con_mem s) cp was, addr_6845 := CGA_BASE\<rparr>));
          s = con_out io (addr_6845 s) 14 s;
          (hi, s) = con_in io (addr_6845 s + 1) s;
          s = con_out io (addr_6845 s) 15 s;
          (lo, s) = con_in io (addr_6845 s + 1) s
      in s\<lparr>crt_buf := cp, crt_pos := ucast (push_bit 8 (ucast hi :: u32) OR ucast lo)\<rparr>)"

definition serial_init :: "'d ports \<Rightarrow> 'd console \<Rightarrow> 'd console" where
  "serial_init io s =
     (let s = con_out io (COM1 + COM_FCR) 0 s;
          s = con_out io (COM1 + COM_LCR) COM_LCR_DLAB s;
          s = con_out io (COM1 + COM_DLL) (ucast (115200 div 9600 :: u32)) s;
          s = con_out io (COM1 + COM_DLM) 0 s;
          s = con_out io (COM1 + COM_LCR) (COM_LCR_WLEN8 AND NOT COM_LCR_DLAB) s;
          s = con_out io (COM1 + COM_MCR) 0 s;
          s = con_out io (COM1 + COM_IER) COM_IER_RDI s;
          (v, s) = con_in io (COM1 + COM_LSR) s;
          s = s\<lparr>serial_exists := (v \<noteq> 0xFF)\<rparr>;
          (_, s) = con_in io (COM1 + COM_IIR) s;
          (_, s) = con_in io (COM1 + COM_RX) s
      in s)"

definition cons_init :: "bool \<Rightarrow> 'd ports \<Rightarrow> 'd console \<Rightarrow> 'd console result" where
  "cons_init color io s =
     (let s = serial_init io (cga_init color io s)
      in if \<not> serial_exists s
         then bindR (cprintf io (bytes ''Serial port does not exist!'' @ [10]) [] s) (\<lambda>(_, s). Inr s)
         else Inr s)"

end
