(* ===== verification/Console_Queue.thy ===== *)
theory Console_Queue
  imports Console_In
begin

text \<open>
  The console input buffer as a queue: \<open>bounded_fifo\<close> is the contract, \<open>cons_store\<close> (the loop body
  of \<open>cons_intr\<close>) and \<open>cons_fetch\<close> (the end of \<open>cons_getc\<close>) implement it with 511 places, and the
  512th waiting character empties the buffer.
\<close>

section \<open>The contract of a bounded queue\<close>

fun gets :: "('s \<Rightarrow> 'c \<times> 's) \<Rightarrow> nat \<Rightarrow> 's \<Rightarrow> 'c list \<times> 's" where
  "gets get 0 s = ([], s)"
| "gets get (Suc n) s = (let (c, s) = get s; (cs, s) = gets get n s in (c # cs, s))"

locale bounded_fifo =
  fixes put :: "'c \<Rightarrow> 's \<Rightarrow> 's"
    and get :: "'s \<Rightarrow> 'c \<times> 's"
    and contents :: "'s \<Rightarrow> 'b list"
    and inv :: "'s \<Rightarrow> bool"
    and code :: "'c \<Rightarrow> 'b"
    and decode :: "'b \<Rightarrow> 'c"
    and none :: 'c
    and cap :: nat
  assumes put_inv: "inv s \<Longrightarrow> inv (put c s)"
    and put_back: "inv s \<Longrightarrow> length (contents s) < cap \<Longrightarrow> contents (put c s) = contents s @ [code c]"
    and get_front: "inv s \<Longrightarrow> contents s = x # xs \<Longrightarrow>
      \<exists>s'. get s = (decode x, s') \<and> inv s' \<and> contents s' = xs"
    and get_none: "inv s \<Longrightarrow> contents s = [] \<Longrightarrow> get s = (none, s)"
begin

lemma puts: "inv s \<Longrightarrow> length (contents s) + length cs \<le> cap \<Longrightarrow>
    inv (fold put cs s) \<and> contents (fold put cs s) = contents s @ map code cs"
proof (induction cs arbitrary: s)
  case (Cons c cs)
  have "contents (put c s) = contents s @ [code c]" using Cons.prems by (intro put_back) simp_all
  then show ?case using Cons.IH [of "put c s"] Cons.prems put_inv [of s c] by simp
qed simp

lemma gets_all: "inv s \<Longrightarrow> contents s = xs \<Longrightarrow>
    \<exists>s'. gets get (length xs) s = (map decode xs, s') \<and> inv s' \<and> contents s' = []"
proof (induction xs arbitrary: s)
  case (Cons x xs)
  obtain s1 where s1: "get s = (decode x, s1)" "inv s1" "contents s1 = xs"
    using get_front [OF Cons.prems] by blast
  from Cons.IH [OF s1(2,3)] s1(1) show ?case by auto
qed simp

text \<open>What goes in comes out in the same order, behind what was waiting.\<close>

lemma fifo:
  assumes "inv s" "length (contents s) + length cs \<le> cap"
  shows "\<exists>s'. gets get (length (contents s) + length cs) (fold put cs s)
      = (map decode (contents s) @ map (\<lambda>c. decode (code c)) cs, s') \<and> inv s' \<and> contents s' = []"
  using gets_all [of "fold put cs s" "contents s @ map code cs"] puts [OF assms] by auto

end

section \<open>The ring\<close>

definition ring_ok :: "'d console \<Rightarrow> bool" where
  "ring_ok s \<longleftrightarrow> length (cons_buf s) = 512 \<and> cons_rpos s < 512 \<and> cons_wpos s < 512"

definition waiting :: "'d console \<Rightarrow> u8 list" where
  "waiting s = map (\<lambda>i. cons_buf s ! ((unat (cons_rpos s) + i) mod 512))
     [0..<(unat (cons_wpos s) + 512 - unat (cons_rpos s)) mod 512]"

lemma unat_next:
  assumes "(w :: u32) < 512"
  shows "unat (if w + 1 = CONSBUFSIZE then 0 else w + 1) = (unat w + 1) mod 512"
proof -
  have w: "unat w < 512" using assms by (simp add: word_less_nat_alt)
  then have "unat (w + 1) = unat w + 1" by (simp add: unat_word_ariths)
  then have "w + 1 = CONSBUFSIZE \<longleftrightarrow> unat w + 1 = 512" by (simp add: word_unat_eq_iff CONSBUFSIZE_def)
  then show ?thesis using w \<open>unat (w + 1) = unat w + 1\<close> by auto
qed

lemma cons_store_eq:
  "cons_store c s = s\<lparr>cons_buf := (cons_buf s)[unat (cons_wpos s) := ucast c],
     cons_wpos := (if cons_wpos s + 1 = CONSBUFSIZE then 0 else cons_wpos s + 1)\<rparr>"
  by (simp add: cons_store_def)

lemma cons_fetch_eq:
  "cons_rpos s \<noteq> cons_wpos s \<Longrightarrow> cons_fetch s = (ucast (cons_buf s ! unat (cons_rpos s)),
     s\<lparr>cons_rpos := (if cons_rpos s + 1 = CONSBUFSIZE then 0 else cons_rpos s + 1)\<rparr>)"
  by (simp add: cons_fetch_def)

lemma ring_ok_nat: "ring_ok s \<longleftrightarrow> length (cons_buf s) = 512 \<and> unat (cons_rpos s) < 512 \<and> unat (cons_wpos s) < 512"
  by (simp add: ring_ok_def word_less_nat_alt)

text \<open>Distances on a ring of 512 places, from the read to the write position.\<close>

definition dist :: "nat \<Rightarrow> nat \<Rightarrow> nat" where
  "dist r w = (if r \<le> w then w - r else w + 512 - r)"

lemma mod512: "(n :: nat) < 512 + 512 \<Longrightarrow> n mod 512 = (if n < 512 then n else n - 512)"
  by (simp add: mod_if)

lemma next_mod: "(w :: nat) < 512 \<Longrightarrow> (w + 1) mod 512 = (if w = 511 then 0 else w + 1)"
  by auto

lemma dist_mod: "r < 512 \<Longrightarrow> w < 512 \<Longrightarrow> (w + 512 - r) mod 512 = dist r w"
  by (subst mod512) (auto simp: dist_def)

lemma dist_store: "r < 512 \<Longrightarrow> w < 512 \<Longrightarrow> dist r w < 511 \<Longrightarrow> dist r ((w + 1) mod 512) = Suc (dist r w)"
  by (simp only: next_mod) (auto simp: dist_def split: if_splits)

lemma dist_full: "r < 512 \<Longrightarrow> w < 512 \<Longrightarrow> dist r w = 511 \<Longrightarrow> (w + 1) mod 512 = r"
  by (simp only: next_mod) (auto simp: dist_def split: if_splits)

lemma dist_fetch: "r < 512 \<Longrightarrow> w < 512 \<Longrightarrow> dist r w = Suc n \<Longrightarrow> dist ((r + 1) mod 512) w = n"
  by (simp only: next_mod) (auto simp: dist_def split: if_splits)

lemma dist_end: "r < 512 \<Longrightarrow> w < 512 \<Longrightarrow> (r + dist r w) mod 512 = w"
  by (subst mod512) (auto simp: dist_def)

lemma dist_ne: "r < 512 \<Longrightarrow> w < 512 \<Longrightarrow> i < dist r w \<Longrightarrow> (r + i) mod 512 \<noteq> w"
  by (subst mod512) (auto simp: dist_def split: if_splits)

abbreviation rp :: "'d console \<Rightarrow> nat" where "rp s \<equiv> unat (cons_rpos s)"
abbreviation wp :: "'d console \<Rightarrow> nat" where "wp s \<equiv> unat (cons_wpos s)"

lemma waiting_eq:
  "rp s < 512 \<Longrightarrow> wp s < 512 \<Longrightarrow>
    waiting s = map (\<lambda>i. cons_buf s ! ((rp s + i) mod 512)) [0..<dist (rp s) (wp s)]"
  by (simp only: waiting_def dist_mod)

lemma length_waiting: "ring_ok s \<Longrightarrow> length (waiting s) = dist (rp s) (wp s)"
  by (simp add: waiting_eq ring_ok_nat)

lemma store_wp: "ring_ok s \<Longrightarrow> wp (cons_store c s) = (wp s + 1) mod 512"
proof -
  have "cons_wpos (cons_store c s) = (if cons_wpos s + 1 = CONSBUFSIZE then 0 else cons_wpos s + 1)"
    by (simp add: cons_store_eq)
  then show "ring_ok s \<Longrightarrow> ?thesis" using unat_next [of "cons_wpos s"] by (simp only: ring_ok_def)
qed

lemma store_same: "rp (cons_store c s) = rp s" "cons_buf (cons_store c s) = (cons_buf s)[wp s := ucast c]"
  by (simp_all add: cons_store_eq)

lemma store_ok: "ring_ok s \<Longrightarrow> ring_ok (cons_store c s)"
  using store_wp [of s c] by (simp add: ring_ok_nat store_same)

lemma store_back:
  assumes ok: "ring_ok s" and room: "length (waiting s) < 511"
  shows "waiting (cons_store c s) = waiting s @ [ucast c]"
proof -
  let ?k = "dist (rp s) (wp s)"
  have b: "rp s < 512" "wp s < 512" "length (cons_buf s) = 512" using ok by (simp_all add: ring_ok_nat)
  have k: "dist (rp s) ((wp s + 1) mod 512) = Suc ?k"
    using room b by (intro dist_store) (simp_all add: length_waiting [OF ok])
  have "rp (cons_store c s) < 512" "wp (cons_store c s) < 512"
    using store_ok [OF ok] by (simp_all add: ring_ok_nat)
  from waiting_eq [OF this]
  have "waiting (cons_store c s) = map (\<lambda>i. (cons_buf s)[wp s := ucast c] ! ((rp s + i) mod 512)) [0..<Suc ?k]"
    unfolding store_wp [OF ok] store_same k .
  also have "\<dots> = map (\<lambda>i. cons_buf s ! ((rp s + i) mod 512)) [0..<?k] @ [ucast c]"
    using dist_ne [OF b(1,2), THEN not_sym] dist_end [OF b(1,2)] b by simp
  finally show ?thesis using b by (simp only: waiting_eq)
qed

lemma fetch_front:
  assumes ok: "ring_ok s" and w: "waiting s = x # xs"
  shows "\<exists>s'. cons_fetch s = (ucast x, s') \<and> ring_ok s' \<and> waiting s' = xs"
proof -
  have b: "rp s < 512" "wp s < 512" "length (cons_buf s) = 512" using ok by (simp_all add: ring_ok_nat)
  have k: "dist (rp s) (wp s) = Suc (length xs)" using w length_waiting [OF ok] by simp
  have ne: "cons_rpos s \<noteq> cons_wpos s" using k by (auto simp: dist_def)
  let ?s = "s\<lparr>cons_rpos := (if cons_rpos s + 1 = CONSBUFSIZE then 0 else cons_rpos s + 1)\<rparr>"
  have "cons_rpos ?s = (if cons_rpos s + 1 = CONSBUFSIZE then 0 else cons_rpos s + 1)" by simp
  then have u: "rp ?s = (rp s + 1) mod 512"
    using ok unat_next [of "cons_rpos s"] by (simp only: ring_ok_def)
  have ok': "ring_ok ?s" using u b by (simp add: ring_ok_nat)
  have "waiting s = map (\<lambda>i. cons_buf s ! ((rp s + i) mod 512)) [0..<Suc (length xs)]"
    using b by (simp only: waiting_eq k)
  also have "\<dots> = cons_buf s ! rp s # map (\<lambda>i. cons_buf s ! ((rp s + 1 + i) mod 512)) [0..<length xs]"
    using b(1) by (simp add: upt_conv_Cons map_Suc_upt [symmetric] comp_def del: upt_Suc)
  finally have x: "x = cons_buf s ! rp s" "map (\<lambda>i. cons_buf s ! ((rp s + 1 + i) mod 512)) [0..<length xs] = xs"
    using w by simp_all
  have "rp ?s < 512" "wp ?s < 512" using ok' by (simp_all only: ring_ok_nat)
  moreover have "wp ?s = wp s" "cons_buf ?s = cons_buf s" by simp_all
  ultimately have "waiting ?s = map (\<lambda>i. cons_buf s ! (((rp s + 1) mod 512 + i) mod 512)) [0..<length xs]"
    using waiting_eq [of ?s] dist_fetch [OF b(1,2) k] by (simp only: u)
  also have "\<dots> = xs" by (simp only: mod_add_left_eq x(2))
  finally show ?thesis using cons_fetch_eq [OF ne] x(1) ok' by auto
qed

lemma fetch_none: "ring_ok s \<Longrightarrow> waiting s = [] \<Longrightarrow> cons_fetch s = (0, s)"
proof -
  assume ok: "ring_ok s" and w: "waiting s = []"
  then have "dist (rp s) (wp s) = 0" using length_waiting [OF ok] by simp
  then have "rp s = wp s" using ok by (auto simp: dist_def ring_ok_nat split: if_splits)
  then show ?thesis by (simp add: cons_fetch_def word_unat_eq_iff)
qed

interpretation cq: bounded_fifo cons_store cons_fetch waiting ring_ok ucast ucast 0 511
  by unfold_locales (fact store_ok store_back fetch_front fetch_none)+

text \<open>The store that finds 511 characters waiting makes the positions equal.\<close>

lemma store_full: "ring_ok s \<Longrightarrow> length (waiting s) = 511 \<Longrightarrow> waiting (cons_store c s) = []"
proof -
  assume ok: "ring_ok s" and f: "length (waiting s) = 511"
  have b: "rp s < 512" "wp s < 512" using ok by (simp_all add: ring_ok_nat)
  have "wp (cons_store c s) = rp (cons_store c s)"
    using dist_full [OF b] f by (simp add: store_wp [OF ok] store_same length_waiting [OF ok])
  then show ?thesis by (simp add: waiting_def)
qed

end
