(* ===== verification/Console_Screen.thy ===== *)
theory Console_Screen
  imports Console_Out
begin

text \<open>
  The display as a screen: 2000 cells and a cursor position. \<open>screen_put\<close> is the screen's own
  account of a character; \<open>cga_putc\<close>, with its byte-wise scrolling through \<open>memmove\<close>, is shown to
  implement it and to leave all other memory alone.
\<close>

section \<open>The abstract screen\<close>

type_synonym screen = "u16 list \<times> nat"

definition blank :: u16 where "blank = 0x0720"

definition scr_scroll :: "screen \<Rightarrow> screen" where
  "scr_scroll = (\<lambda>(cells, pos). if pos \<ge> 2000 then (drop 80 cells @ replicate 80 blank, pos - 80) else (cells, pos))"

definition scr_char :: "u32 \<Rightarrow> screen \<Rightarrow> screen" where
  "scr_char c = (\<lambda>(cells, pos).
     scr_scroll (if c AND 0xff = 8 then (if 0 < pos then (cells[pos - 1 := ucast (c AND NOT 0xff OR 32)], pos - 1) else (cells, pos))
       else if c AND 0xff = 10 then (cells, (pos + 80) div 80 * 80)
       else if c AND 0xff = 13 then (cells, pos div 80 * 80)
       else (cells[pos := ucast c], pos + 1)))"

definition screen_put :: "u32 \<Rightarrow> screen \<Rightarrow> screen" where
  "screen_put c v = (if c AND 0xff = 9 then (scr_char (with_attr 32) ^^ 5) v else scr_char (with_attr c) v)"

section \<open>Cells in memory\<close>

text \<open>Byte \<open>x\<close> behind the address \<open>b\<close>.\<close>

definition off :: "u32 \<Rightarrow> nat \<Rightarrow> u32" where
  "off b x = b + word_of_nat x"

definition view :: "'d console \<Rightarrow> screen" where
  "view s = (map (\<lambda>i. ld16 (con_mem s) (off (crt_buf s) (2 * i))) [0..<2000], unat (crt_pos s))"

definition con_ok :: "'d console \<Rightarrow> bool" where
  "con_ok s \<longleftrightarrow> unat (crt_buf s) + 4000 < 2 ^ 32 \<and> unat (crt_pos s) < 2000"

text \<open>Nothing but the display changes.\<close>

definition con_frame :: "'d console \<Rightarrow> 'd console \<Rightarrow> bool" where
  "con_frame s s' \<longleftrightarrow> crt_buf s' = crt_buf s \<and>
     (\<forall>a. 4000 \<le> unat (a - crt_buf s) \<longrightarrow> con_mem s' a = con_mem s a)"

lemma con_frame_refl: "con_frame s s"
  by (simp add: con_frame_def)

lemma con_frame_trans: "con_frame s s' \<Longrightarrow> con_frame s' s'' \<Longrightarrow> con_frame s s''"
  by (simp add: con_frame_def)

lemma off_eq: "x < 2 ^ 32 \<Longrightarrow> y < 2 ^ 32 \<Longrightarrow> off b x = off b y \<longleftrightarrow> x = y"
proof -
  assume xy: "x < 2 ^ 32" "y < 2 ^ 32"
  have "unat (off b x - b) = x" "unat (off b y - b) = y"
    using xy by (simp_all only: off_def add_diff_cancel_left' unat_of_nat32)
  then show "off b x = off b y \<longleftrightarrow> x = y" by metis
qed

lemma off_1: "off b x + 1 = off b (x + 1)"
  by (simp add: off_def)

lemma off_diff: "x < 2 ^ 32 \<Longrightarrow> unat (off b x - b) = x"
  by (simp add: off_def unat_of_nat32)

lemma off_unat: "off b (unat (a - b)) = a"
  by (simp add: off_def)

lemma word16_bytes: "(ucast (ucast (v :: u16) :: u8) :: u16) OR push_bit 8 (ucast (ucast (drop_bit 8 v) :: u8)) = v"
proof (rule bit_word_eqI)
  fix n assume n: "n < LENGTH(16)"
  show "bit ((ucast (ucast v :: u8) :: u16) OR push_bit 8 (ucast (ucast (drop_bit 8 v) :: u8))) n = bit v n"
  proof (cases "n < 8")
    case True
    then show ?thesis by (simp add: bit_or_iff bit_push_bit_iff bit_ucast_iff)
  next
    case False
    then obtain k where "n = 8 + k" using le_Suc_ex not_le by blast
    then show ?thesis using n by (simp add: bit_or_iff bit_push_bit_iff bit_ucast_iff bit_drop_bit_eq)
  qed
qed

text \<open>The bytes of the display, by offset.\<close>

lemma cell_bytes: "ld16 m (off b (2 * i)) = ucast (m (off b (2 * i))) OR push_bit 8 (ucast (m (off b (2 * i + 1))))"
  by (simp only: ld16_def off_1)

lemma st16_at:
  assumes "i < 2 ^ 30" "x < 2 ^ 32"
  shows "st16 m (off b (2 * i)) v (off b x) =
    (if x = 2 * i then ucast v else if x = 2 * i + 1 then ucast (drop_bit 8 v) else m (off b x))"
proof -
  have "2 * i < 2 ^ 32" "2 * i + 1 < 2 ^ 32" using assms(1) by simp_all
  then have "off b x = off b (2 * i) \<longleftrightarrow> x = 2 * i" "off b x = off b (2 * i + 1) \<longleftrightarrow> x = 2 * i + 1"
    using assms(2) by (simp_all only: off_eq)
  then show ?thesis by (simp add: st16_def off_1)
qed

lemma cell_st16:
  assumes "i < 2000" "j < 2000"
  shows "ld16 (st16 m (off b (2 * i)) v) (off b (2 * j)) = (if i = j then v else ld16 m (off b (2 * j)))"
proof -
  have "2 * j \<noteq> 2 * i + 1" "2 * j + 1 \<noteq> 2 * i" by presburger+
  then show ?thesis
    using assms unfolding cell_bytes by (auto simp: st16_at word16_bytes)
qed

lemma out_bytes: "4000 \<le> unat (a - b :: u32) \<Longrightarrow> i < 2000 \<Longrightarrow> st16 m (off b (2 * i)) v a = m a"
  using st16_at [of i "unat (a - b)" m b v] unat32_bound [of "a - b"] by (simp add: off_unat)

lemma put_cell_eq: "put_cell i v s = s\<lparr>con_mem := st16 (con_mem s) (off (crt_buf s) (2 * unat i)) v\<rparr>"
  by (simp add: put_cell_def off_def)

lemma put_cell_view:
  assumes "unat i < 2000"
  shows "fst (view (put_cell i v s)) = (fst (view s))[unat i := v]" "snd (view (put_cell i v s)) = snd (view s)"
    "con_frame s (put_cell i v s)"
proof -
  show "fst (view (put_cell i v s)) = (fst (view s))[unat i := v]"
    using assms cell_st16 by (intro nth_equalityI) (auto simp: view_def put_cell_eq nth_list_update)
  show "con_frame s (put_cell i v s)"
    using assms by (simp add: con_frame_def put_cell_eq out_bytes)
qed (simp add: view_def put_cell_def)

section \<open>Scrolling\<close>

lemma blank_cells_view:
  "unat i + n \<le> 2000 \<Longrightarrow> n < 2000 \<Longrightarrow>
    view (blank_cells i n s) = (map (\<lambda>j. if unat i \<le> j \<and> j < unat i + n then blank else fst (view s) ! j) [0..<2000], snd (view s)) \<and>
    con_frame s (blank_cells i n s) \<and> crt_pos (blank_cells i n s) = crt_pos s \<and> addr_6845 (blank_cells i n s) = addr_6845 s"
proof (induction i n s rule: blank_cells.induct)
  case (1 i s)
  have "fst (view s) = map (\<lambda>j. if unat i \<le> j \<and> j < unat i + 0 then blank else fst (view s) ! j) [0..<2000]"
    by (intro nth_equalityI) (auto simp: view_def)
  then show ?case by (simp add: con_frame_refl prod_eq_iff del: add_0_right)
next
  case (2 i n s)
  have i: "unat i < 2000" "unat (i + 1) = unat i + 1" using "2.prems" by (simp_all add: unat_word_ariths)
  let ?s = "put_cell i (0x0700 OR 32) s"
  note p = put_cell_view [OF i(1), where v = "0x0700 OR 32" and s = s]
  have IH: "view (blank_cells (i + 1) n ?s) = (map (\<lambda>j. if unat i + 1 \<le> j \<and> j < unat i + 1 + n then blank else fst (view ?s) ! j) [0..<2000], snd (view ?s))"
    "con_frame ?s (blank_cells (i + 1) n ?s)" "crt_pos (blank_cells (i + 1) n ?s) = crt_pos ?s"
    "addr_6845 (blank_cells (i + 1) n ?s) = addr_6845 ?s"
    using "2.IH" "2.prems" unfolding i(2) by simp_all
  have "length (fst (view s)) = 2000" by (simp add: view_def)
  then have "map (\<lambda>j. if unat i + 1 \<le> j \<and> j < unat i + 1 + n then blank else fst (view ?s) ! j) [0..<2000]
      = map (\<lambda>j. if unat i \<le> j \<and> j < unat i + Suc n then blank else fst (view s) ! j) [0..<2000]"
    unfolding p(1) by (auto simp: nth_list_update blank_def)
  then show ?case using IH p con_frame_trans [OF p(3) IH(2)] by (simp add: put_cell_def)
qed

lemma crt_consts: "unat CRT_COLS = 80" "unat CRT_SIZE = 2000" "unat (CRT_SIZE - CRT_COLS) = 1920"
  "2 * ucast CRT_COLS = (160 :: u32)" "ucast (CRT_SIZE - CRT_COLS) * 2 = (3840 :: u32)"
  by (simp_all add: CRT_COLS_def CRT_SIZE_def CRT_ROWS_def)

text \<open>The move of the text lines one up.\<close>

lemma move_lines:
  assumes "unat b + 4000 < 2 ^ 32"
  shows "i < 1920 \<Longrightarrow> ld16 (memmove m b (b + 160) 3840) (off b (2 * i)) = ld16 m (off b (2 * (i + 80)))"
    "4000 \<le> unat (a - b) \<Longrightarrow> memmove m b (b + 160) 3840 a = m a"
proof -
  have mm: "memmove m b (b + 160) 3840 a = (if unat (a - b) < 3840 then m (b + 160 + (a - b)) else m a)" for a
  proof -
    have "unat (b + 160) = unat b + 160" using assms by (simp add: unat_word_ariths)
    then show ?thesis using memmove_apply [of "b + 160" 3840 b m a] assms by simp
  qed
  then show "4000 \<le> unat (a - b) \<Longrightarrow> memmove m b (b + 160) 3840 a = m a" by simp
  have "memmove m b (b + 160) 3840 (off b x) = m (off b (x + 160))" if "x < 3840" for x
  proof -
    have "unat (off b x - b) = x" using that by (intro off_diff) simp
    then have "memmove m b (b + 160) 3840 (off b x) = m (b + 160 + (off b x - b))" using that mm by simp
    also have "b + 160 + (off b x - b) = off b (x + 160)" by (simp add: off_def add_ac)
    finally show ?thesis .
  qed
  then show "ld16 (memmove m b (b + 160) 3840) (off b (2 * i)) = ld16 m (off b (2 * (i + 80)))" if "i < 1920"
    using that unfolding cell_bytes by (simp add: add.commute)
qed

lemma scroll_view:
  assumes ok: "unat (crt_buf s) + 4000 < 2 ^ 32" and pos: "unat (crt_pos s) < 2080"
  shows "view (scroll s) = scr_scroll (view s)" "con_frame s (scroll s)" "con_ok (scroll s)"
    "addr_6845 (scroll s) = addr_6845 s"
proof -
  let ?m = "memmove (con_mem s) (crt_buf s) (crt_buf s + 160) 3840"
  let ?s = "s\<lparr>con_mem := ?m\<rparr>" and ?b = "blank_cells (CRT_SIZE - CRT_COLS) 80 (s\<lparr>con_mem := ?m\<rparr>)"
  have c: "CRT_SIZE \<le> crt_pos s \<longleftrightarrow> 2000 \<le> unat (crt_pos s)" by (simp add: word_le_nat_alt crt_consts)
  have bl: "view ?b = (map (\<lambda>j. if 1920 \<le> j \<and> j < 2000 then blank else fst (view ?s) ! j) [0..<2000], snd (view ?s))"
    "con_frame ?s ?b" "crt_pos ?b = crt_pos s" "addr_6845 ?b = addr_6845 s"
    using blank_cells_view [of "CRT_SIZE - CRT_COLS" 80 ?s] by (simp_all add: crt_consts)
  have cells: "fst (view ?b) = drop 80 (fst (view s)) @ replicate 80 blank"
  proof (rule nth_equalityI)
    show "length (fst (view ?b)) = length (drop 80 (fst (view s)) @ replicate 80 blank)" by (simp add: bl(1) view_def)
    fix i assume "i < length (fst (view ?b))"
    then have i: "i < 2000" by (simp add: bl(1))
    have "fst (view ?b) ! i = (if 1920 \<le> i then blank else fst (view ?s) ! i)"
      using i by (simp add: bl(1))
    then show "fst (view ?b) ! i = (drop 80 (fst (view s)) @ replicate 80 blank) ! i"
      using i move_lines(1) [OF ok, of i "con_mem s"] by (auto simp: view_def nth_append add.commute)
  qed
  show "view (scroll s) = scr_scroll (view s)"
  proof (cases "2000 \<le> unat (crt_pos s)")
    case True
    then have u: "unat (crt_pos s - CRT_COLS) = unat (crt_pos s) - 80"
      by (subst unat_sub) (simp_all add: word_le_nat_alt crt_consts)
    have "scroll s = ?b\<lparr>crt_pos := crt_pos s - CRT_COLS\<rparr>"
      using True c bl(3) by (simp add: scroll_def Let_def crt_consts)
    then have "view (scroll s) = (fst (view ?b), unat (crt_pos s - CRT_COLS))" by (simp add: view_def)
    moreover have "snd (view s) = unat (crt_pos s)" by (simp add: view_def)
    ultimately show ?thesis using True cells u by (simp add: scr_scroll_def split_beta)
  next
    case False
    then show ?thesis using c by (simp add: scroll_def scr_scroll_def view_def)
  qed
  have m: "con_frame s ?s" using move_lines(2) [OF ok] by (simp add: con_frame_def)
  show "con_frame s (scroll s)"
    using con_frame_trans [OF m bl(2)] con_frame_refl [of s]
    by (auto simp: scroll_def Let_def crt_consts con_frame_def)
  then have "crt_buf (scroll s) = crt_buf s" by (simp add: con_frame_def)
  moreover have "unat (crt_pos (scroll s)) < 2000"
    using \<open>view (scroll s) = scr_scroll (view s)\<close> pos by (auto simp: view_def scr_scroll_def split: if_splits)
  ultimately show "con_ok (scroll s)" using ok by (simp add: con_ok_def)
  show "addr_6845 (scroll s) = addr_6845 s" using bl(4) by (simp add: scroll_def Let_def crt_consts)
qed

section \<open>Characters\<close>

lemma view_snd: "snd (view s) = unat (crt_pos s)"
  by (simp add: view_def)

lemma view_len: "length (fst (view s)) = 2000"
  by (simp add: view_def)

lemma view_pos: "view (s\<lparr>crt_pos := p\<rparr>) = (fst (view s), unat p)"
  by (simp add: view_def)

lemma line_start: "unat (p - p mod CRT_COLS) = unat p div 80 * 80"
proof -
  have "p mod CRT_COLS \<le> p" by (simp add: word_le_nat_alt unat_mod)
  then have "unat (p - p mod CRT_COLS) = unat p - unat p mod 80"
    by (simp add: unat_sub unat_mod crt_consts)
  then show ?thesis by (simp add: minus_mod_eq_div_mult)
qed

lemma cga_switch_view:
  assumes ok: "con_ok s" and c: "c AND 0xff \<noteq> 9"
  shows "view (scroll (cga_switch c s)) = scr_char c (view s) \<and> con_frame s (scroll (cga_switch c s)) \<and>
    con_ok (scroll (cga_switch c s))"
proof -
  have b: "unat (crt_buf s) + 4000 < 2 ^ 32" and p: "unat (crt_pos s) < 2000" using ok by (simp_all add: con_ok_def)
  let ?pos = "unat (crt_pos s)"
  have main: "view (scroll t) = scr_scroll (view t) \<and> con_frame s (scroll t) \<and> con_ok (scroll t)"
    if "con_frame s t" "unat (crt_pos t) < 2080" for t
  proof -
    have t: "unat (crt_buf t) + 4000 < 2 ^ 32" using that(1) b by (simp add: con_frame_def)
    show ?thesis using scroll_view [OF t that(2)] con_frame_trans [OF that(1)] by blast
  qed
  have up: "unat (crt_pos s + 1) = ?pos + 1" "unat (crt_pos s + CRT_COLS) = ?pos + 80"
    using p by (simp_all add: unat_word_ariths crt_consts)
  consider (bs) "c AND 0xff = 8" | (nl) "c AND 0xff = 10" | (cr) "c AND 0xff = 13"
    | (ch) "c AND 0xff \<noteq> 8" "c AND 0xff \<noteq> 10" "c AND 0xff \<noteq> 13" by blast
  then show ?thesis
  proof cases
    case bs
    show ?thesis
    proof (cases "crt_pos s > 0")
      case True
      then have nz: "0 < ?pos" by (simp add: word_less_nat_alt)
      then have d: "unat (crt_pos s - 1) = ?pos - 1" using True by (simp add: unat_minus_one word_gt_0)
      let ?t = "put_cell (crt_pos s - 1) (ucast (c AND NOT 0xff OR 32)) (s\<lparr>crt_pos := crt_pos s - 1\<rparr>)"
      have lt: "unat (crt_pos s - 1) < 2000" using d p by simp
      note pc = put_cell_view [OF lt, where v = "ucast (c AND NOT 0xff OR 32)" and s = "s\<lparr>crt_pos := crt_pos s - 1\<rparr>"]
      have "con_frame s ?t" using pc(3) by (simp add: con_frame_def)
      moreover have "unat (crt_pos ?t) < 2080" using lt by (simp add: put_cell_def)
      ultimately have "view (scroll ?t) = scr_scroll (view ?t) \<and> con_frame s (scroll ?t) \<and> con_ok (scroll ?t)"
        by (rule main)
      moreover have "view ?t = ((fst (view s))[?pos - 1 := ucast (c AND NOT 0xff OR 32)], ?pos - 1)"
        using pc(1,2) by (simp add: prod_eq_iff view_pos d)
      moreover have "cga_switch c s = ?t" using bs True by (simp add: cga_switch_def)
      ultimately show ?thesis using bs nz by (simp add: scr_char_def split_beta view_snd)
    next
      case False
      then have z: "?pos = 0" by (simp add: word_less_nat_alt)
      have "cga_switch c s = s" using bs False by (simp add: cga_switch_def)
      moreover have vs: "view s = (fst (view s), 0)" using z by (simp add: prod_eq_iff view_snd)
      have "scr_char c (fst (view s), 0) = scr_scroll (fst (view s), 0)" using bs by (simp add: scr_char_def)
      then have "scr_char c (view s) = scr_scroll (view s)" using vs by metis
      ultimately show ?thesis using main [OF con_frame_refl] p by simp
    qed
  next
    case nl
    let ?t = "s\<lparr>crt_pos := crt_pos s + CRT_COLS - (crt_pos s + CRT_COLS) mod CRT_COLS\<rparr>"
    have d: "unat (crt_pos s + CRT_COLS - (crt_pos s + CRT_COLS) mod CRT_COLS) = (?pos + 80) div 80 * 80"
      by (simp only: line_start up)
    moreover have "(?pos + 80) div 80 * 80 \<le> ?pos + 80" by (rule div_times_less_eq_dividend)
    ultimately have "unat (crt_pos ?t) < 2080" using p by simp
    then have "view (scroll ?t) = scr_scroll (view ?t) \<and> con_frame s (scroll ?t) \<and> con_ok (scroll ?t)"
      by (intro main) (simp_all add: con_frame_def)
    moreover have "cga_switch c s = ?t" using nl by (simp add: cga_switch_def Let_def)
    moreover have "scr_char c (view s) = scr_scroll (view ?t)"
      using nl d by (simp add: scr_char_def split_beta view_snd view_pos)
    ultimately show ?thesis by simp
  next
    case cr
    let ?t = "s\<lparr>crt_pos := crt_pos s - crt_pos s mod CRT_COLS\<rparr>"
    have "?pos div 80 * 80 \<le> ?pos" by (rule div_times_less_eq_dividend)
    then have "unat (crt_pos ?t) < 2080" using p by (simp add: line_start)
    then have "view (scroll ?t) = scr_scroll (view ?t) \<and> con_frame s (scroll ?t) \<and> con_ok (scroll ?t)"
      by (intro main) (simp_all add: con_frame_def)
    moreover have "cga_switch c s = ?t" using cr by (simp add: cga_switch_def)
    moreover have "scr_char c (view s) = scr_scroll (view ?t)"
      using cr by (simp add: scr_char_def split_beta view_snd view_pos line_start)
    ultimately show ?thesis by simp
  next
    case ch
    let ?t = "put_cell (crt_pos s) (ucast c) (s\<lparr>crt_pos := crt_pos s + 1\<rparr>)"
    note pc = put_cell_view [OF p, where v = "ucast c" and s = "s\<lparr>crt_pos := crt_pos s + 1\<rparr>"]
    have "con_frame s ?t" using pc(3) by (simp add: con_frame_def)
    moreover have "unat (crt_pos ?t) < 2080" using up p by (simp add: put_cell_def)
    ultimately have "view (scroll ?t) = scr_scroll (view ?t) \<and> con_frame s (scroll ?t) \<and> con_ok (scroll ?t)"
      by (rule main)
    moreover have "view ?t = ((fst (view s))[?pos := ucast c], ?pos + 1)"
      using pc(1,2) by (simp add: prod_eq_iff view_pos up)
    moreover have "cga_switch c s = ?t" using ch by (simp add: cga_switch_def)
    ultimately show ?thesis using ch by (simp add: scr_char_def split_beta view_snd)
  qed
qed

section \<open>The ports leave the screen alone\<close>

definition same_screen :: "'d console \<Rightarrow> 'd console \<Rightarrow> bool" where
  "same_screen s s' \<longleftrightarrow> con_mem s' = con_mem s \<and> crt_buf s' = crt_buf s \<and> crt_pos s' = crt_pos s"

lemma same_screenD: "same_screen s s' \<Longrightarrow> view s' = view s \<and> con_ok s' = con_ok s \<and> con_frame s s'"
  by (simp add: same_screen_def view_def con_ok_def con_frame_def)

lemma same_screen_out: "same_screen s (con_out io p v s')" if "same_screen s s'"
  using that by (simp add: same_screen_def con_out_def)

lemma same_screen_in: "same_screen s (snd (con_in io p s'))" if "same_screen s s'"
  using that by (simp add: same_screen_def con_in_def split_beta)

lemma same_screen_refl: "same_screen s s"
  by (simp add: same_screen_def)

lemma same_screen_delay: "same_screen s s' \<Longrightarrow> same_screen s (delay io s')"
  by (simp add: delay_def split_beta same_screen_in)

lemma same_screen_wait: "same_screen s s' \<Longrightarrow> same_screen s (wait_ready io p msk k s')"
proof (induction k arbitrary: s')
  case 0
  then show ?case by (subst wait_ready.simps) (simp add: split_beta same_screen_in)
next
  case (Suc k)
  then show ?case
    using Suc.IH [of "delay io (snd (con_in io p s'))"]
    by (subst wait_ready.simps) (simp add: split_beta same_screen_in same_screen_delay)
qed

lemma same_screen_ports: "same_screen s (lpt_putc io c (serial_putc io c s))"
  by (simp add: lpt_putc_def serial_putc_def Let_def same_screen_out same_screen_wait same_screen_refl)

lemma same_screen_cursor: "same_screen s (move_cursor io s)"
  by (simp add: move_cursor_def Let_def same_screen_out same_screen_refl)

section \<open>cga_putc and cons_putc\<close>

definition shows_as :: "'d console \<Rightarrow> 'd console \<Rightarrow> screen \<Rightarrow> bool" where
  "shows_as s s' v \<longleftrightarrow> view s' = v \<and> con_ok s' \<and> con_frame s s'"

lemma shows_as_trans: "shows_as s s' v \<Longrightarrow> shows_as s' s'' v' \<Longrightarrow> shows_as s s'' v'"
  using con_frame_trans by (auto simp: shows_as_def)

lemma shows_as_same: "con_ok s \<Longrightarrow> same_screen s s' \<Longrightarrow> shows_as s s' (view s)"
  using same_screenD [of s s'] by (simp add: shows_as_def)

lemma shows_as_cursor: "shows_as s t v \<Longrightarrow> shows_as s (move_cursor io t) v"
  using shows_as_trans [of s t v "move_cursor io t" "view t"] shows_as_same [OF _ same_screen_cursor, of t]
  by (simp add: shows_as_def)

lemma cga_putc_char:
  assumes "con_ok s" "c AND 0xff \<noteq> 9"
  shows "shows_as s (cga_putc io c s) (screen_put c (view s))"
proof -
  have "with_attr c AND 0xff \<noteq> 9" using assms(2) by (simp add: with_attr_low)
  from cga_switch_view [OF assms(1) this]
  have "shows_as s (scroll (cga_switch (with_attr c) s)) (scr_char (with_attr c) (view s))"
    by (simp add: shows_as_def)
  then have "shows_as s (move_cursor io (scroll (cga_switch (with_attr c) s))) (scr_char (with_attr c) (view s))"
    by (rule shows_as_cursor)
  then show ?thesis using assms(2) by (simp add: cga_putc.simps with_attr_low screen_put_def)
qed

lemma cons_putc_from:
  assumes "\<And>s. con_ok s \<Longrightarrow> shows_as s (cga_putc io c s) (screen_put c (view s))" "con_ok s"
  shows "shows_as s (cons_putc io c s) (screen_put c (view s))"
proof -
  let ?t = "lpt_putc io c (serial_putc io c s)"
  have t: "shows_as s ?t (view s)" by (rule shows_as_same [OF assms(2) same_screen_ports])
  then have "shows_as ?t (cga_putc io c ?t) (screen_put c (view s))"
    using assms(1) [of ?t] by (simp add: shows_as_def)
  then show ?thesis using shows_as_trans [OF t] by (simp add: cons_putc.simps)
qed

lemma cga_putc_view:
  assumes "con_ok s"
  shows "shows_as s (cga_putc io c s) (screen_put c (view s))"
proof (cases "c AND 0xff = 9")
  case False
  then show ?thesis using cga_putc_char assms by blast
next
  case True
  have sp: "shows_as s (cons_putc io 32 s) (scr_char (with_attr 32) (view s))" if "con_ok s" for s
    using cons_putc_from [of io 32 s, OF cga_putc_char] that by (simp add: screen_put_def)
  have n: "shows_as s ((cons_putc io 32 ^^ n) s) ((scr_char (with_attr 32) ^^ n) (view s))" for n
  proof (induction n)
    case 0
    then show ?case using assms shows_as_same same_screen_refl by fastforce
  next
    case (Suc n)
    then have "con_ok ((cons_putc io 32 ^^ n) s)" by (simp add: shows_as_def)
    from shows_as_trans [OF Suc sp [OF this]] show ?case using Suc by (simp add: shows_as_def)
  qed
  let ?t = "(cons_putc io 32 ^^ 5) s"
  have t: "con_ok ?t" using n [of 5] by (simp add: shows_as_def)
  then have "crt_pos ?t < CRT_SIZE" by (simp add: con_ok_def word_less_nat_alt crt_consts)
  then have "scroll ?t = ?t" by (simp add: scroll_def not_le)
  moreover have "shows_as s (move_cursor io ?t) ((scr_char (with_attr 32) ^^ 5) (view s))"
    by (rule shows_as_cursor [OF n])
  moreover have "cga_putc io c s = move_cursor io (scroll ?t)"
    using True by (simp add: cga_putc.simps with_attr_low eval_nat_numeral)
  ultimately show ?thesis using True by (simp add: screen_put_def)
qed

lemma cputchar_view: "con_ok s \<Longrightarrow> shows_as s (cputchar io c s) (screen_put c (view s))"
  unfolding cputchar_def by (rule cons_putc_from [OF cga_putc_view])

end
