(* ===== verification/Format.thy ===== *)
theory Format
  imports Printfmt
begin

text \<open>
  What the formatter prints. \<open>printnum\<close> prints the padded digits of its number; the output of
  \<open>vprintfmt\<close> does not depend on the output routine, so it is the list \<open>format\<close>; every call ends.
\<close>

section \<open>Digits\<close>

function digits :: "nat \<Rightarrow> nat \<Rightarrow> nat list" where
  "digits b n = (if n < b \<or> b < 2 then [n] else digits b (n div b) @ [n mod b])"
  by pat_completeness auto
termination
  by (relation "measure snd") auto

declare digits.simps [simp del]

text \<open>The number a list of digits stands for.\<close>

definition digits_value :: "nat \<Rightarrow> nat list \<Rightarrow> nat" where
  "digits_value b ds = foldl (\<lambda>v d. v * b + d) 0 ds"

lemma digits_value_digits: "digits_value b (digits b n) = n"
proof (induction b n rule: digits.induct)
  case (1 b n)
  then show ?case
    by (subst digits.simps) (auto simp: digits_value_def)
qed

lemma digits_less: "2 \<le> b \<Longrightarrow> d \<in> set (digits b n) \<Longrightarrow> d < b"
proof (induction b n arbitrary: d rule: digits.induct)
  case (1 b n)
  from "1.prems"(2) show ?case
    using "1.IH" "1.prems"(1) by (subst (asm) digits.simps) (auto split: if_splits)
qed

lemma digits_Nil: "digits b n \<noteq> []"
  by (subst digits.simps) simp

definition digit_chr :: "nat \<Rightarrow> u32" where
  "digit_chr d = ucast (hex_digits ! d)"

text \<open>The characters \<open>printnum\<close> outputs.\<close>

definition number_chars :: "nat \<Rightarrow> nat \<Rightarrow> int \<Rightarrow> u32 \<Rightarrow> u32 list" where
  "number_chars b n w pc =
     replicate (nat (w - int (length (digits b n)))) pc @ map digit_chr (digits b n)"

lemma put_n_fold: "put_n putch c k s = fold putch (replicate k c) s"
  by (induction k arbitrary: s) simp_all

lemma printnum_fold:
  assumes b: "2 \<le> unat base"
  shows "printnum putch num base w pc s = Some (fold putch (number_chars (unat base) (unat num) w pc) s)"
proof (induction "unat num" arbitrary: num w rule: less_induct)
  case less
  have ub: "unat (ucast base :: u64) = unat base"
    using unat32_bound [of base] by (simp add: unsigned_ucast_eq take_bit_nat_eq_self)
  show ?case
  proof (cases "unat num < unat base")
    case True
    then have "digits (unat base) (unat num) = [unat num]" by (simp add: digits.simps)
    moreover have "\<not> ucast base \<le> num" "unat (num mod ucast base) = unat num"
      using True ub by (simp_all add: word_le_nat_alt unat_mod)
    ultimately show ?thesis
      by (subst printnum.simps) (simp add: put_n_fold number_chars_def digit_chr_def)
  next
    case False
    then have c: "ucast base \<le> num" using ub by (simp add: word_le_nat_alt)
    have d: "unat (num div ucast base) = unat num div unat base" "unat (num mod ucast base) = unat num mod unat base"
      by (simp_all add: unat_div unat_mod ub)
    have "unat num div unat base < unat num" using False b by simp
    then have IH: "printnum putch (num div ucast base) base (w - 1) pc s =
        Some (fold putch (number_chars (unat base) (unat num div unat base) (w - 1) pc) s)"
      using less [of "num div ucast base"] d by simp
    have "digits (unat base) (unat num) = digits (unat base) (unat num div unat base) @ [unat num mod unat base]"
      using False b by (subst digits.simps) simp
    then show ?thesis
      using c IH d by (subst printnum.simps) (simp add: number_chars_def digit_chr_def diff_diff_eq add.commute)
  qed
qed

section \<open>The output does not depend on the output routine\<close>

text \<open>An output routine that another one follows, through a map \<open>h\<close> of their states.\<close>

locale output_map =
  fixes put :: "u32 \<Rightarrow> 's \<Rightarrow> 's"
    and put' :: "u32 \<Rightarrow> 't \<Rightarrow> 't"
    and h :: "'s \<Rightarrow> 't"
  assumes h_put: "h (put c s) = put' c (h s)"
begin

lemma h_fold: "fold put' cs (h s) = h (fold put cs s)"
  by (induction cs arbitrary: s) (simp_all add: h_put [symmetric])

lemma h_put_n: "put_n put' c k (h s) = h (put_n put c k s)"
  by (induction k arbitrary: s) (simp_all add: h_put [symmetric])

lemma h_put_str: "put_str put' alt p prec w (h s) = apsnd h (put_str put alt p prec w s)"
  by (induction p arbitrary: prec w s) (auto simp: Let_def h_put [symmetric])

lemma h_conv_s: "conv_s put' sp p (h s) = h (conv_s put sp p s)"
proof -
  have "put_str put' alt q prec w (h s) = (fst (put_str put alt q prec w s), h (snd (put_str put alt q prec w s)))"
    for alt q prec w s
    by (simp add: h_put_str prod_eq_iff)
  then show ?thesis
    by (simp add: conv_s_def Let_def h_put_n split_beta)
qed

lemma h_number: "2 \<le> unat base \<Longrightarrow> number put' num base sp ap (h s) = map_sum id (apsnd h) (number put num base sp ap s)"
  by (simp add: number_def printnum_fold h_fold)

lemma h_convert:
  assumes e: "\<And>w s. conv' w (h s) = map_sum id h (conv w s)"
  shows "convert conv' put' ch ap sp (h s) = map_option (map_sum id (apsnd h)) (convert conv put ch ap sp s)"
proof -
  have m: "map_sum id g (bindR r f) = bindR r (\<lambda>x. map_sum id g (f x))" for g and r :: "'x result" and f :: "'x \<Rightarrow> 'y result"
    by (cases r) simp_all
  have n: "bindR (map_sum id h r) f = bindR r (\<lambda>x. f (h x))" for r and f :: "'t \<Rightarrow> 'y result"
    by (cases r) simp_all
  show ?thesis
    by (simp add: convert_def m n e h_put [symmetric] h_number h_conv_s case_prod_unfold
        if_distrib [of "map_sum id (apsnd h)"] cong: if_cong)
qed

lemma h_vprintfmt_loop:
  assumes e: "\<And>w s. conv' w (h s) = map_sum id h (conv w s)"
  shows "vprintfmt_loop conv' put' fmt pos ap (h s) = map_sum id h (vprintfmt_loop conv put fmt pos ap s)"
proof (induction "length fmt - pos" arbitrary: pos ap s rule: less_induct)
  case less
  note L = vprintfmt_loop.simps [of _ _ fmt pos ap]
  show ?case
  proof (cases "fmt_at fmt pos = 37")
    case False
    then show ?thesis
      using less [of "pos + 1" ap "put (ucast (fmt_at fmt pos)) s"] fmt_at_less [of fmt pos]
      by (auto simp: L h_put Let_def)
  next
    case True
    then have pos: "pos < length fmt" using fmt_at_less [of fmt pos] by simp
    show ?thesis
    proof (cases "reswitch fmt (pos + 1) ap spec0")
      case (Inl f)
      then show ?thesis using True by (simp add: L)
    next
      case (Inr r)
      obtain ch pos' ap' sp where r: "r = (ch, pos', ap', sp)" by (cases r)
      have p: "pos + 1 < pos'" using reswitch_pos Inr r by blast
      then have q: "pos < back_to_percent fmt (pos' - 1)"
        using back_to_percent_ge [OF True, of "pos' - 1"] by simp
      show ?thesis
      proof (cases "convert conv put ch ap' sp s")
        case None
        then show ?thesis
          using True Inr r q pos less [of "back_to_percent fmt (pos' - 1)" ap' "put 37 s"] h_convert [of conv' conv ch ap' sp s, OF e]
          by (simp add: L h_put)
      next
        case (Some a)
        then show ?thesis
          using True Inr r p pos less [of pos'] h_convert [of conv' conv ch ap' sp s, OF e]
          by (cases a) (auto simp: L)
      qed
    qed
  qed
qed

lemma h_printfmt0: "printfmt0 put' fmt ap (h s) = map_sum id h (printfmt0 put fmt ap s)"
  unfolding printfmt0_def by (rule h_vprintfmt_loop) simp

lemma h_conv_err: "conv_err put' w (h s) = map_sum id h (conv_err put w s)"
  by (simp add: conv_err_def Let_def h_printfmt0 split: option.splits)

lemma h_vprintfmt: "vprintfmt put' fmt ap (h s) = map_sum id h (vprintfmt put fmt ap s)"
  unfolding vprintfmt_def by (rule h_vprintfmt_loop) (rule h_conv_err)

end

text \<open>The characters a call outputs, in order.\<close>

definition format :: "u8 list \<Rightarrow> va list \<Rightarrow> u32 list result" where
  "format fmt ap = vprintfmt (\<lambda>c out. out @ [c]) fmt ap []"

interpretation out: output_map "\<lambda>c out. out @ [c]" putch "\<lambda>out. fold putch out s" for putch s
  by unfold_locales simp

lemma vprintfmt_format: "vprintfmt putch fmt ap s = bindR (format fmt ap) (\<lambda>out. Inr (fold putch out s))"
proof -
  have "vprintfmt putch fmt ap (fold putch [] s) = map_sum id (\<lambda>out. fold putch out s) (format fmt ap)"
    unfolding format_def by (rule out.h_vprintfmt)
  then show ?thesis by (cases "format fmt ap") simp_all
qed

section \<open>Every call ends\<close>

definition ends :: "'a result \<Rightarrow> bool" where
  "ends r \<longleftrightarrow> r \<noteq> Inl NoReturn"

lemma ends_simps [simp]: "ends (Inr x)" "ends (Inl e) \<longleftrightarrow> e \<noteq> NoReturn"
  by (simp_all add: ends_def)

lemma ends_bindR: "ends r \<Longrightarrow> (\<And>x. ends (f x)) \<Longrightarrow> ends (bindR r f)"
  by (cases r) simp_all

lemma ends_va: "ends (va_word ap)" "ends (va_quad ap)" "ends (va_str ap)"
  by (cases ap rule: va_word.cases; simp; fail | cases ap rule: va_quad.cases; simp; fail
    | cases ap rule: va_str.cases; simp; fail)+

lemma ends_getint: "ends (getint ap l)" "ends (getuint ap l)"
  by (auto simp: getint_def getuint_def ends_va intro!: ends_bindR)

lemma ends_number: "2 \<le> unat base \<Longrightarrow> ends (number putch num base sp ap s)"
  by (simp add: number_def printnum_fold)

lemma ends_convert:
  "(\<And>w s. ends (conv w s)) \<Longrightarrow> convert conv putch ch ap sp s = Some r \<Longrightarrow> ends r"
  by (auto simp: convert_def ends_va ends_getint ends_number split: if_splits intro!: ends_bindR)

lemma ends_reswitch: "ends (reswitch fmt pos ap sp)"
proof (induction fmt pos ap sp rule: reswitch.induct)
  case (1 fmt pos ap sp)
  show ?case
    using "1.IH"(1) [OF refl] "1.IH"(2) [OF refl] "1.IH"(3) [OF refl _ _ _ refl] "1.IH"(4) [OF refl _ _ _ _ _ refl]
      "1.IH"(5) [OF refl] "1.IH"(6) [OF refl] "1.IH"(7) [OF refl] ends_va(1) [of ap]
    by (cases "width_digits fmt (pos + 1) (fmt_at fmt pos) 0")
      (auto simp: reswitch.simps [of fmt pos ap sp] Let_def split: sum.splits)
qed

lemma ends_vprintfmt_loop:
  assumes "\<And>w s. ends (conv w s)"
  shows "ends (vprintfmt_loop conv putch fmt pos ap s)"
proof (induction "length fmt - pos" arbitrary: pos ap s rule: less_induct)
  case less
  note L = vprintfmt_loop.simps [of _ _ fmt pos ap]
  show ?case
  proof (cases "fmt_at fmt pos = 37")
    case False
    then show ?thesis
      using less [of "pos + 1" ap "putch (ucast (fmt_at fmt pos)) s"] fmt_at_less [of fmt pos]
      by (auto simp: L Let_def)
  next
    case True
    then have pos: "pos < length fmt" using fmt_at_less [of fmt pos] by simp
    show ?thesis
    proof (cases "reswitch fmt (pos + 1) ap spec0")
      case (Inl f)
      then show ?thesis using True ends_reswitch [of fmt "pos + 1" ap spec0] by (simp add: L)
    next
      case (Inr r)
      obtain ch pos' ap' sp where r: "r = (ch, pos', ap', sp)" by (cases r)
      have p: "pos + 1 < pos'" using reswitch_pos Inr r by blast
      then have q: "pos < back_to_percent fmt (pos' - 1)"
        using back_to_percent_ge [OF True, of "pos' - 1"] by simp
      show ?thesis
        using True Inr r p q pos less [of "back_to_percent fmt (pos' - 1)" ap'] less [of pos']
          ends_convert [of conv putch ch ap' sp s, OF assms]
        by (auto simp: L split: option.splits sum.splits)
    qed
  qed
qed

lemma ends_vprintfmt: "ends (vprintfmt putch fmt ap s)"
proof -
  have "ends (printfmt0 putch fmt ap s)" for fmt ap s
    unfolding printfmt0_def by (rule ends_vprintfmt_loop) simp
  then have "ends (conv_err putch w s)" for w s
    by (auto simp: conv_err_def Let_def split: option.splits)
  then show ?thesis unfolding vprintfmt_def by (rule ends_vprintfmt_loop)
qed

end
