(* ===== verification/Snprintf.thy ===== *)
theory Snprintf
  imports Format Cstring
begin

text \<open>
  \<open>vsnprintf\<close> against its contract: what it writes where, and the round trip of numbers through
  \<open>snprintf\<close> and \<open>strtol\<close>.
\<close>

lemma fold_snoc [simp]: "fold (\<lambda>c out. out @ [c]) cs xs = xs @ cs"
  by (induction cs arbitrary: xs) simp_all

section \<open>The buffer\<close>

text \<open>The buffer state after the characters \<open>out\<close>, for a buffer of \<open>k\<close> bytes before the last.\<close>

definition sb_after :: "u32 \<Rightarrow> nat \<Rightarrow> memory \<Rightarrow> u32 list \<Rightarrow> sprintbuf" where
  "sb_after bf k m out = \<lparr>buf = bf + word_of_nat (min (length out) k), ebuf = bf + word_of_nat k,
     cnt = word_of_nat (length out),
     sb_mem = (\<lambda>a. if unat (a - bf) < min (length out) k then ucast (out ! unat (a - bf)) else m a)\<rparr>"

lemma unat_add_of_nat: "unat (bf :: u32) + k < 2 ^ 32 \<Longrightarrow> unat (bf + word_of_nat k) = unat bf + k"
  by (simp add: unat_word_ariths unsigned_of_nat take_bit_nat_eq_self)

lemma sprintputch_after:
  assumes "unat bf + k < 2 ^ 32"
  shows "sprintputch c (sb_after bf k m out) = sb_after bf k m (out @ [c])"
proof (cases "length out < k")
  case True
  then have lt: "bf + word_of_nat (length out) < bf + word_of_nat k"
    using assms by (simp add: word_less_nat_alt unat_add_of_nat)
  have "a = bf + word_of_nat (length out) \<longleftrightarrow> unat (a - bf) = length out" for a
  proof
    assume "a = bf + word_of_nat (length out)"
    then show "unat (a - bf) = length out" using assms True by (simp add: unat_of_nat32)
  next
    assume "unat (a - bf) = length out"
    then show "a = bf + word_of_nat (length out)" by (rule unat_diff_eq)
  qed
  with True lt show ?thesis
    by (auto simp: sprintputch_def sb_after_def Let_def nth_append less_Suc_eq fun_eq_iff)
next
  case False
  then show ?thesis
    by (auto simp: sprintputch_def sb_after_def Let_def nth_append fun_eq_iff)
qed

lemma fold_sprintputch:
  "unat bf + k < 2 ^ 32 \<Longrightarrow> fold sprintputch out (sb_after bf k m []) = sb_after bf k m out"
  by (induction out rule: rev_induct) (simp_all add: sprintputch_after)

text \<open>Memory after a call that formats \<open>out\<close> into a buffer of \<open>n\<close> bytes.\<close>

definition printed :: "u32 \<Rightarrow> nat \<Rightarrow> u32 list \<Rightarrow> memory \<Rightarrow> memory" where
  "printed bf n out m = (\<lambda>a.
     if unat (a - bf) < min (length out) (n - 1) then ucast (out ! unat (a - bf))
     else if unat (a - bf) = min (length out) (n - 1) then 0
     else m a)"

lemma snprintf_printed:
  assumes "bf \<noteq> 0" "0 < unat n" "unat n < 2 ^ 31" "unat bf + unat n \<le> 2 ^ 32" "format fmt ap = Inr out"
  shows "snprintf bf n fmt ap m = Inr (word_of_nat (length out), printed bf (unat n) out m)"
proof -
  let ?k = "unat n - 1"
  have k: "unat bf + ?k < 2 ^ 32" using assms(2,4) by simp
  have n: "bf + n - 1 = bf + word_of_nat ?k"
    using assms(2) by (simp add: of_nat_diff)
  have "sint n = int (unat n)" using assms(3) by (rule sint_small)
  then have s: "\<not> sint n < 1" using assms(2) by linarith
  have b0: "\<lparr>buf = bf, ebuf = bf + n - 1, cnt = 0, sb_mem = m\<rparr> = sb_after bf ?k m []"
    unfolding n by (simp add: sb_after_def)
  have "vprintfmt sprintputch fmt ap (sb_after bf ?k m []) = Inr (sb_after bf ?k m out)"
    using assms(5) fold_sprintputch [OF k] by (simp add: vprintfmt_format)
  then have "snprintf bf n fmt ap m = Inr (cnt (sb_after bf ?k m out),
      (sb_mem (sb_after bf ?k m out))(buf (sb_after bf ?k m out) := 0))"
    using assms(1) s by (simp only: snprintf_def vsnprintf_def Let_def b0 simp_thms if_False bindR_simps)
  moreover have "a = bf + word_of_nat j \<longleftrightarrow> unat (a - bf) = j" if "j \<le> ?k" for a j
  proof
    have "j < 2 ^ 32" using that k by simp
    then show "unat (a - bf) = j" if "a = bf + word_of_nat j" using that by (simp add: unat_of_nat32)
    show "unat (a - bf) = j \<Longrightarrow> a = bf + word_of_nat j" by (rule unat_diff_eq)
  qed
  from this [of "min (length out) ?k"]
  have "(sb_mem (sb_after bf ?k m out))(buf (sb_after bf ?k m out) := 0) = printed bf (unat n) out m"
    by (auto simp: sb_after_def printed_def fun_eq_iff)
  ultimately show ?thesis by (simp add: sb_after_def)
qed

lemma cstr_nth:
  "cstr m p xs \<longleftrightarrow> (\<forall>i<length xs. m (p + word_of_nat i) = xs ! i \<and> xs ! i \<noteq> 0) \<and> m (p + word_of_nat (length xs)) = 0"
proof (induction m p xs rule: cstr.induct)
  case (2 m p x xs)
  have "(\<forall>i<Suc (length xs). Q i) \<longleftrightarrow> Q 0 \<and> (\<forall>i<length xs. Q (Suc i))" for Q
    using less_Suc_eq_0_disj by auto
  then show ?case using 2 by (simp add: add.assoc)
qed simp

text \<open>What was printed, read as a C string: the output cut to the buffer.\<close>

lemma printed_cstr:
  assumes "0 < n" "unat bf + n \<le> 2 ^ 32" "\<forall>c\<in>set out. (ucast c :: u8) \<noteq> 0"
  shows "cstr (printed bf n out m) bf (map ucast (take (n - 1) out))"
proof -
  let ?k = "min (length out) (n - 1)"
  have u: "unat (bf + word_of_nat i - bf) = i" if "i \<le> ?k" for i
  proof -
    have "i < n" using that assms(1) by linarith
    then have "i < 2 ^ 32" using assms(2) by linarith
    then show ?thesis by (simp only: add_diff_cancel_left' unat_of_nat32)
  qed
  have l: "length (map ucast (take (n - 1) out) :: u8 list) = ?k" by simp
  have "printed bf n out m (bf + word_of_nat i) = map ucast (take (n - 1) out) ! i \<and>
      (map ucast (take (n - 1) out) ! i :: u8) \<noteq> 0" if "i < ?k" for i
  proof -
    have "printed bf n out m (bf + word_of_nat i) = ucast (out ! i)"
      using that u [of i] by (simp only: printed_def less_imp_le if_True)
    moreover have "(map ucast (take (n - 1) out) ! i :: u8) = ucast (out ! i)" "out ! i \<in> set out"
      using that by simp_all
    ultimately show ?thesis using assms(3) by simp
  qed
  moreover have "printed bf n out m (bf + word_of_nat ?k) = 0"
    using u [OF order_refl] by (simp only: printed_def less_irrefl if_False if_True simp_thms)
  ultimately show ?thesis unfolding cstr_nth l by blast
qed

section \<open>Numbers through snprintf and strtol\<close>

text \<open>Reading digits back.\<close>

lemma digit_value_chr: "d < 16 \<Longrightarrow> digit_value (ucast (digit_chr d)) = Some (word_of_nat d)"
proof -
  have "\<forall>d\<in>set [0..<16]. digit_value (ucast (digit_chr d)) = Some (word_of_nat d)"
    by (simp add: upt_rec digit_chr_def hex_digits_def digit_value_def)
  then show "d < 16 \<Longrightarrow> ?thesis" by simp
qed

lemma strtol_digits_read:
  assumes b: "2 \<le> b" "b \<le> 16" and z: "digit_value (m (p + word_of_nat (length ds))) = None"
    and ds: "\<forall>i<length ds. m (p + word_of_nat i) = ucast (digit_chr (ds ! i)) \<and> ds ! i < b"
  shows "strtol_digits m p (word_of_nat b) v =
    Some (foldl (\<lambda>v d. v * word_of_nat b + word_of_nat d) v ds, p + word_of_nat (length ds))"
  using z ds
proof (induction ds arbitrary: p v)
  case Nil
  then show ?case by (subst strtol_digits.simps) simp
next
  case (Cons d ds)
  have d: "m p = ucast (digit_chr d)" "d < b" using Cons.prems(2) [rule_format, of 0] by simp_all
  have i: "m (p + 1 + word_of_nat i) = ucast (digit_chr (ds ! i)) \<and> ds ! i < b" if "i < length ds" for i
    using Cons.prems(2) [rule_format, of "Suc i"] that by (simp add: add.assoc)
  have "sint (word_of_nat d :: u32) = int d" "sint (word_of_nat b :: u32) = int b"
    using d(2) b by (simp_all add: sint_small unat_of_nat32)
  then have "strtol_digits m p (word_of_nat b) v = strtol_digits m (p + 1) (word_of_nat b) (v * word_of_nat b + word_of_nat d)"
    using d b digit_value_chr [of d] by (subst strtol_digits.simps) simp
  also have "\<dots> = Some (foldl (\<lambda>v d. v * word_of_nat b + word_of_nat d) (v * word_of_nat b + word_of_nat d) ds,
      p + 1 + word_of_nat (length ds))"
    using Cons.prems(1) i by (intro Cons.IH) (simp_all add: add.assoc)
  finally show ?case by (simp add: add.assoc)
qed

lemma foldl_word: "foldl (\<lambda>v d. v * word_of_nat b + word_of_nat d) (word_of_nat v) ds
    = (word_of_nat (foldl (\<lambda>v d. v * b + d) v ds) :: u32)"
proof (induction ds arbitrary: v)
  case (Cons d ds)
  from Cons.IH [of "v * b + d"] show ?case by simp
qed simp

text \<open>\<open>strtol\<close> of an optional minus sign and the digits of a number, in base 10.\<close>

lemma digit_chr_first: "d < 10 \<Longrightarrow> (ucast (digit_chr d) :: u8) \<notin> {32, 9, 43, 45}"
proof -
  have "\<forall>d\<in>set [0..<10]. (ucast (digit_chr d) :: u8) \<notin> {32, 9, 43, 45}"
    by (simp add: upt_rec digit_chr_def hex_digits_def)
  then show "d < 10 \<Longrightarrow> ?thesis" by simp
qed

lemma strtol_decimal:
  assumes c: "cstr m p ((if neg then [45] else []) @ map (\<lambda>d. ucast (digit_chr d)) (digits 10 k))"
  shows "strtol m p 10 = Some (if neg then - word_of_nat k else word_of_nat k,
    p + word_of_nat (length (digits 10 k) + (if neg then 1 else 0)))"
proof -
  let ?q = "if neg then p + 1 else p" and ?ds = "digits 10 k"
  have q: "cstr m ?q (map (\<lambda>d. ucast (digit_chr d)) ?ds)" using c by (cases neg) simp_all
  have ds: "\<forall>i<length ?ds. m (?q + word_of_nat i) = ucast (digit_chr (?ds ! i)) \<and> ?ds ! i < 10"
    using q digits_less [of 10 _ k] by (simp add: cstr_nth)
  have z: "digit_value (m (?q + word_of_nat (length ?ds))) = None"
    using q by (simp add: cstr_nth digit_value_def)
  have f: "m ?q \<notin> {32, 9, 43, 45}"
    using ds [rule_format, of 0] digits_Nil [of 10 k] digit_chr_first [of "?ds ! 0"] by simp
  have sk: "skip_blank m p = Some p"
    using f c by (subst skip_blank.simps) (cases neg, auto)
  have "strtol_digits m ?q (word_of_nat 10) (word_of_nat 0) = Some (word_of_nat k, ?q + word_of_nat (length ?ds))"
    using strtol_digits_read [OF _ _ z ds, of "word_of_nat 0"] foldl_word [of 10 0 ?ds] digits_value_digits [of 10 k]
    by (simp add: digits_value_def)
  then show ?thesis
    using sk f c by (cases neg) (auto simp: strtol_def Let_def add.assoc)
qed

lemma unat_word_of_int64: "0 \<le> k \<Longrightarrow> k < 2 ^ 64 \<Longrightarrow> unat (word_of_int k :: u64) = nat k"
  by (simp add: unat_eq_nat_uint unsigned_of_int take_bit_int_eq_self del: nat_uint_eq)

text \<open>What \<open>%d\<close> prints without flags.\<close>

definition decimal :: "u32 \<Rightarrow> u32 list" where
  "decimal w = (if sint w < 0 then [45] else []) @ map digit_chr (digits 10 (nat \<bar>sint w\<bar>))"

lemma convert_decimal: "convert conv put 100 (VWord x # ap) spec0 t = Some (Inr (ap, fold put (decimal x) t))"
proof -
  have s: "sint (scast x :: u64) = sint x" by (rule sint_up_scast) (simp add: is_up)
  have w: "(scast x :: u64) = word_of_int (sint x)" "- (scast x :: u64) = word_of_int (- sint x)"
    by (simp_all only: scast_eq of_int_minus)
  have b: "- (2 ^ 31) \<le> sint x" "sint x < 2 ^ 31" using sint_ge [of x] sint_lt [of x] by simp_all
  have u: "0 \<le> sint x \<Longrightarrow> unat (scast x :: u64) = nat \<bar>sint x\<bar>"
    "sint x < 0 \<Longrightarrow> unat (- (scast x :: u64)) = nat \<bar>sint x\<bar>"
  proof -
    assume "0 \<le> sint x"
    moreover have "sint x < 2 ^ 64" using b by simp
    ultimately show "unat (scast x :: u64) = nat \<bar>sint x\<bar>"
      unfolding w(1) by (subst unat_word_of_int64) simp_all
  next
    assume n: "sint x < 0"
    have "- sint x < 2 ^ 64" using b by simp
    with n show "unat (- (scast x :: u64)) = nat \<bar>sint x\<bar>"
      unfolding w(2) by (subst unat_word_of_int64) simp_all
  qed
  show ?thesis
    using u s by (auto simp: convert_def getint_def number_def printnum_fold number_chars_def spec0_def decimal_def)
qed

lemma format_decimal:
  "format (bytes ''%d'') [VWord x] =
    Inr ((if sint x < 0 then [45] else []) @ map digit_chr (digits 10 (nat \<bar>sint x\<bar>)))"
proof -
  have l: "vprintfmt_loop c put [37, 100] 2 ap t = Inr t" for c and put :: "u32 \<Rightarrow> 's \<Rightarrow> 's" and ap t
    by (simp add: vprintfmt_loop.simps [of _ _ "[37, 100]" 2] fmt_at_def)
  have r: "reswitch [37, 100] (Suc 0) ap sp = Inr (100, 2, ap, sp)" for ap sp
    by (subst reswitch.simps) (simp add: fmt_at_def)
  show ?thesis
    by (simp add: format_def vprintfmt_def bytes_def vprintfmt_loop.simps [of _ _ "[37, 100]" 0] fmt_at_def
        r l convert_decimal fold_snoc decimal_def)
qed

section \<open>Properties\<close>

lemma digits_hd: "2 \<le> b \<Longrightarrow> hd (digits b n) \<noteq> 0 \<or> digits b n = [0]"
proof (induction b n rule: digits.induct)
  case (1 b n)
  show ?case
  proof (cases "n < b")
    case True
    then show ?thesis by (subst (1 2) digits.simps) auto
  next
    case False
    moreover have "n div b \<noteq> 0" using False "1.prems" by (simp add: div_eq_0_iff)
    ultimately have "digits b (n div b) \<noteq> [0]"
      using digits_value_digits [of b "n div b"] "1.prems" by (auto simp: digits_value_def)
    then have "hd (digits b (n div b)) \<noteq> 0" using "1.IH" False "1.prems" by simp
    then show ?thesis using False "1.prems" digits_Nil [of b "n div b"]
      by (subst digits.simps) simp
  qed
qed

text \<open>Plain characters are output as they are.\<close>

lemma loop_plain:
  "\<forall>k<length lit. fmt_at fmt (pos + k) = lit ! k \<and> lit ! k \<notin> {0, 37} \<Longrightarrow>
    vprintfmt_loop conv put fmt pos ap s = vprintfmt_loop conv put fmt (pos + length lit) ap (fold put (map ucast lit) s)"
proof (induction lit arbitrary: pos s)
  case (Cons c lit)
  have c: "fmt_at fmt pos = c" "c \<noteq> 0" "c \<noteq> 37" using Cons.prems by (auto dest: spec [of _ 0])
  have "\<forall>k<length lit. fmt_at fmt (pos + 1 + k) = lit ! k \<and> lit ! k \<notin> {0, 37}"
    using Cons.prems by (auto dest: spec [of _ "Suc _"])
  from Cons.IH [OF this, of "put (ucast c) s"] show ?case
    using c by (simp add: vprintfmt_loop.simps [of _ _ fmt pos])
qed simp

lemma format_plain:
  assumes "\<forall>c\<in>set lit. c \<notin> {0, 37}"
  shows "format lit [] = Inr (map ucast lit)"
proof -
  let ?put = "\<lambda>c out. out @ [c :: u32]"
  have "vprintfmt_loop (conv_err ?put) ?put lit 0 [] [] = vprintfmt_loop (conv_err ?put) ?put lit (0 + length lit) [] (fold ?put (map ucast lit) [])"
    using assms by (intro loop_plain) (auto simp: fmt_at_def)
  also have "\<dots> = Inr (map ucast lit)"
    by (simp add: vprintfmt_loop.simps [of _ _ lit "length lit"] fmt_at_def fold_snoc)
  finally show ?thesis by (simp add: format_def vprintfmt_def)
qed

text \<open>C32. printnum in a base from 2 to 16 returns, and outputs first the padding up to the width, then
  the digits of the number, most significant first, without a leading zero: they are digits of
  the base and their value is the number.\<close>

theorem printnum_prints_number:
  assumes "2 \<le> unat base" "unat base \<le> 16"
  shows "\<exists>ds. printnum putch num base w pc s = Some (fold putch
      (replicate (nat (w - int (length ds))) pc @ map (\<lambda>d. ucast (hex_digits ! d)) ds) s) \<and>
    digits_value (unat base) ds = unat num \<and> (\<forall>d\<in>set ds. d < unat base) \<and> (hd ds \<noteq> 0 \<or> ds = [0])"
  using printnum_fold [OF assms(1), of putch num w pc s] digits_value_digits [of "unat base" "unat num"]
    digits_less [OF assms(1)] digits_hd [OF assms(1), of "unat num"]
  by (intro exI [of _ "digits (unat base) (unat num)"]) (auto simp: number_chars_def digit_chr_def [abs_def])

theorem printnum_prints_number_witness:
  "printnum (\<lambda>c out. out @ [c]) 255 16 4 48 [] \<noteq> None"
  using printnum_prints_number [of 16 "\<lambda>c out. out @ [c]" 255 4 48 "[]"] by auto

text \<open>C31. vprintfmt ends on every format and every argument list, and what it outputs does not depend
  on the output routine: a call is the same characters, sent to the routine in the same order.\<close>

theorem vprintfmt_output:
  "vprintfmt putch fmt ap s \<noteq> Inl NoReturn \<and>
   vprintfmt putch fmt ap s = bindR (vprintfmt (\<lambda>c out. out @ [c]) fmt ap []) (\<lambda>out. Inr (fold putch out s))"
  using ends_vprintfmt [of putch fmt ap s] vprintfmt_format [of putch fmt ap s]
  by (simp add: ends_def format_def)

text \<open>C33. snprintf into a buffer of n bytes: the result is the length of the whole output, the buffer
  holds the output cut to n - 1 characters and a null byte behind it, and no byte outside the
  first n of the buffer, nor any behind the null byte, is written.\<close>

theorem snprintf_stays_in_buffer:
  assumes "bf \<noteq> 0" "0 < unat n" "unat n < 2 ^ 31" "unat bf + unat n \<le> 2 ^ 32"
    "vprintfmt (\<lambda>c out. out @ [c]) fmt ap [] = Inr out"
  shows "\<exists>m'. snprintf bf n fmt ap m = Inr (word_of_nat (length out), m') \<and>
    (\<forall>i<min (length out) (unat n - 1). m' (bf + word_of_nat i) = ucast (out ! i)) \<and>
    m' (bf + word_of_nat (min (length out) (unat n - 1))) = 0 \<and>
    (\<forall>a. min (length out) (unat n - 1) < unat (a - bf) \<longrightarrow> m' a = m a)"
proof -
  let ?k = "min (length out) (unat n - 1)"
  have u: "unat (bf + word_of_nat i - bf) = i" if "i \<le> ?k" for i
  proof -
    have "i < 2 ^ 32" using that assms(2,4) by linarith
    then show ?thesis by (simp only: add_diff_cancel_left' unat_of_nat32)
  qed
  have "printed bf (unat n) out m (bf + word_of_nat i) = ucast (out ! i)" if "i < ?k" for i
    using that u [of i] by (simp only: printed_def less_imp_le if_True)
  moreover have "printed bf (unat n) out m (bf + word_of_nat ?k) = 0"
    using u [OF order_refl] by (simp only: printed_def less_irrefl if_False if_True simp_thms)
  moreover have "\<forall>a. ?k < unat (a - bf) \<longrightarrow> printed bf (unat n) out m a = m a"
    unfolding printed_def by auto
  ultimately show ?thesis using snprintf_printed [OF assms(1-4), of fmt ap out m] assms(5)
    by (auto simp: format_def)
qed

theorem snprintf_stays_in_buffer_witness:
  "\<exists>m'. snprintf 0x1000 3 (bytes ''%d'') [VWord 1234] (\<lambda>_. 7) = Inr (4, m') \<and>
    m' 0x1000 = 49 \<and> m' 0x1002 = 0 \<and> m' 0x1003 = 7"
proof -
  have "digits 10 1234 = [1, 2, 3, 4]" by (simp add: digits.simps)
  then have "vprintfmt (\<lambda>c out. out @ [c]) (bytes ''%d'') [VWord 1234] [] = Inr [49, 50, 51, 52]"
    using format_decimal [of 1234] by (simp add: format_def digit_chr_def hex_digits_def)
  from snprintf_stays_in_buffer [of "0x1000" 3, OF _ _ _ _ this, of "\<lambda>_. 7"] show ?thesis
    by (auto dest: spec [of _ 0] spec [of _ "0x1003"])
qed

text \<open>%e prints the same for an error code and for its negative.\<close>

lemma error_code_sign: "conv_err putch (- err) s = conv_err putch err s"
proof (cases "sint err = - (2 ^ 31)")
  case True
  then have e: "err = word_of_int (- (2 ^ 31))" by (metis scast_eq scast_id)
  have "- err = err" unfolding e by (simp add: word_uint_eq_iff)
  then show ?thesis by (simp only:)
next
  case False
  have "- (2 ^ 31) < sint err" "sint err < 2 ^ 31" using sint_ge [of err] sint_lt [of err] False by simp_all
  then have "sint (- err) = - sint err"
    by (simp add: sint_word_ariths signed_take_bit_int_eq_self)
  moreover have "sint err = 0 \<longleftrightarrow> err = 0" by (metis scast_eq scast_id of_int_0 signed_0)
  ultimately show ?thesis
    by (cases "err = 0") (auto simp: conv_err_def Let_def cong: option.case_cong)
qed

text \<open>The minus flag of a numeric conversion pads on the left, with minus signs, where its comment
  says that it pads on the right: the output for the format %-5d and 42 is ---42.\<close>

lemma minus_flag_pads_left:
  "vprintfmt (\<lambda>c out. out @ [c]) (bytes ''%-5d'') [VWord 42] [] = Inr (map ucast (bytes ''---42''))"
proof -
  have "digits 10 42 = [4, 2]" by (simp add: digits.simps)
  then show ?thesis
    by (simp add: vprintfmt_def bytes_def vprintfmt_loop.simps fmt_at_def reswitch.simps width_digits.simps
        spec0_def process_precision_def convert_def getint_def number_def printnum_fold number_chars_def
        digit_chr_def hex_digits_def) (simp add: numeral_3_eq_3)
qed

end
