(* ===== verification/Console_Properties.thy ===== *)
theory Console_Properties
  imports Console_Queue Console_Screen Snprintf
begin

text \<open>
  The properties of the console: the input queue, the display, formatted output on it, and the
  keyboard driver.
\<close>

section \<open>A small console\<close>

text \<open>Ports that answer with a fixed byte and keep what was written last.\<close>

definition still_ports :: "u8 ports" where
  "still_ports = \<lparr>inb = (\<lambda>p d. (0, d)), outb = (\<lambda>p v d. v)\<rparr>"

definition small_console :: "u8 console" where
  "small_console = \<lparr>dev = 0, con_mem = (\<lambda>_. 0), serial_exists = False, addr_6845 = 0x3D4,
     crt_buf = 0xF00B8000, crt_pos = 1999, kbd_shift = 0, cons_buf = replicate 512 0,
     cons_rpos = 510, cons_wpos = 510\<rparr>"

lemma small_console_ok: "ring_ok small_console" "waiting small_console = []" "con_ok small_console"
  by (simp_all add: ring_ok_def waiting_def con_ok_def small_console_def)

lemma small_cursor: obtains cells where "view small_console = (cells, 1999)"
proof -
  have "snd (view small_console) = 1999" by (simp add: view_snd) (simp add: small_console_def)
  then show ?thesis using that by (metis surj_pair snd_conv)
qed

section \<open>The input queue\<close>

text \<open>A driver that delivers the characters \<open>cs\<close>, interleaved with zeros, before it answers -1.\<close>

inductive delivers :: "('d console \<Rightarrow> (u32 \<times> 'd console) result) \<Rightarrow> 'd console \<Rightarrow> u32 list \<Rightarrow> 'd console \<Rightarrow> bool" where
  stop: "proc s = Inr (-1, s') \<Longrightarrow> delivers proc s [] s'"
| zero: "proc s = Inr (0, s') \<Longrightarrow> delivers proc s' cs s'' \<Longrightarrow> delivers proc s cs s''"
| more: "proc s = Inr (c, s') \<Longrightarrow> c \<noteq> -1 \<Longrightarrow> c \<noteq> 0 \<Longrightarrow> delivers proc (cons_store c s') cs s'' \<Longrightarrow>
    delivers proc s (c # cs) s''"

text \<open>A driver that leaves the buffer alone.\<close>

definition buffer_kept :: "('d console \<Rightarrow> (u32 \<times> 'd console) result) \<Rightarrow> bool" where
  "buffer_kept proc \<longleftrightarrow> (\<forall>s c s'. proc s = Inr (c, s') \<longrightarrow>
     cons_buf s' = cons_buf s \<and> cons_rpos s' = cons_rpos s \<and> cons_wpos s' = cons_wpos s)"

lemma buffer_keptD: "buffer_kept proc \<Longrightarrow> proc s = Inr (c, s') \<Longrightarrow> waiting s' = waiting s \<and> ring_ok s' = ring_ok s"
  by (simp add: buffer_kept_def waiting_def ring_ok_def)

lemma serial_kept: "buffer_kept (serial_proc_data io)"
  by (auto simp: buffer_kept_def serial_proc_data_def con_in_def split_beta Let_def split: if_splits)

text \<open>cons_intr ends when its driver answers -1, and puts the characters the driver delivered,
  the zeros left out, at the end of the waiting input in their order, as long as they fit.\<close>

lemma cons_intr_collects:
  assumes "delivers proc s cs s'" "buffer_kept proc" "ring_ok s" "length (waiting s) + length cs \<le> 511"
  shows "cons_intr proc s = Some (Inr s') \<and> ring_ok s' \<and> waiting s' = waiting s @ map ucast cs"
  using assms
proof (induction rule: delivers.induct)
  case (stop proc s s')
  then show ?case using buffer_keptD by (subst cons_intr.simps) auto
next
  case (zero proc s s' cs s'')
  have "(0 :: u32) \<noteq> -1" by simp
  moreover have "waiting s' = waiting s" "ring_ok s'" using buffer_keptD [OF zero.prems(1) zero.hyps(1)] zero.prems by simp_all
  ultimately show ?case using zero by (subst cons_intr.simps) simp
next
  case (more proc s c s' cs s'')
  have b: "waiting s' = waiting s" "ring_ok s'" using buffer_keptD [OF more.prems(1) more.hyps(1)] more.prems by simp_all
  then have w: "waiting (cons_store c s') = waiting s @ [ucast c]" "ring_ok (cons_store c s')"
    using store_back [of s' c] store_ok more.prems(3) by simp_all
  then show ?case using more by (subst cons_intr.simps) simp
qed

lemma still_delivers: "delivers (serial_proc_data still_ports) s [] s"
proof -
  have "serial_proc_data still_ports s = Inr (-1, s)"
    by (simp add: serial_proc_data_def con_in_def still_ports_def COM_LSR_DATA_def)
  then show ?thesis by (rule delivers.stop)
qed

text \<open>C15. The console input buffer is a first-in first-out queue of 511 characters: storing characters
  that fit, wherever the positions are in the ring, and fetching as many times as there are
  characters gives what was waiting and then the stored ones, in order, and leaves it empty.\<close>

theorem console_input_fifo:
  assumes "ring_ok s" "length (waiting s) + length cs \<le> 511"
  shows "\<exists>s'. gets cons_fetch (length (waiting s) + length cs) (fold cons_store cs s)
      = (map ucast (waiting s) @ map (\<lambda>c. ucast (ucast c :: u8)) cs, s') \<and> ring_ok s' \<and> waiting s' = []"
  using assms by (rule cq.fifo)

theorem console_input_fifo_witness:
  "\<exists>s'. gets cons_fetch 3 (fold cons_store [65, 66, 67] small_console) = ([65, 66, 67], s') \<and> waiting s' = []"
proof -
  have l: "length [] + length [65, 66, 67 :: u32] = 3" by simp
  have m: "map ucast [] @ map (\<lambda>c. ucast (ucast c :: u8)) [65, 66, 67 :: u32] = [65, 66, 67 :: u32]" by simp
  have "length (waiting small_console) + length [65, 66, 67 :: u32] \<le> 511" by (simp add: small_console_ok)
  from console_input_fifo [OF small_console_ok(1) this] show ?thesis
    unfolding small_console_ok(2) m l by blast
qed

text \<open>C40. The 512th waiting character is not dropped but drops all: the write position meets the read
  position, and the buffer reads as empty.\<close>

theorem console_overflow_empties:
  assumes "ring_ok s" "length (waiting s) = 511"
  shows "waiting (cons_store c s) = [] \<and> cons_fetch (cons_store c s) = (0, cons_store c s)"
  using store_full [OF assms] fetch_none [OF store_ok [OF assms(1)]] by simp

theorem console_overflow_empties_witness:
  "waiting (cons_store 1 (fold cons_store (replicate 511 65) small_console)) = []"
proof -
  have "length (waiting small_console) + length (replicate 511 (65 :: u32)) \<le> 511"
    by (simp add: small_console_ok)
  note p = cq.puts [OF small_console_ok(1) this]
  then have "length (waiting (fold cons_store (replicate 511 65) small_console)) = 511"
    by (simp add: small_console_ok)
  then show ?thesis using console_overflow_empties p by blast
qed

section \<open>The display\<close>

text \<open>C14. Every character of cputchar acts on the display as on a screen of 25 lines of 80 cells with a
  cursor: backspace, newline, carriage return, tab and printing characters with their attribute,
  scrolling one line up at the end; the cursor stays on the screen, and no memory outside the
  display is written.\<close>

theorem cputchar_screen:
  assumes "con_ok s"
  shows "view (cputchar io c s) = screen_put c (view s) \<and> con_ok (cputchar io c s) \<and>
    (\<forall>a. 4000 \<le> unat (a - crt_buf s) \<longrightarrow> con_mem (cputchar io c s) a = con_mem s a)"
  using cputchar_view [OF assms] by (simp add: shows_as_def con_frame_def)

theorem cputchar_screen_witness:
  "snd (view (cputchar still_ports 65 small_console)) = 1920"
proof -
  obtain cells where v: "view small_console = (cells, 1999)" by (rule small_cursor)
  have "view (cputchar still_ports 65 small_console) = screen_put 65 (view small_console)"
    using cputchar_screen [OF small_console_ok(3)] by blast
  then show ?thesis by (simp add: v screen_put_def scr_char_def scr_scroll_def with_attr_def)
qed

text \<open>cprintf shows the formatted text: the display after the call is the screen after the
  characters vprintfmt outputs, one by one.\<close>

lemma cprintf_on_screen:
  assumes "con_ok s" "vprintfmt (\<lambda>c out. out @ [c]) fmt ap [] = Inr out"
  shows "\<exists>n s'. cprintf io fmt ap s = Inr (n, s') \<and> view s' = fold screen_put out (view s) \<and> con_ok s'"
proof -
  have f: "\<exists>s'. fold (putch io) out (s, n) = (s', n) \<and> view s' = fold screen_put out (view s) \<and> con_ok s'"
    if "con_ok s" for s :: "'a console" and n
    using that
  proof (induction out arbitrary: s)
    case (Cons c out)
    have "view (cputchar io c s) = screen_put c (view s)" "con_ok (cputchar io c s)"
      using cputchar_view [OF Cons.prems] by (simp_all add: shows_as_def)
    then show ?case using Cons.IH [of "cputchar io c s"] by (simp add: putch_def)
  qed simp
  obtain s' where "fold (putch io) out (s, 0) = (s', 0)" "view s' = fold screen_put out (view s)" "con_ok s'"
    using f [OF assms(1)] by blast
  moreover have "format fmt ap = Inr out" using assms(2) by (simp add: format_def)
  ultimately show ?thesis by (simp add: cprintf_def vcprintf_def vprintfmt_format)
qed

text \<open>cprintf does not return the number of characters it printed: putch increments its pointer
  and not the counter, so the result is 0 whatever was printed.\<close>

lemma cprintf_returns_zero:
  assumes "cprintf io fmt ap s = Inr (n, s')"
  shows "n = 0"
proof -
  have "snd (fold (putch io) out (s, n)) = n" for out and s :: "'a console" and n
    by (induction out arbitrary: s) (simp_all add: putch_def)
  then show ?thesis using assms
    by (auto simp: cprintf_def vcprintf_def vprintfmt_format bindR_eq_Inr) (metis snd_conv)
qed

end

