(* ===== verification/Keyboard.thy ===== *)
theory Keyboard
  imports Console_In
begin

text \<open>
  The keyboard driver as a state machine over scan codes: the shift state and its invariants, and
  the characters of the letter keys.
\<close>

section \<open>Letter keys\<close>

definition letter :: "u8 \<Rightarrow> bool" where
  "letter d \<longleftrightarrow> d AND 0x80 = 0 \<and> 97 \<le> normalmap d \<and> normalmap d \<le> 122"

text \<open>The rows hold the letters at the same places; no letter key is a modifier.\<close>

lemma ext_not_letter: "\<not> (97 \<le> ext_keys d \<and> ext_keys d \<le> 122)"
  by (simp add: ext_keys_def KEY_HOME_def KEY_END_def KEY_UP_def KEY_DN_def KEY_LF_def KEY_RT_def
      KEY_PGUP_def KEY_PGDN_def KEY_INS_def KEY_DEL_def)

lemma letter_keys: "letter d \<Longrightarrow> unat d < 88 \<and> normal_rows ! unat d \<in> {97..122}"
proof -
  assume d: "letter d"
  have l: "length normal_rows = 88" by (simp add: normal_rows_def bytes_def)
  have "unat d < 88"
  proof (rule ccontr)
    assume "\<not> unat d < 88"
    then have "normalmap d = ext_keys d" by (simp add: normalmap_def l)
    then show False using d ext_not_letter [of d] by (simp add: letter_def)
  qed
  then show ?thesis using d by (simp add: letter_def normalmap_def l)
qed

lemma row_letters:
  "\<forall>i\<in>set [0..<88]. normal_rows ! i \<in> {97..122} \<longrightarrow>
     shift_rows ! i = normal_rows ! i - 32 \<and> shiftcode (word_of_nat i) = 0 \<and> togglecode (word_of_nat i) = 0"
  by (simp add: upt_rec normal_rows_def shift_rows_def bytes_def shiftcode_def togglecode_def
      CTL_def SHIFT_def ALT_def CAPSLOCK_def NUMLOCK_def SCROLLLOCK_def)

lemma letter_tables:
  assumes "letter d"
  shows "shiftmap d = normalmap d - 32" "shiftcode d = 0" "togglecode d = 0"
proof -
  have l: "length normal_rows = 88" "length shift_rows = 88"
    by (simp_all add: normal_rows_def shift_rows_def bytes_def)
  have u: "unat d < 88" "normal_rows ! unat d \<in> {97..122}" using letter_keys [OF assms] by simp_all
  then have "unat d \<in> set [0..<88]" by simp
  from row_letters [rule_format, OF this u(2)]
  show "shiftmap d = normalmap d - 32" "shiftcode d = 0" "togglecode d = 0"
    using u(1) by (simp_all add: shiftmap_def normalmap_def l)
qed

section \<open>Modifiers\<close>

lemma make_not_escape: "d AND 0x80 = 0 \<Longrightarrow> d \<noteq> (0xE0 :: u8)"
  by auto

lemma kbd_decode_make:
  assumes "d AND 0x80 = 0" "shift AND E0ESC = 0"
  shows "kbd_decode shift d =
    (let shift = (shift OR shiftcode d) XOR togglecode d; c = ucast (charcode (shift AND (CTL OR SHIFT)) d)
     in (shift, if shift AND CAPSLOCK \<noteq> 0 then caps c else c))"
  using assms make_not_escape [OF assms(1)] by (simp add: kbd_decode_def Let_def)

lemma kbd_decode_break:
  assumes "d AND 0x80 \<noteq> 0" "d \<noteq> 0xE0" "shift AND E0ESC = 0"
  shows "kbd_decode shift d = (shift AND NOT (shiftcode (d AND 0x7F) OR E0ESC), 0)"
  using assms by (simp add: kbd_decode_def Let_def)

section \<open>Properties\<close>

text \<open>A letter key, with no control key and no E0 prefix, leaves the shift state and gives its letter,
  in lower case exactly when shift and caps lock are both on or both off.\<close>

lemma kbd_letter_case:
  assumes "letter d" "shift AND E0ESC = 0" "shift AND CTL = 0"
  shows "kbd_decode shift d = (shift,
    if (shift AND SHIFT \<noteq> 0) = (shift AND CAPSLOCK \<noteq> 0) then ucast (normalmap d) else ucast (normalmap d) - 32)"
proof -
  note t = letter_tables [OF assms(1)]
  have d: "d AND 0x80 = 0" "97 \<le> normalmap d" "normalmap d \<le> 122" using assms(1) by (simp_all add: letter_def)
  have sh: "shift AND (CTL OR SHIFT) = shift AND SHIFT"
    using assms(3) by (simp add: bit.conj_disj_distrib)
  have s01: "shift AND SHIFT = 0 \<or> shift AND SHIFT = 1"
    by (simp add: SHIFT_def and_one_eq) (metis not_mod_2_eq_1_eq_0)
  have u: "unat (ucast (normalmap d) :: u32) = unat (normalmap d)" "97 \<le> unat (normalmap d)" "unat (normalmap d) \<le> 122"
    using d unsigned_less [of "normalmap d"]
    by (simp_all add: word_le_nat_alt unsigned_ucast_eq take_bit_nat_eq_self)
  have low: "(97 :: u32) \<le> ucast (normalmap d)" "ucast (normalmap d) \<le> (122 :: u32)"
    using u by (simp_all add: word_le_nat_alt)
  have n32: "unat (normalmap d - 32) = unat (normalmap d) - 32"
    using u by (subst unat_sub) (simp_all add: word_le_nat_alt)
  have up: "(ucast (normalmap d - 32) :: u32) = ucast (normalmap d) - 32"
  proof -
    have "unat (ucast (normalmap d - 32) :: u32) = unat (normalmap d) - 32"
      using n32 u by (simp add: unsigned_ucast_eq take_bit_nat_eq_self)
    moreover have "unat (ucast (normalmap d) - 32 :: u32) = unat (normalmap d) - 32"
      using u by (subst unat_sub) (simp_all add: word_le_nat_alt)
    ultimately show ?thesis by (simp only: word_unat_eq_iff)
  qed
  have c1: "caps (ucast (normalmap d)) = ucast (normalmap d) - 32"
    using low by (simp add: caps_def)
  have c2: "caps (ucast (normalmap d) - 32) = ucast (normalmap d)"
  proof -
    have x: "unat (ucast (normalmap d) - 32 :: u32) = unat (normalmap d) - 32"
      using u by (subst unat_sub) (simp_all add: word_le_nat_alt)
    then have "\<not> 97 \<le> (ucast (normalmap d) - 32 :: u32)" "65 \<le> (ucast (normalmap d) - 32 :: u32)"
      "(ucast (normalmap d) - 32 :: u32) \<le> 90"
      using u by (simp_all add: word_le_nat_alt)
    then show ?thesis by (simp add: caps_def)
  qed
  show ?thesis
    using s01 c1 c2 unfolding kbd_decode_make [OF d(1) assms(2)] t(2,3)
    by (auto simp: Let_def sh charcode_def t(1) up)
qed

text \<open>A modifier is on between the press of its key and the release, and off afterwards; the other
  bits of the shift state are as before the press.\<close>

lemma kbd_press_release:
  assumes "d AND 0x80 = 0" "d \<noteq> 0x60" "shift AND E0ESC = 0" "togglecode d = 0"
  shows "fst (kbd_decode shift d) = shift OR shiftcode d \<and>
    fst (kbd_decode (fst (kbd_decode shift d)) (d OR 0x80)) = shift AND NOT (shiftcode d)"
proof -
  have press: "fst (kbd_decode shift d) = shift OR shiftcode d"
    unfolding kbd_decode_make [OF assms(1,3)] by (simp add: Let_def assms(4))
  have e: "(shift OR shiftcode d) AND E0ESC = 0"
    using assms(3) by (simp add: bit.conj_disj_distrib2 shiftcode_def E0ESC_def CTL_def SHIFT_def ALT_def)
  have b: "(d OR 0x80) AND 0x80 \<noteq> 0" by (simp add: bit.conj_disj_distrib2 assms(1))
  have k: "(d OR 0x80) AND 0x7F = d"
  proof -
    have "d AND NOT 0x80 = d"
      using bit.conj_disj_distrib [of d "0x80" "NOT 0x80"] assms(1) by simp
    moreover have "NOT 0x80 = (0x7F :: u8)" by (simp add: word_uint_eq_iff)
    ultimately have "d AND 0x7F = d" by (simp only:)
    then show ?thesis by (simp add: bit.conj_disj_distrib2)
  qed
  have ne: "d OR 0x80 \<noteq> 0xE0"
  proof
    assume "d OR 0x80 = 0xE0"
    then have "d = 0xE0 AND 0x7F" using k by simp
    then show False using assms(2) by simp
  qed
  have n: "shift AND NOT E0ESC = shift"
    using bit.conj_disj_distrib [of shift E0ESC "NOT E0ESC"] assms(3) by simp
  have s: "shiftcode d AND NOT (shiftcode d) = 0" by simp
  have "fst (kbd_decode (shift OR shiftcode d) (d OR 0x80)) = (shift OR shiftcode d) AND NOT (shiftcode d OR E0ESC)"
    using kbd_decode_break [OF b ne e] k by simp
  also have "\<dots> = (shift AND NOT E0ESC) AND NOT (shiftcode d)"
    by (rule bit_word_eqI) (auto simp: bit_simps)
  finally show ?thesis using press n by simp
qed

text \<open>Control and Home give no character: the entry of the control table for the key is at 0x97,
  not at 0xC7 as in the other two tables.\<close>

lemma kbd_ctrl_home:
  "kbd_decode (CTL OR E0ESC) 0x47 = (CTL, 0) \<and> kbd_decode E0ESC 0x47 = (0, ucast KEY_HOME) \<and>
   kbd_decode (CTL OR E0ESC) 0x4F = (CTL, ucast KEY_END)"
  by (simp add: kbd_decode_def CTL_def E0ESC_def SHIFT_def CAPSLOCK_def charcode_def shiftcode_def togglecode_def
      ctlmap_def normalmap_def ext_keys_def ctl_rows_def normal_rows_def bytes_def KEY_HOME_def KEY_END_def Let_def)

end
