(* ===== verification/Text_Properties.thy ===== *)
theory Text_Properties
  imports Snprintf
begin

text \<open>
  The properties of lib/string.c: block moves and their portable versions, comparison, bounded copy, and
  numbers printed by \<open>snprintf\<close> and read back by \<open>strtol\<close>.
\<close>

section \<open>Blocks\<close>

text \<open>C38. memmove and memset with the string instructions of the x86 write what the portable versions of
  the same file write, for regions that overlap in either direction too: every byte of the
  destination gets the byte the source had before the call, and nothing else changes.\<close>

theorem memmove_copies:
  assumes "unat s + unat n < 2 ^ 32" "unat d + unat n < 2 ^ 32" "unat n < 2 ^ 31"
  shows "memmove m d s n = (\<lambda>a. if unat (a - d) < unat n then m (s + (a - d)) else m a) \<and>
    memmove_c m d s n = memmove m d s n \<and> memset_c m d c n = memset m d c n"
  using memmove_apply [OF assms(1,2)] memmove_eq_memmove_c [OF assms(1,2), symmetric]
    memset_eq_memset_c [OF assms(3), symmetric] by (simp add: fun_eq_iff)

theorem memmove_copies_witness:
  "memmove (\<lambda>a. ucast a) 0x1002 0x1000 8 0x1009 = 7 \<and> memmove_c (\<lambda>a. ucast a) 0x1002 0x1000 8 0x1009 = 7"
  using memmove_copies [of "0x1000" 8 "0x1002" "\<lambda>a. ucast a" 0] by simp

section \<open>Strings\<close>

text \<open>strcmp answers 0 exactly for equal strings, and a negative number exactly when the first comes
  before the second in the lexicographic order of unsigned characters; it ends for every two strings.\<close>

lemma strcmp_orders:
  assumes "cstr m p xs" "cstr m q ys"
  shows "\<exists>r. strcmp m p q = Some r \<and> (r = 0 \<longleftrightarrow> xs = ys) \<and> (r < 0 \<longleftrightarrow> ord.lexordp (<) xs ys)"
  using strcmp_cstr [OF assms] list_cmp_0_iff list_cmp_neg_iff cstr_no_zero assms by blast

lemma cstr_upd:
  "cstr m p xs \<Longrightarrow> \<forall>i\<le>length xs. p + word_of_nat i \<noteq> a \<Longrightarrow> cstr (m(a := v)) p xs"
proof (induction xs arbitrary: p)
  case Nil
  then show ?case by auto
next
  case (Cons x xs)
  have "\<forall>i\<le>length xs. p + 1 + word_of_nat i \<noteq> a"
  proof (intro allI impI)
    fix i assume "i \<le> length xs"
    then have "p + word_of_nat (Suc i) \<noteq> a" using Cons.prems(2) by (auto simp del: of_nat_Suc)
    then show "p + 1 + word_of_nat i \<noteq> a" by (simp add: add.assoc)
  qed
  moreover have "p \<noteq> a" using Cons.prems(2) [rule_format, of 0] by simp
  ultimately show ?case using Cons.IH [of "p + 1"] Cons.prems(1) by auto
qed

lemma unat_pred: "a \<noteq> d \<Longrightarrow> unat (a - d :: u32) = Suc (unat (a - (d + 1)))"
  using unat_minus_1 [of "a - d"] unat_eq_zero [of "a - d"] by (simp add: diff_diff_eq)

lemma strlcpy_loop_copies:
  "cstr m src xs \<Longrightarrow> 0 < unat sz \<Longrightarrow> \<forall>i\<le>length xs. unat sz \<le> unat (src + word_of_nat i - dst) \<Longrightarrow>
    strlcpy_loop m dst src sz =
      ((\<lambda>a. if unat (a - dst) < min (length xs) (unat sz - 1) then xs ! unat (a - dst) else m a),
       dst + word_of_nat (min (length xs) (unat sz - 1)))"
proof (induction xs arbitrary: m dst src sz)
  case Nil
  then show ?case by (subst strlcpy_loop.simps) auto
next
  case (Cons x xs)
  let ?n = "unat sz - 1"
  have u: "unat (sz - 1) = ?n" using Cons.prems(2) unat_minus_1 [of sz] by (cases "sz = 0") auto
  show ?case
  proof (cases "?n = 0")
    case True
    then have "sz - 1 = 0" using u unat_eq_zero [of "sz - 1"] by simp
    then show ?thesis using True by (subst strlcpy_loop.simps) simp
  next
    case False
    let ?m = "m(dst := x)"
    have far: "\<forall>i\<le>length xs. unat sz \<le> unat (src + 1 + word_of_nat i - dst)"
    proof (intro allI impI)
      fix i assume "i \<le> length xs"
      then have "unat sz \<le> unat (src + word_of_nat (Suc i) - dst)" using Cons.prems(3) by (auto simp del: of_nat_Suc)
      then show "unat sz \<le> unat (src + 1 + word_of_nat i - dst)" by (simp add: add.assoc)
    qed
    have "src + 1 + word_of_nat i \<noteq> dst" if "i \<le> length xs" for i
      using far [rule_format, OF that] Cons.prems(2) by auto
    then have c: "cstr ?m (src + 1) xs" using Cons.prems(1) by (intro cstr_upd) auto
    have f: "\<forall>i\<le>length xs. unat (sz - 1) \<le> unat (src + 1 + word_of_nat i - (dst + 1))"
    proof (intro allI impI)
      fix i assume "i \<le> length xs"
      then have "unat sz \<le> unat (src + word_of_nat i - dst)" using Cons.prems(3) by auto
      moreover have e: "src + 1 + word_of_nat i - (dst + 1) = src + word_of_nat i - dst" by simp
      ultimately show "unat (sz - 1) \<le> unat (src + 1 + word_of_nat i - (dst + 1))" unfolding e u by linarith
    qed
    have "sz - 1 > 0" using False u by (simp add: word_less_nat_alt)
    define k where "k = min (length xs) (?n - 1)"
    have k: "min (length (x # xs)) ?n = Suc k" using False by (simp add: k_def)
    have "strlcpy_loop m dst src sz = strlcpy_loop ?m (dst + 1) (src + 1) (sz - 1)"
      using Cons.prems(1) \<open>sz - 1 > 0\<close> by (subst strlcpy_loop.simps) auto
    also have "\<dots> = ((\<lambda>a. if unat (a - (dst + 1)) < k then xs ! unat (a - (dst + 1)) else ?m a), dst + 1 + word_of_nat k)"
      by (rule Cons.IH [OF c _ f, unfolded u k_def [symmetric]]) (use False in simp)
    also have "(\<lambda>a. if unat (a - (dst + 1)) < k then xs ! unat (a - (dst + 1)) else ?m a) =
        (\<lambda>a. if unat (a - dst) < Suc k then (x # xs) ! unat (a - dst) else m a)" (is "?f = ?g")
    proof
      fix a
      have "k < 2 ^ 32 - 1" using unat32_bound [of sz] False by (simp add: k_def)
      then show "?f a = ?g a"
        using unat_pred [of a dst] unat_minus_1 [of 0] by (cases "a = dst") (simp_all add: diff_diff_eq)
    qed
    also have "dst + 1 + word_of_nat k = dst + word_of_nat (Suc k)" by simp
    finally show ?thesis unfolding k .
  qed
qed

text \<open>C39. strlcpy never writes outside the size bytes of its destination and always ends what it writes with
  a NUL: for a source string outside the destination it copies the first size - 1 characters, or
  all if there are fewer, and returns how many.\<close>

theorem strlcpy_truncates:
  assumes "cstr m src xs" "0 < unat sz" "\<forall>i\<le>length xs. unat sz \<le> unat (src + word_of_nat i - dst)"
  shows "\<exists>m'. strlcpy m dst src sz = (m', word_of_nat (min (length xs) (unat sz - 1))) \<and>
    cstr m' dst (take (unat sz - 1) xs) \<and> cstr m' src xs \<and> (\<forall>a. unat sz \<le> unat (a - dst) \<longrightarrow> m' a = m a)"
proof -
  define k where "k = min (length xs) (unat sz - 1)"
  have k: "k < unat sz" "k \<le> length xs" "k < 2 ^ 32" using assms(2) unat32_bound [of sz] by (simp_all add: k_def)
  have uk: "unat (dst + word_of_nat i - dst) = i" if "i \<le> k" for i
    using that k(3) by (simp add: unat_of_nat32)
  define m' where "m' = (\<lambda>a. if unat (a - dst) < k then xs ! unat (a - dst) else m a)(dst + word_of_nat k := 0)"
  have r: "strlcpy m dst src sz = (m', word_of_nat k)"
    unfolding strlcpy_def strlcpy_loop_copies [OF assms] k_def [symmetric] m'_def
    using assms(2) by (simp add: word_less_nat_alt)
  have nz: "xs ! i \<noteq> 0" if "i < length xs" for i using cstr_no_zero [OF assms(1)] that by (metis nth_mem)
  have at: "dst + word_of_nat i = dst + word_of_nat k \<longleftrightarrow> i = k" if "i \<le> k" for i
    using uk [OF that] uk [OF order_refl] by metis
  have m'i: "m' (dst + word_of_nat i) = xs ! i" if "i < k" for i
    using that at [of i] uk [of i] by (simp add: m'_def)
  have len: "length (take (unat sz - 1) xs) = k" by (simp add: k_def)
  have "cstr m' dst (take (unat sz - 1) xs)"
    unfolding cstr_nth len using m'i nz k(2) by (auto simp: k_def m'_def)
  moreover have off: "m' a = m a" if "unat sz \<le> unat (a - dst)" for a
  proof -
    have "a \<noteq> dst + word_of_nat k" using that uk [OF order_refl] k(1) by auto
    then show ?thesis using that k(1) by (simp add: m'_def)
  qed
  moreover have "cstr m' src xs"
    using assms(1) off assms(3) unfolding cstr_nth by auto
  ultimately show ?thesis using r unfolding k_def by blast
qed

theorem strlcpy_truncates_witness:
  "\<exists>m'. strlcpy ((\<lambda>_. 7)(0x1000 := 97, 0x1001 := 98, 0x1002 := 0)) 0x2000 0x1000 2 = (m', 1) \<and> cstr m' 0x2000 [97]"
proof -
  let ?m = "(\<lambda>_. 7)(0x1000 := 97, 0x1001 := 98, 0x1002 := 0) :: memory"
  have c: "cstr ?m 0x1000 [97, 98]" by simp
  have f: "\<forall>i\<le>length [97, 98 :: u8]. unat (2 :: u32) \<le> unat (0x1000 + word_of_nat i - 0x2000 :: u32)"
  proof (intro allI impI)
    fix i assume "i \<le> length [97, 98 :: u8]"
    then have "i = 0 \<or> i = 1 \<or> i = 2" by auto
    then show "unat (2 :: u32) \<le> unat (0x1000 + word_of_nat i - 0x2000 :: u32)" by auto
  qed
  show ?thesis using strlcpy_truncates [OF c _ f] by auto
qed

section \<open>Numbers\<close>

lemma digits_length: "n < 10 ^ k \<Longrightarrow> 0 < k \<Longrightarrow> length (digits 10 n) \<le> k"
proof (induction k arbitrary: n)
  case (Suc k)
  show ?case
  proof (cases "n < 10")
    case True
    then show ?thesis by (subst digits.simps) simp
  next
    case False
    then have "0 < k" using Suc.prems by (cases k) auto
    moreover have "n div 10 < 10 ^ k" using Suc.prems(1) by (simp add: div_less_iff_less_mult mult.commute)
    ultimately have "length (digits 10 (n div 10)) \<le> k" by (intro Suc.IH)
    then show ?thesis using False by (subst digits.simps) simp
  qed
qed simp

lemma sint_back: "(word_of_int (sint x) :: u32) = x"
  by (metis scast_eq scast_id)

lemma digit_chr_nonzero: "d < 10 \<Longrightarrow> (ucast (digit_chr d) :: u8) \<noteq> 0"
proof -
  have "\<forall>d\<in>set [0..<10]. (ucast (digit_chr d) :: u8) \<noteq> 0"
    by (simp add: upt_rec digit_chr_def hex_digits_def)
  then show "d < 10 \<Longrightarrow> ?thesis" by simp
qed

text \<open>C34. A number printed with snprintf("%d") into a buffer of at least 12 bytes and read back with
  strtol in base 10 is the number again, for every 32-bit value, negative ones included; strtol
  stops at the NUL behind it.\<close>

theorem decimal_roundtrip:
  assumes "bf \<noteq> 0" "12 \<le> unat n" "unat n < 2 ^ 31" "unat bf + unat n \<le> 2 ^ 32"
  shows "\<exists>len m'. snprintf bf n (bytes ''%d'') [VWord x] m = Inr (len, m') \<and>
    strtol m' bf 10 = Some (x, bf + len) \<and> m' (bf + len) = 0"
proof -
  let ?k = "nat \<bar>sint x\<bar>" and ?neg = "sint x < 0"
  define out where "out = decimal x"
  have fmt: "format (bytes ''%d'') [VWord x] = Inr out" by (simp add: format_decimal out_def decimal_def)
  have "\<bar>sint x\<bar> \<le> 2 ^ 31" using sint_ge [of x] sint_lt [of x] by simp
  then have "?k \<le> 2 ^ 31" by simp
  then have "?k < 10 ^ 10" by (rule le_less_trans) simp
  then have "length (digits 10 ?k) \<le> 10" by (rule digits_length) simp
  then have len: "length out \<le> 11" by (auto simp: out_def decimal_def)
  define ds where "ds = digits 10 ?k"
  have ds: "out = (if ?neg then [45] else []) @ map digit_chr ds" "\<forall>d\<in>set ds. d < 10"
    unfolding out_def decimal_def ds_def using digits_less [of 10 _ ?k] by simp_all
  then have nz: "\<forall>c\<in>set out. (ucast c :: u8) \<noteq> 0"
    using digit_chr_nonzero by (cases "?neg") auto
  let ?m = "printed bf (unat n) out m"
  have sn: "snprintf bf n (bytes ''%d'') [VWord x] m = Inr (word_of_nat (length out), ?m)"
    using assms by (intro snprintf_printed [OF _ _ _ _ fmt]) simp_all
  have "take (unat n - 1) out = out" using len assms(2) by simp
  then have c: "cstr ?m bf (map ucast out)"
    using printed_cstr [of "unat n" bf out m] assms(2,4) nz by simp
  have o: "map ucast out = (if ?neg then [45] else []) @ map (\<lambda>d. ucast (digit_chr d)) (digits 10 ?k)"
    unfolding out_def decimal_def by (simp add: comp_def)
  have "strtol ?m bf 10 = Some (if ?neg then - word_of_nat ?k else word_of_nat ?k,
      bf + word_of_nat (length (digits 10 ?k) + (if ?neg then 1 else 0)))"
    using c unfolding o by (rule strtol_decimal)
  moreover have "(if ?neg then - word_of_nat ?k else word_of_nat ?k) = x"
    using sint_back [of x] by (simp flip: of_int_minus)
  moreover have "length (digits 10 ?k) + (if ?neg then 1 else 0) = length out" by (simp add: out_def decimal_def)
  moreover have "?m (bf + word_of_nat (length out)) = 0" using c by (simp add: cstr_nth)
  ultimately show ?thesis using sn by (intro exI [of _ "word_of_nat (length out)"] exI [of _ ?m]) simp
qed

theorem decimal_roundtrip_witness:
  "\<exists>len m'. snprintf 0x1000 12 (bytes ''%d'') [VWord (- 2147483648)] (\<lambda>_. 7) = Inr (len, m') \<and>
    strtol m' 0x1000 10 = Some (- 2147483648, 0x1000 + len)"
  using decimal_roundtrip [of "0x1000" 12 "- 2147483648" "\<lambda>_. 7"] by auto

end
