(* ===== verification/Entry_Pgdir.thy ===== *)
theory Entry_Pgdir
  imports Vm_Invariant Entry_Table
begin

text \<open>
  kern/entrypgdir.c: the page directory and the page table the kernel starts with, as the words
  the file initialises them to, and what they map.
\<close>

section \<open>The tables\<close>

text \<open>The directory, for the address of \<open>entry_pgtable\<close>; the entries not named are 0.\<close>

definition entry_pgdir :: "u32 \<Rightarrow> u32 list" where
  "entry_pgdir pgtable =
     (replicate 1024 0)[0 := (pgtable - KERNBASE) + PTE_P,
                        unat (drop_bit PDXSHIFT KERNBASE) := (pgtable - KERNBASE) + PTE_P + PTE_W]"

text \<open>The kernel image: the directory in physical page \<open>P\<close>, the table in physical page \<open>T\<close>.\<close>

definition entry_image :: "nat \<Rightarrow> nat \<Rightarrow> memory \<Rightarrow> memory" where
  "entry_image P T m = store_words (store_words m (kaddr P 0) (entry_pgdir (kaddr T 0))) (kaddr T 0) entry_pgtable"

section \<open>What they map\<close>

lemma kaddr_Suc: "kaddr p i + 4 = kaddr p (Suc i)"
  by (simp add: kaddr_def)

lemma pword_store_words:
  assumes "q < 65536" "p < 65536" "i < 1024"
  shows "k + length ws \<le> 1024 \<Longrightarrow> pword (store_words m (kaddr q k) ws) p i =
    (if p = q \<and> k \<le> i \<and> i < k + length ws then ws ! (i - k) else pword m p i)"
proof (induction ws arbitrary: m k)
  case (Cons w ws)
  have "pword (store_words (st32 m (kaddr q k) w) (kaddr q (Suc k)) ws) p i =
      (if p = q \<and> Suc k \<le> i \<and> i < Suc k + length ws then ws ! (i - Suc k) else pword (st32 m (kaddr q k) w) p i)"
    using Cons.prems by (intro Cons.IH) simp
  moreover have "pword (st32 m (kaddr q k) w) p i = (if p = q \<and> i = k then w else pword m p i)"
    using assms Cons.prems by (intro pword_st32) simp_all
  ultimately show ?case by (auto simp: kaddr_Suc nth_Cons' Suc_diff_Suc)
qed (simp, presburger)

lemma entry_slot: "unat (drop_bit PDXSHIFT KERNBASE) = 960"
  by (simp add: PDXSHIFT_def KERNBASE_def drop_bit_eq_div)

lemma page2pa_mult: "page2pa x = 0x1000 * word_of_nat x"
  by (simp add: page2pa_def PGSHIFT_def push_bit_eq_mult)

lemma kaddr_minus: "kaddr T 0 - KERNBASE = page2pa T"
  by (simp add: kaddr_def page2pa_mult)

lemma page2pa_and: "take_bit 12 f = f \<Longrightarrow> page2pa x AND f = 0"
proof -
  assume f: "take_bit 12 f = f"
  have "page2pa x AND take_bit 12 f = 0"
    by (rule bit_word_eqI) (auto simp: page2pa_def PGSHIFT_def bit_simps)
  then show ?thesis by (simp add: f)
qed

lemma page2pa_and_flags: "page2pa x AND 1 = 0" "page2pa x AND 2 = 0" "page2pa x AND 3 = 0"
  by (rule page2pa_and, simp)+

lemma page2pa_plus_flags: "page2pa x + PTE_P = page2pa x OR PTE_P" "page2pa x + (PTE_P + PTE_W) = page2pa x OR (PTE_P OR PTE_W)"
  by (simp_all add: disjunctive_add_eq_or page2pa_and_flags PTE_P_def PTE_W_def)

lemma entry_pgtable_nth: "t < 1024 \<Longrightarrow> entry_pgtable ! t = page2pa t OR (PTE_P OR PTE_W)"
  using rows_from_nth [OF entry_pgtable_rows(1), of t] by (simp add: entry_pgtable_rows(2) page2pa_mult or.assoc)

lemma entry_pgdir_nth:
  "d < 1024 \<Longrightarrow> entry_pgdir (kaddr T 0) ! d =
    (if d = 0 then page2pa T OR PTE_P else if d = 960 then page2pa T OR (PTE_P OR PTE_W) else 0)"
  unfolding entry_pgdir_def entry_slot kaddr_minus add.assoc
  unfolding page2pa_plus_flags by (simp add: nth_list_update)

lemma entry_flags:
  "present (page2pa x OR PTE_P)" "present (page2pa x OR (PTE_P OR PTE_W))" "\<not> present 0"
  "(page2pa x OR PTE_P) AND PTE_W = 0" "(page2pa x OR (PTE_P OR PTE_W)) AND PTE_W \<noteq> 0"
  using page2pa_and_flags [of x] by (simp_all add: present_def bit.conj_disj_distrib2 PTE_P_def PTE_W_def)

lemma entry_words:
  assumes "P < 65536" "T < 65536" "P \<noteq> T" "i < 1024"
  shows "pword (entry_image P T m) P i = entry_pgdir (kaddr T 0) ! i"
    "pword (entry_image P T m) T i = entry_pgtable ! i"
  using assms pword_store_words [of T P i 0] pword_store_words [of P P i 0] pword_store_words [of T T i 0]
  by (simp_all add: entry_image_def entry_pgtable_rows(2) entry_pgdir_def [THEN arg_cong [of _ _ length]])

lemma entry_vmap:
  assumes "P < 65536" "T < 65536" "P \<noteq> T" "t < 1024" "d < 1024"
  shows "vmap (entry_image P T m) P (d, t) = (if d = 0 \<or> d = 960 then Some (page2pa t OR (PTE_P OR PTE_W)) else None)"
proof -
  let ?m = "entry_image P T m"
  have d: "pword ?m P d = (if d = 0 then page2pa T OR PTE_P else if d = 960 then page2pa T OR (PTE_P OR PTE_W) else 0)"
    using entry_words(1) [OF assms(1-3,5)] entry_pgdir_nth [OF assms(5)] by simp
  have t: "pword ?m T t = page2pa t OR (PTE_P OR PTE_W)"
    using entry_words(2) [OF assms(1-4)] entry_pgtable_nth [OF assms(4)] by simp
  have "pte_page (page2pa T OR PTE_P) = T" "pte_page (page2pa T OR (PTE_P OR PTE_W)) = T"
    using assms(2) by (intro pte_page_entry; simp add: PTE_P_def PTE_W_def)+
  then show ?thesis using assms(4,5) d t by (auto simp: vmap_def table_slots_def table_of_def entry_flags self_slot_def)
qed

lemma unat_frame_offset:
  assumes "pte_page e = unat (PTX va)"
  shows "unat (PTE_ADDR e + PGOFF va) = unat va mod 2 ^ 22"
proof -
  have "unat va mod (4096 * 1024) = 4096 * (unat va div 4096 mod 1024) + unat va mod 4096" by (rule mod_mult2_eq)
  then have m: "unat (PTE_ADDR e) + unat (PGOFF va) = unat va mod 2 ^ 22"
    by (simp add: unat_PTE_ADDR assms unat_PTX unat_PGOFF)
  moreover have "unat va mod 2 ^ 22 < 2 ^ 32" by (rule less_trans [of _ "2 ^ 22"]) simp_all
  ultimately show ?thesis by (simp add: unat_word_ariths)
qed

lemma entry_pgdir_maps_va:
  assumes "P < 65536" "T < 65536" "P \<noteq> T"
  shows "(case vmap (entry_image P T m) P (key va) of
       None \<Rightarrow> \<not> va < 0x400000 \<and> \<not> (KERNBASE \<le> va \<and> va < KERNBASE + 0x400000)
     | Some e \<Rightarrow> (va < 0x400000 \<and> PTE_ADDR e + PGOFF va = va \<or>
                  KERNBASE \<le> va \<and> va < KERNBASE + 0x400000 \<and> PTE_ADDR e + PGOFF va = va - KERNBASE) \<and>
                 e AND PTE_W \<noteq> 0)"
    and "pword (entry_image P T m) P 0 AND PTE_W = 0"
    and "pword (entry_image P T m) P (unat (PDX KERNBASE)) AND PTE_W \<noteq> 0"
proof -
  let ?t = "unat (PTX va)" and ?d = "unat (PDX va)"
  let ?e = "page2pa ?t OR (PTE_P OR PTE_W)"
  have td: "?t < 1024" "?d < 1024" "key va = (?d, ?t)" by (simp_all add: PTX_less PDX_less key_def)
  have pp: "pte_page ?e = ?t" using td by (intro pte_page_entry) (simp_all add: PTE_P_def PTE_W_def)
  note sum = unat_frame_offset [OF pp]
  have low: "?d = 0 \<longleftrightarrow> va < 0x400000" by (simp add: unat_PDX word_less_nat_alt div_eq_0_iff)
  have high: "?d = 960 \<longleftrightarrow> KERNBASE \<le> va \<and> va < KERNBASE + 0x400000"
    by (simp add: unat_PDX word_less_nat_alt word_le_nat_alt KERNBASE_def) linarith
  have "PTE_ADDR ?e + PGOFF va = va" if "?d = 0"
  proof -
    have "unat va < 2 ^ 22" using that by (simp add: unat_PDX div_eq_0_iff)
    then show ?thesis using sum by (simp add: word_unat_eq_iff)
  qed
  moreover have "PTE_ADDR ?e + PGOFF va = va - KERNBASE" if "?d = 960"
  proof -
    have "KERNBASE \<le> va" "unat va div 2 ^ 22 = 960" using that high by (simp_all add: unat_PDX)
    then have "unat (va - KERNBASE) = unat va - 0xF0000000" by (simp add: unat_sub KERNBASE_def)
    also have "\<dots> = unat va mod 2 ^ 22"
      using \<open>unat va div 2 ^ 22 = 960\<close> div_mult_mod_eq [of "unat va" "2 ^ 22"] by simp
    finally show ?thesis using sum by (simp add: word_unat_eq_iff)
  qed
  ultimately show "(case vmap (entry_image P T m) P (key va) of
       None \<Rightarrow> \<not> va < 0x400000 \<and> \<not> (KERNBASE \<le> va \<and> va < KERNBASE + 0x400000)
     | Some e \<Rightarrow> (va < 0x400000 \<and> PTE_ADDR e + PGOFF va = va \<or>
                  KERNBASE \<le> va \<and> va < KERNBASE + 0x400000 \<and> PTE_ADDR e + PGOFF va = va - KERNBASE) \<and>
                 e AND PTE_W \<noteq> 0)"
    using entry_vmap [OF assms td(1,2), of m] entry_flags(5) [of ?t] low high by (auto simp: td(3))
  have "unat (PDX KERNBASE) = 960" by (simp add: unat_PDX KERNBASE_def)
  then show "pword (entry_image P T m) P 0 AND PTE_W = 0"
    "pword (entry_image P T m) P (unat (PDX KERNBASE)) AND PTE_W \<noteq> 0"
    using entry_words(1) [OF assms, of 0 m] entry_words(1) [OF assms, of 960 m] entry_pgdir_nth [of 0 T]
      entry_pgdir_nth [of 960 T] entry_flags(4,5) [of T] by simp_all
qed

text \<open>The page tables the kernel starts with: the addresses below 4 MB and those from KERNBASE to
  KERNBASE + 4 MB are mapped, both to the first 4 MB of physical memory, and no others are; the
  directory grants writing through the high addresses only.\<close>

lemma entry_pgdir_maps:
  assumes "P < 65536" "T < 65536" "P \<noteq> T"
  shows "(\<forall>va. case vmap (entry_image P T m) P (key va) of
       None \<Rightarrow> \<not> va < 0x400000 \<and> \<not> (KERNBASE \<le> va \<and> va < KERNBASE + 0x400000)
     | Some e \<Rightarrow> (va < 0x400000 \<and> PTE_ADDR e + PGOFF va = va \<or>
                  KERNBASE \<le> va \<and> va < KERNBASE + 0x400000 \<and> PTE_ADDR e + PGOFF va = va - KERNBASE) \<and>
                 e AND PTE_W \<noteq> 0) \<and>
    pword (entry_image P T m) P 0 AND PTE_W = 0 \<and>
    pword (entry_image P T m) P (unat (PDX KERNBASE)) AND PTE_W \<noteq> 0"
  by (intro conjI allI entry_pgdir_maps_va [OF assms])

end
