(* ===== verification/Bootmain.thy ===== *)
theory Bootmain
  imports Console_Out
begin

text \<open>
  boot/main.c: the boot loader, which reads the kernel's ELF image from the disk and jumps to it.
  It runs before paging, so an address is a physical address. The disk controller is the
  parameter \<open>io\<close>: the byte ports of the console, a 32-bit input port (which \<open>insl\<close> of inc/x86.h reads)
  and a 16-bit output port.
\<close>

section \<open>State\<close>

record 'd disk_ports = "'d ports" +
  inl :: "u32 \<Rightarrow> 'd \<Rightarrow> u32 \<times> 'd"
  outw :: "u32 \<Rightarrow> u16 \<Rightarrow> 'd \<Rightarrow> 'd"

record 'd boot =
  bdev :: 'd
  bmem :: memory

definition SECTSIZE :: u32 where [jos_consts]: "SECTSIZE = 512"
definition ELFHDR :: u32 where [jos_consts]: "ELFHDR = 0x10000"
definition ELF_MAGIC :: u32 where [jos_consts]: "ELF_MAGIC = 0x464C457F"

section \<open>Reading a sector\<close>

partial_function (option) waitdisk :: "'d disk_ports \<Rightarrow> 'd \<Rightarrow> 'd option" where
  "waitdisk io d =
     (case inb io 0x1F7 d of (v, d) \<Rightarrow> if v AND 0xC0 \<noteq> 0x40 then waitdisk io d else Some d)"

text \<open>\<open>insl\<close>: 32-bit words from a port to memory.\<close>

fun insl :: "'d disk_ports \<Rightarrow> u32 \<Rightarrow> u32 \<Rightarrow> nat \<Rightarrow> 'd boot \<Rightarrow> 'd boot" where
  "insl io port addr 0 s = s"
| "insl io port addr (Suc cnt) s =
     (let (v, d) = inl io port (bdev s)
      in insl io port (addr + 4) cnt (s\<lparr>bdev := d, bmem := st32 (bmem s) addr v\<rparr>))"

text \<open>The registers of the controller, for one sector.\<close>

definition start_read :: "'d disk_ports \<Rightarrow> u32 \<Rightarrow> 'd \<Rightarrow> 'd" where
  "start_read io offset d =
     (let d = outb io 0x1F2 1 d;
          d = outb io 0x1F3 (ucast offset) d;
          d = outb io 0x1F4 (ucast (drop_bit 8 offset)) d;
          d = outb io 0x1F5 (ucast (drop_bit 16 offset)) d;
          d = outb io 0x1F6 (ucast (drop_bit 24 offset OR 0xE0)) d
      in outb io 0x1F7 0x20 d)"

definition readsect :: "'d disk_ports \<Rightarrow> u32 \<Rightarrow> u32 \<Rightarrow> 'd boot \<Rightarrow> 'd boot option" where
  "readsect io dst offset s =
     Option.bind (waitdisk io (bdev s)) (\<lambda>d.
       Option.bind (waitdisk io (start_read io offset d)) (\<lambda>d.
         Some (insl io 0x1F0 dst (unat (SECTSIZE div 4)) (s\<lparr>bdev := d\<rparr>))))"

section \<open>Reading a segment\<close>

partial_function (option) readseg_loop :: "'d disk_ports \<Rightarrow> u32 \<Rightarrow> u32 \<Rightarrow> u32 \<Rightarrow> 'd boot \<Rightarrow> 'd boot option" where
  "readseg_loop io pa end_pa offset s =
     (if pa < end_pa
      then Option.bind (readsect io pa offset s) (readseg_loop io (pa + SECTSIZE) end_pa (offset + 1))
      else Some s)"

definition readseg :: "'d disk_ports \<Rightarrow> u32 \<Rightarrow> u32 \<Rightarrow> u32 \<Rightarrow> 'd boot \<Rightarrow> 'd boot option" where
  "readseg io pa count offset s =
     (let end_pa = pa + count;
          pa = pa AND NOT (SECTSIZE - 1);
          offset = offset div SECTSIZE + 1
      in readseg_loop io pa end_pa offset s)"

section \<open>bootmain\<close>

text \<open>The fields of the ELF header and of a program header that are read (inc/elf.h).\<close>

definition e_magic :: "memory \<Rightarrow> u32 \<Rightarrow> u32" where "e_magic m p = ld32 m p"
definition e_entry :: "memory \<Rightarrow> u32 \<Rightarrow> u32" where "e_entry m p = ld32 m (p + 24)"
definition e_phoff :: "memory \<Rightarrow> u32 \<Rightarrow> u32" where "e_phoff m p = ld32 m (p + 28)"
definition e_phnum :: "memory \<Rightarrow> u32 \<Rightarrow> u16" where "e_phnum m p = ld16 m (p + 44)"
definition p_offset :: "memory \<Rightarrow> u32 \<Rightarrow> u32" where "p_offset m p = ld32 m (p + 4)"
definition p_pa :: "memory \<Rightarrow> u32 \<Rightarrow> u32" where "p_pa m p = ld32 m (p + 12)"
definition p_memsz :: "memory \<Rightarrow> u32 \<Rightarrow> u32" where "p_memsz m p = ld32 m (p + 20)"

partial_function (option) load_segments :: "'d disk_ports \<Rightarrow> u32 \<Rightarrow> u32 \<Rightarrow> 'd boot \<Rightarrow> 'd boot option" where
  "load_segments io ph eph s =
     (if ph < eph
      then Option.bind (readseg io (p_pa (bmem s) ph) (p_memsz (bmem s) ph) (p_offset (bmem s) ph) s)
             (load_segments io (ph + 32) eph)
      else Some s)"

text \<open>The end of the boot loader: a jump to the kernel's entry point, or the endless loop.\<close>

datatype boot_end = Jump u32 | Spin

definition bootmain :: "'d disk_ports \<Rightarrow> 'd boot \<Rightarrow> (boot_end \<times> 'd boot) option" where
  "bootmain io s =
     Option.bind (readseg io ELFHDR (SECTSIZE * 8) 0 s) (\<lambda>s.
       if e_magic (bmem s) ELFHDR \<noteq> ELF_MAGIC
       then Some (Spin, s\<lparr>bdev := outw io 0x8A00 0x8E00 (outw io 0x8A00 0x8A00 (bdev s))\<rparr>)
       else let ph = ELFHDR + e_phoff (bmem s) ELFHDR;
                eph = ph + 32 * ucast (e_phnum (bmem s) ELFHDR)
            in Option.bind (load_segments io ph eph s) (\<lambda>s.
                 Some (Jump (e_entry (bmem s) ELFHDR), s)))"

section \<open>What a sector read leaves in memory\<close>

fun reads :: "'d disk_ports \<Rightarrow> u32 \<Rightarrow> nat \<Rightarrow> 'd \<Rightarrow> u32 list \<times> 'd" where
  "reads io port 0 d = ([], d)"
| "reads io port (Suc n) d = (let (v, d) = inl io port d; (vs, d) = reads io port n d in (v # vs, d))"

lemma insl_reads:
  "reads io port n (bdev s) = (ws, d) \<Longrightarrow> insl io port addr n s = s\<lparr>bdev := d, bmem := store_words (bmem s) addr ws\<rparr>"
  by (induction n arbitrary: addr s ws d) (auto simp: Let_def split: prod.splits)

lemma store_words_apply:
  "4 * length ws \<le> 2 ^ 32 \<Longrightarrow> store_words m p ws a =
    (if unat (a - p) < 4 * length ws then ucast (drop_bit (8 * (unat (a - p) mod 4)) (ws ! (unat (a - p) div 4))) else m a)"
proof (induction ws arbitrary: m p)
  case (Cons w ws)
  let ?o = "unat (a - p)"
  have IH: "store_words m p (w # ws) a = (if unat (a - (p + 4)) < 4 * length ws
      then ucast (drop_bit (8 * (unat (a - (p + 4)) mod 4)) (ws ! (unat (a - (p + 4)) div 4))) else st32 m p w a)"
    using Cons by simp
  have step: "unat (a - (p + 4)) < 4 * length ws \<longleftrightarrow> 4 \<le> ?o \<and> ?o < 4 * Suc (length ws)"
    using region_step4 [of "length ws" a p] Cons.prems by simp
  show ?case
  proof (cases "?o < 4")
    case True
    then have "?o mod 4 = ?o" "?o div 4 = 0" by simp_all
    then show ?thesis using True unfolding IH step by (simp add: st32_apply)
  next
    case False
    have d: "unat (a - (p + 4)) = ?o - 4" using unat_minus_4 [of "a - p"] False by (simp add: diff_diff_eq [symmetric])
    have "(?o - 4) mod 4 = ?o mod 4" "(?o - 4) div 4 = ?o div 4 - 1"
      using False by presburger+
    then show ?thesis using False unfolding IH step d by (auto simp: st32_apply nth_Cons')
  qed
qed simp

text \<open>
  The disk: \<open>img n i\<close> is word \<open>i\<close> of sector \<open>n\<close>. A controller with no command pending becomes ready, takes
  the address of a sector in its registers, becomes ready again, and delivers its 128 words.
\<close>

definition ata_disk :: "'d disk_ports \<Rightarrow> ('d \<Rightarrow> bool) \<Rightarrow> (nat \<Rightarrow> nat \<Rightarrow> u32) \<Rightarrow> bool" where
  "ata_disk io idle img \<longleftrightarrow> (\<forall>d. idle d \<longrightarrow> (\<exists>d1. waitdisk io d = Some d1 \<and>
     (\<forall>n. unat n < 2 ^ 24 \<longrightarrow> (\<exists>d2 d3. waitdisk io (start_read io n d1) = Some d2 \<and>
        reads io 0x1F0 128 d2 = (map (img (unat n)) [0..<128], d3) \<and> idle d3))))"

definition disk_byte :: "(nat \<Rightarrow> nat \<Rightarrow> u32) \<Rightarrow> nat \<Rightarrow> u8" where
  "disk_byte img k = ucast (drop_bit (8 * (k mod 4)) (img (k div 512) (k mod 512 div 4)))"

lemma readsect_loads:
  assumes "ata_disk io idle img" "idle (bdev s)" "unat n < 2 ^ 24"
  shows "\<exists>s'. readsect io dst n s = Some s' \<and> idle (bdev s') \<and> (\<forall>a. bmem s' a =
    (if unat (a - dst) < 512 then disk_byte img (512 * unat n + unat (a - dst)) else bmem s a))"
proof -
  obtain d1 d2 d3 where d: "waitdisk io (bdev s) = Some d1" "waitdisk io (start_read io n d1) = Some d2"
    "reads io 0x1F0 128 d2 = (map (img (unat n)) [0..<128], d3)" "idle d3"
    using assms unfolding ata_disk_def by blast
  let ?s = "s\<lparr>bdev := d3, bmem := store_words (bmem s) dst (map (img (unat n)) [0..<128])\<rparr>"
  have "readsect io dst n s = Some (insl io 0x1F0 dst 128 (s\<lparr>bdev := d2\<rparr>))"
    using d(1,2) by (simp add: readsect_def SECTSIZE_def)
  also have "\<dots> = Some ?s" using insl_reads [of io "0x1F0" 128 "s\<lparr>bdev := d2\<rparr>" _ d3 dst] d(3) by simp
  finally have r: "readsect io dst n s = Some ?s" .
  have "bmem ?s a = (if unat (a - dst) < 512 then disk_byte img (512 * unat n + unat (a - dst)) else bmem s a)" for a
  proof -
    let ?o = "unat (a - dst)"
    have "(512 * unat n + ?o) mod 4 = ?o mod 4" by (simp add: mod_add_left_eq [symmetric] mod_mult_left_eq [symmetric])
    moreover have "?o < 512 \<Longrightarrow> (512 * unat n + ?o) div 512 = unat n \<and> (512 * unat n + ?o) mod 512 = ?o" by simp
    ultimately show ?thesis by (auto simp: store_words_apply disk_byte_def)
  qed
  then show ?thesis using r d(4) by auto
qed

lemma readseg_loop_loads:
  assumes "ata_disk io idle img"
  shows "idle (bdev s) \<Longrightarrow> unat e \<le> unat pa + 512 * k \<Longrightarrow> unat pa + 512 * k < 2 ^ 32 \<Longrightarrow>
    (0 < k \<longrightarrow> unat pa + 512 * (k - 1) < unat e) \<Longrightarrow> unat n + k \<le> 2 ^ 24 \<Longrightarrow>
    \<exists>s'. readseg_loop io pa e n s = Some s' \<and> idle (bdev s') \<and> (\<forall>a. bmem s' a =
      (if unat (a - pa) < 512 * k then disk_byte img (512 * unat n + unat (a - pa)) else bmem s a))"
proof (induction k arbitrary: pa n s)
  case 0
  then have "\<not> pa < e" by (simp add: word_less_nat_alt)
  then show ?case using 0 by (subst readseg_loop.simps) auto
next
  case (Suc k)
  have lt: "pa < e" using Suc.prems(4) by (simp add: word_less_nat_alt)
  have n: "unat n < 2 ^ 24" using Suc.prems(5) by simp
  obtain s1 where s1: "readsect io pa n s = Some s1" "idle (bdev s1)"
    "\<forall>a. bmem s1 a = (if unat (a - pa) < 512 then disk_byte img (512 * unat n + unat (a - pa)) else bmem s a)"
    using readsect_loads [OF assms Suc.prems(1) n] by blast
  have u: "unat (pa + SECTSIZE) = unat pa + 512" "unat (n + 1) = unat n + 1"
    using Suc.prems(3,5) by (simp_all add: SECTSIZE_def unat_word_ariths)
  have "0 < k \<longrightarrow> unat pa + 512 + 512 * (k - 1) < unat e" using Suc.prems(4) by (cases k) auto
  then obtain s2 where s2: "readseg_loop io (pa + SECTSIZE) e (n + 1) s1 = Some s2" "idle (bdev s2)"
    "\<forall>a. bmem s2 a = (if unat (a - (pa + SECTSIZE)) < 512 * k
      then disk_byte img (512 * (unat n + 1) + unat (a - (pa + SECTSIZE))) else bmem s1 a)"
    using Suc.IH [of s1 "pa + SECTSIZE" "n + 1"] s1(2) Suc.prems u by auto
  have "bmem s2 a = (if unat (a - pa) < 512 * Suc k then disk_byte img (512 * unat n + unat (a - pa)) else bmem s a)" for a
  proof (cases "unat (a - pa) < 512")
    case True
    then have "unat (a - (pa + SECTSIZE)) = unat (a - pa) + 2 ^ 32 - 512"
      by (simp only: diff_diff_eq [symmetric], subst unat_diff_wrap) (simp add: SECTSIZE_def)
    then have "\<not> unat (a - (pa + SECTSIZE)) < 512 * k" using Suc.prems(3) by simp
    then show ?thesis using True s1(3) s2(3) by simp
  next
    case False
    then have "unat (a - (pa + SECTSIZE)) = unat (a - pa) - 512"
      by (simp only: diff_diff_eq [symmetric], subst unat_diff_wrap) (simp add: SECTSIZE_def)
    moreover from this have "512 * (unat n + 1) + unat (a - (pa + SECTSIZE)) = 512 * unat n + unat (a - pa)"
      "unat (a - (pa + SECTSIZE)) < 512 * k \<longleftrightarrow> unat (a - pa) < 512 * Suc k" using False by auto
    ultimately show ?thesis using False s1(3) s2(3) by simp
  qed
  then show ?case using lt s1(1) s2 by (subst readseg_loop.simps) auto
qed

lemma sector_base: "unat (pa AND NOT (SECTSIZE - 1)) = unat pa - unat pa mod 512"
proof -
  have m: "SECTSIZE - 1 = mask 9" by (simp add: SECTSIZE_def mask_eq_exp_minus_1)
  have "pa AND NOT (mask 9) = push_bit 9 (drop_bit 9 pa)" by (rule bit_word_eqI) (auto simp: bit_simps)
  then have "unat (pa AND NOT (SECTSIZE - 1)) = unat (drop_bit 9 pa * 512)" unfolding m by (simp add: push_bit_eq_mult)
  also have "\<dots> = unat pa div 512 * 512"
    using unat32_bound [of pa] by (simp add: unat_word_ariths drop_bit_eq_div unat_div)
  finally show ?thesis by (simp add: minus_mod_eq_div_mult)
qed

lemma sectors_up: "(x :: nat) \<le> 512 * ((x + 511) div 512)" "512 * ((x + 511) div 512) \<le> x + 511"
proof -
  have "512 * ((x + 511) div 512) + (x + 511) mod 512 = x + 511" by (rule mult_div_mod_eq)
  moreover have "(x + 511) mod 512 < 512" by (rule mod_less_divisor) simp
  ultimately show "x \<le> 512 * ((x + 511) div 512)" "512 * ((x + 511) div 512) \<le> x + 511" by linarith+
qed

lemma readseg_loads:
  assumes ata: "ata_disk io idle img" "idle (bdev s)" and off: "unat offset mod 512 = unat pa mod 512"
    and fits: "unat pa + unat count + 512 < 2 ^ 32"
  shows "\<exists>s'. readseg io pa count offset s = Some s' \<and> idle (bdev s') \<and>
    (\<forall>k<unat count. bmem s' (pa + word_of_nat k) = disk_byte img (512 + unat offset + k)) \<and>
    (\<forall>a. unat a + 512 \<le> unat pa \<or> unat pa + unat count + 512 \<le> unat a \<longrightarrow> bmem s' a = bmem s a)"
proof -
  let ?b = "pa AND NOT (SECTSIZE - 1)" and ?r = "unat pa mod 512" and ?n = "offset div SECTSIZE + 1"
  define k where "k = (?r + unat count + 511) div 512"
  have b: "unat ?b + ?r = unat pa" using sector_base [of pa] by simp
  have r: "?r < 512" by simp
  have e: "unat (pa + count) = unat pa + unat count" using fits by (simp add: unat_word_ariths)
  have k: "?r + unat count \<le> 512 * k" "512 * k \<le> ?r + unat count + 511" 
    unfolding k_def using sectors_up [of "?r + unat count"] by simp_all
  have n: "unat ?n = unat offset div 512 + 1"
    using unat32_bound [of offset] by (simp add: SECTSIZE_def unat_word_ariths unat_div)
  have top: "unat ?b + 512 * k < 2 ^ 32" using k b fits by linarith
  have "unat offset div 512 < 2 ^ 23" using unat32_bound [of offset] by simp
  moreover have "k \<le> 2 ^ 23" using top by simp
  ultimately have nk: "unat ?n + k \<le> 2 ^ 24" unfolding n by simp
  have last: "0 < k \<longrightarrow> unat ?b + 512 * (k - 1) < unat (pa + count)"
    using k b e by auto
  obtain s' where s': "readseg_loop io ?b (pa + count) ?n s = Some s'" "idle (bdev s')"
    "\<forall>a. bmem s' a = (if unat (a - ?b) < 512 * k then disk_byte img (512 * unat ?n + unat (a - ?b)) else bmem s a)"
    using readseg_loop_loads [OF ata(1), of s "pa + count" ?b k ?n] ata(2) k b e fits last nk by auto
  have "bmem s' (pa + word_of_nat j) = disk_byte img (512 + unat offset + j)" if "j < unat count" for j
  proof -
    have "unat (pa + word_of_nat j) = unat pa + j"
      using that fits by (simp add: unat_word_ariths unat_of_nat32)
    then have d: "unat (pa + word_of_nat j - ?b) = ?r + j" using b by (simp add: unat_diff_wrap)
    have eq: "512 * unat ?n + (?r + j) = 512 + unat offset + j" 
      using mult_div_mod_eq [of 512 "unat offset"] unfolding n off by (simp add: distrib_left)
    have "unat (pa + word_of_nat j - ?b) < 512 * k" using k that unfolding d by linarith
    then show ?thesis using s'(3) eq unfolding d [symmetric] by metis
  qed
  moreover have "bmem s' a = bmem s a" if "unat a + 512 \<le> unat pa \<or> unat pa + unat count + 512 \<le> unat a" for a
  proof -
    have "\<not> unat (a - ?b) < 512 * k" using that b r k top fits unat32_bound [of a]
      by (simp add: unat_diff_wrap) linarith
    then show ?thesis using s'(3) by simp
  qed
  ultimately show ?thesis using s'(1,2) by (auto simp: readseg_def Let_def)
qed

section \<open>The kernel image\<close>

text \<open>The file on the disk from its second sector on, as a memory that begins at 0.\<close>

definition img_mem :: "(nat \<Rightarrow> nat \<Rightarrow> u32) \<Rightarrow> memory" where
  "img_mem img a = disk_byte img (512 + unat a)"

lemma ld32_shift: "(\<And>k. k < 4 \<Longrightarrow> m (a + word_of_nat k) = m' (b + word_of_nat k)) \<Longrightarrow> ld32 m a = ld32 m' b"
proof -
  assume *: "\<And>k. k < 4 \<Longrightarrow> m (a + word_of_nat k) = m' (b + word_of_nat k)"
  show ?thesis using * [of 0] * [of 1] * [of 2] * [of 3] by (simp add: ld32_def)
qed

lemma ld16_shift: "(\<And>k. k < 2 \<Longrightarrow> m (a + word_of_nat k) = m' (b + word_of_nat k)) \<Longrightarrow> ld16 m a = ld16 m' b"
proof -
  assume *: "\<And>k. k < 2 \<Longrightarrow> m (a + word_of_nat k) = m' (b + word_of_nat k)"
  show ?thesis using * [of 0] * [of 1] by (simp add: ld16_def)
qed

lemma split512: "x < 512 \<Longrightarrow> (512 * n + x) div 512 = n \<and> (512 * n + x) mod 512 = (x :: nat)"
  by simp

lemma img_mem_byte:
  assumes "unat a mod 4 = 0" "k < 4"
  shows "img_mem img (a + word_of_nat k) = ucast (drop_bit (8 * k) (img (1 + unat a div 512) (unat a mod 512 div 4)))"
proof -
  have u: "unat (a + word_of_nat k) = unat a + k" using assms by (rule unat_add_small)
  obtain q where q: "unat a = 4 * q" using assms(1) by (metis mod_0_imp_dvd dvdE)
  obtain a' b where ab: "q = 128 * a' + b" "b < 128"
    by (metis mult_div_mod_eq mod_less_divisor zero_less_numeral)
  have e: "512 + (4 * q + k) = 512 * (1 + a') + (4 * b + k)" "4 * q = 512 * a' + 4 * b" using ab by simp_all
  have l: "4 * b + k < 512" "4 * b < 512" using ab(2) assms(2) by linarith+
  have "(512 + (4 * q + k)) div 512 = 1 + a'" "(512 + (4 * q + k)) mod 512 = 4 * b + k"
    unfolding e(1) using split512 [OF l(1), of "1 + a'"] by blast+
  moreover have "4 * q div 512 = a'" "4 * q mod 512 = 4 * b" unfolding e(2) using split512 [OF l(2), of a'] by blast+
  moreover have "(4 * b + k) div 4 = 4 * b div 4" using assms(2) by simp
  moreover have "(512 + (4 * q + k)) mod 4 = k" using assms(2) by presburger
  ultimately have "(512 + (4 * q + k)) div 512 = 1 + 4 * q div 512" "(512 + (4 * q + k)) mod 4 = k"
    "(512 + (4 * q + k)) mod 512 div 4 = 4 * q mod 512 div 4" by simp_all
  then show ?thesis by (simp add: img_mem_def disk_byte_def u q add.assoc)
qed

lemma img_mem_word:
  assumes "unat a mod 4 = 0"
  shows "ld32 (img_mem img) a = img (1 + unat a div 512) (unat a mod 512 div 4)"
  using img_mem_byte [OF assms, of 0 img] img_mem_byte [OF assms, of 1 img] img_mem_byte [OF assms, of 2 img]
    img_mem_byte [OF assms, of 3 img] word32_bytes by (simp add: ld32_def)

text \<open>The ELF header and the program headers are in the first page, and that page is in memory.\<close>

definition header_loaded :: "(nat \<Rightarrow> nat \<Rightarrow> u32) \<Rightarrow> memory \<Rightarrow> bool" where
  "header_loaded img m \<longleftrightarrow> (\<forall>k<4096. m (ELFHDR + word_of_nat k) = img_mem img (word_of_nat k))"

lemma header_field:
  assumes "header_loaded img m" "unat o' + 4 \<le> 4096"
  shows "ld32 m (ELFHDR + o') = ld32 (img_mem img) o'" "ld16 m (ELFHDR + o') = ld16 (img_mem img) o'"
proof -
  have "m (ELFHDR + o' + word_of_nat k) = img_mem img (o' + word_of_nat k)" if "k < 4" for k
  proof -
    have "o' + word_of_nat k = word_of_nat (unat o' + k)" by simp
    then show ?thesis using assms that unfolding header_loaded_def
      by (metis add.assoc add_less_cancel_left order_less_le_trans)
  qed
  then show "ld32 m (ELFHDR + o') = ld32 (img_mem img) o'" "ld16 m (ELFHDR + o') = ld16 (img_mem img) o'"
    by (auto intro!: ld32_shift ld16_shift)
qed

text \<open>Program header \<open>j\<close> of the image, and the addresses its sectors may reach.\<close>

definition ph_at :: "(nat \<Rightarrow> nat \<Rightarrow> u32) \<Rightarrow> nat \<Rightarrow> u32" where
  "ph_at img j = e_phoff (img_mem img) 0 + word_of_nat (32 * j)"

abbreviation seg_pa :: "(nat \<Rightarrow> nat \<Rightarrow> u32) \<Rightarrow> nat \<Rightarrow> u32" where
  "seg_pa img j \<equiv> p_pa (img_mem img) (ph_at img j)"

abbreviation seg_size :: "(nat \<Rightarrow> nat \<Rightarrow> u32) \<Rightarrow> nat \<Rightarrow> nat" where
  "seg_size img j \<equiv> unat (p_memsz (img_mem img) (ph_at img j))"

abbreviation seg_offset :: "(nat \<Rightarrow> nat \<Rightarrow> u32) \<Rightarrow> nat \<Rightarrow> nat" where
  "seg_offset img j \<equiv> unat (p_offset (img_mem img) (ph_at img j))"

definition seg_clear :: "(nat \<Rightarrow> nat \<Rightarrow> u32) \<Rightarrow> nat \<Rightarrow> u32 \<Rightarrow> bool" where
  "seg_clear img j a \<longleftrightarrow> unat a + 512 \<le> unat (seg_pa img j) \<or> unat (seg_pa img j) + seg_size img j + 512 \<le> unat a"

text \<open>
  A segment the loader can read: at the same offset in its sector in the file and in memory, above
  the header page, and below the end of the address space.
\<close>

definition seg_ok :: "(nat \<Rightarrow> nat \<Rightarrow> u32) \<Rightarrow> nat \<Rightarrow> bool" where
  "seg_ok img j \<longleftrightarrow> seg_offset img j mod 512 = unat (seg_pa img j) mod 512 \<and>
     0x11200 \<le> unat (seg_pa img j) \<and> unat (seg_pa img j) + seg_size img j + 512 < 2 ^ 32"

definition elf_ok :: "(nat \<Rightarrow> nat \<Rightarrow> u32) \<Rightarrow> nat \<Rightarrow> bool" where
  "elf_ok img n \<longleftrightarrow> unat (e_phoff (img_mem img) 0) + 32 * n \<le> 4096 \<and> (\<forall>j<n. seg_ok img j)"

lemma unat_ph_at: "elf_ok img n \<Longrightarrow> j \<le> n \<Longrightarrow> unat (ph_at img j) = unat (e_phoff (img_mem img) 0) + 32 * j"
  unfolding ph_at_def elf_ok_def by (simp add: unat_word_ariths unat_of_nat32)

lemma header_kept:
  assumes "header_loaded img m" "seg_ok img j" "\<forall>a. seg_clear img j a \<longrightarrow> m' a = m a"
  shows "header_loaded img m'"
  unfolding header_loaded_def
proof (intro allI impI)
  fix k :: nat assume k: "k < 4096"
  then have "unat (ELFHDR + word_of_nat k) = 0x10000 + k"
    by (simp add: ELFHDR_def unat_word_ariths unat_of_nat32)
  then have "seg_clear img j (ELFHDR + word_of_nat k)" using assms(2) k by (simp add: seg_clear_def seg_ok_def)
  then show "m' (ELFHDR + word_of_nat k) = img_mem img (word_of_nat k)"
    using assms(1,3) k by (simp add: header_loaded_def)
qed

lemma load_segments_loads:
  assumes ata: "ata_disk io idle img" and elf: "elf_ok img n"
  shows "idle (bdev s) \<Longrightarrow> header_loaded img (bmem s) \<Longrightarrow> i \<le> n \<Longrightarrow>
    \<exists>s'. load_segments io (ELFHDR + ph_at img i) (ELFHDR + ph_at img n) s = Some s' \<and> header_loaded img (bmem s') \<and>
      (\<forall>a. (\<forall>j. i \<le> j \<longrightarrow> j < n \<longrightarrow> seg_clear img j a) \<longrightarrow> bmem s' a = bmem s a) \<and>
      (\<forall>j k. i \<le> j \<longrightarrow> j < n \<longrightarrow> k < seg_size img j \<longrightarrow>
        (\<forall>l. j < l \<longrightarrow> l < n \<longrightarrow> seg_clear img l (seg_pa img j + word_of_nat k)) \<longrightarrow>
        bmem s' (seg_pa img j + word_of_nat k) = disk_byte img (512 + seg_offset img j + k))"
proof (induction "n - i" arbitrary: i s)
  case 0
  then have "load_segments io (ELFHDR + ph_at img i) (ELFHDR + ph_at img n) s = Some s"
    by (subst load_segments.simps) simp
  then show ?case using 0 by auto
next
  case (Suc d)
  have i: "i < n" "seg_ok img i" using Suc.hyps(2) elf by (simp_all add: elf_ok_def)
  have u: "unat (ph_at img i) + 32 \<le> 4096" "unat (ph_at img i) < unat (ph_at img n)" "unat (ph_at img n) \<le> 4096"
    using unat_ph_at [OF elf, of i] unat_ph_at [OF elf, of n] elf i(1) by (auto simp: elf_ok_def)
  have E: "unat (ELFHDR + ph_at img j) = 0x10000 + unat (ph_at img j)" if "unat (ph_at img j) \<le> 4096" for j
    using that by (simp add: ELFHDR_def unat_word_ariths)
  have lt: "ELFHDR + ph_at img i < ELFHDR + ph_at img n" using E [of i] E [of n] u by (simp add: word_less_nat_alt)
  have f: "ld32 (bmem s) (ELFHDR + ph_at img i + c) = ld32 (img_mem img) (ph_at img i + c)" if "unat c \<le> 28" for c
    using header_field(1) [OF Suc.prems(2), of "ph_at img i + c"] that u
    by (simp add: add.assoc unat_word_ariths)
  have fields: "p_pa (bmem s) (ELFHDR + ph_at img i) = seg_pa img i"
    "p_memsz (bmem s) (ELFHDR + ph_at img i) = p_memsz (img_mem img) (ph_at img i)"
    "p_offset (bmem s) (ELFHDR + ph_at img i) = p_offset (img_mem img) (ph_at img i)"
    using f [of 12] f [of 20] f [of 4] by (simp_all add: p_pa_def p_memsz_def p_offset_def)
  obtain s1 where s1: "readseg io (seg_pa img i) (p_memsz (img_mem img) (ph_at img i)) (p_offset (img_mem img) (ph_at img i)) s = Some s1"
    "idle (bdev s1)"
    "\<forall>k. k < seg_size img i \<longrightarrow> bmem s1 (seg_pa img i + word_of_nat k) = disk_byte img (512 + seg_offset img i + k)"
    "\<forall>a. seg_clear img i a \<longrightarrow> bmem s1 a = bmem s a"
    using readseg_loads [OF ata Suc.prems(1)] i(2) unfolding seg_ok_def seg_clear_def by blast
  have d: "d = n - (i + 1)" using Suc.hyps(2) by simp
  have nxt: "ELFHDR + ph_at img i + 32 = ELFHDR + ph_at img (i + 1)" by (simp add: ph_at_def add.assoc)
  obtain s2 where s2: "load_segments io (ELFHDR + ph_at img (i + 1)) (ELFHDR + ph_at img n) s1 = Some s2"
    "header_loaded img (bmem s2)"
    "\<forall>a. (\<forall>j. i + 1 \<le> j \<longrightarrow> j < n \<longrightarrow> seg_clear img j a) \<longrightarrow> bmem s2 a = bmem s1 a"
    "\<forall>j k. i + 1 \<le> j \<longrightarrow> j < n \<longrightarrow> k < seg_size img j \<longrightarrow>
        (\<forall>l. j < l \<longrightarrow> l < n \<longrightarrow> seg_clear img l (seg_pa img j + word_of_nat k)) \<longrightarrow>
        bmem s2 (seg_pa img j + word_of_nat k) = disk_byte img (512 + seg_offset img j + k)"
    using Suc.hyps(1) [OF d s1(2) header_kept [OF Suc.prems(2) i(2) s1(4)]] i(1) by auto
  have run: "load_segments io (ELFHDR + ph_at img i) (ELFHDR + ph_at img n) s = Some s2"
    using lt s1(1) s2(1) by (subst load_segments.simps) (simp add: fields nxt)
  have "bmem s2 a = bmem s a" if "\<forall>j. i \<le> j \<longrightarrow> j < n \<longrightarrow> seg_clear img j a" for a
    using that s2(3) s1(4) i(1) by simp
  moreover have "bmem s2 (seg_pa img j + word_of_nat k) = disk_byte img (512 + seg_offset img j + k)"
    if j: "i \<le> j" "j < n" "k < seg_size img j" "\<forall>l. j < l \<longrightarrow> l < n \<longrightarrow> seg_clear img l (seg_pa img j + word_of_nat k)" for j k
  proof (cases "j = i")
    case True
    then have "bmem s2 (seg_pa img i + word_of_nat k) = bmem s1 (seg_pa img i + word_of_nat k)"
      using s2(3) j(4) by auto
    then show ?thesis using True s1(3) j(3) by simp
  next
    case False
    then show ?thesis using s2(4) j by simp
  qed
  ultimately show ?case using run s2(2) by blast
qed

lemma header_read:
  assumes "ata_disk io idle img" "idle (bdev s)"
  shows "\<exists>s'. readseg io ELFHDR (SECTSIZE * 8) 0 s = Some s' \<and> idle (bdev s') \<and> header_loaded img (bmem s')"
proof -
  obtain s' where "readseg io ELFHDR (SECTSIZE * 8) 0 s = Some s'" "idle (bdev s')"
    "\<forall>k<4096. bmem s' (ELFHDR + word_of_nat k) = disk_byte img (512 + k)"
    using readseg_loads [OF assms, of 0 ELFHDR "SECTSIZE * 8"] by (auto simp: SECTSIZE_def ELFHDR_def)
  moreover have "img_mem img (word_of_nat k) = disk_byte img (512 + k)" if "k < 4096" for k
    using that by (simp add: img_mem_def unat_of_nat32)
  ultimately show ?thesis by (auto simp: header_loaded_def)
qed

section \<open>A small disk\<close>

text \<open>A controller that is always ready, with the registers last written and the number of words read.\<close>

type_synonym small_dev = "(u32 \<Rightarrow> u8) \<times> nat"

definition small_sector :: "(u32 \<Rightarrow> u8) \<Rightarrow> nat" where
  "small_sector r = unat (r 0x1F3) + 256 * unat (r 0x1F4) + 65536 * unat (r 0x1F5)"

definition small_disk :: "(nat \<Rightarrow> nat \<Rightarrow> u32) \<Rightarrow> small_dev disk_ports" where
  "small_disk img = \<lparr>inb = (\<lambda>p d. (0x40, d)), outb = (\<lambda>p v d. ((fst d)(p := v), 0)),
     inl = (\<lambda>p d. (img (small_sector (fst d)) (snd d), (fst d, snd d + 1))), outw = (\<lambda>p v d. d)\<rparr>"

lemma small_disk_reads: "reads (small_disk img) p n (r, i) = (map (img (small_sector r)) [i..<i + n], (r, i + n))"
  by (induction n arbitrary: i) (simp_all add: small_disk_def upt_conv_Cons del: upt_Suc)

lemma small_disk_start:
  assumes "unat n < 2 ^ 24"
  shows "small_sector (fst (start_read (small_disk img) n d)) = unat n" "snd (start_read (small_disk img) n d) = 0"
proof -
  let ?n = "unat n"
  have u: "unat (ucast (drop_bit k n) :: u8) = ?n div 2 ^ k mod 256" for k
    by (simp only: unsigned_ucast_eq unat_drop_bit_eq) (simp add: take_bit_eq_mod drop_bit_eq_div)
  obtain x y where x: "?n = 256 * x + ?n mod 256" "x = 256 * y + x mod 256" "x = ?n div 256" "y = x div 256"
    by (metis mult_div_mod_eq)
  have "y < 256" using assms unfolding x(3,4) by (simp add: div_mult2_eq [symmetric])
  have "?n div 2 ^ 8 = x" "?n div 2 ^ 16 = y" unfolding x(3,4) by (simp_all add: div_mult2_eq [symmetric])
  then have e: "?n div 2 ^ 0 mod 256 + 256 * (?n div 2 ^ 8 mod 256) + 65536 * (?n div 2 ^ 16 mod 256) = ?n"
    using x(1,2) \<open>y < 256\<close> by simp
  have "small_sector (fst (start_read (small_disk img) n d)) = unat (ucast (drop_bit 0 n) :: u8) +
      256 * unat (ucast (drop_bit 8 n) :: u8) + 65536 * unat (ucast (drop_bit 16 n) :: u8)"
    by (simp add: small_sector_def start_read_def small_disk_def Let_def)
  then show "small_sector (fst (start_read (small_disk img) n d)) = unat n" unfolding u e .
  show "snd (start_read (small_disk img) n d) = 0" by (simp add: start_read_def small_disk_def Let_def)
qed

lemma small_disk_ata: "ata_disk (small_disk img) (\<lambda>d. True) img"
proof -
  have w: "waitdisk (small_disk img) d = Some d" for d
    by (subst waitdisk.simps) (simp add: small_disk_def)
  have "\<exists>d3. reads (small_disk img) 0x1F0 128 (start_read (small_disk img) n d) = (map (img (unat n)) [0..<128], d3)"
    if "unat n < 2 ^ 24" for n d
    using small_disk_start [OF that, of img d] small_disk_reads [of img "0x1F0" 128] by (cases "start_read (small_disk img) n d") simp
  then show ?thesis by (simp add: ata_disk_def w)
qed

definition small_boot :: "small_dev boot" where
  "small_boot = \<lparr>bdev = (\<lambda>_. 0, 0), bmem = (\<lambda>_. 0)\<rparr>"

text \<open>An image with one segment of 8 bytes at address \<open>0x100000\<close>, from byte 4096 of the file.\<close>

definition small_elf :: "nat \<Rightarrow> nat \<Rightarrow> u32" where
  "small_elf n i = (if n = 1 then [ELF_MAGIC, 0, 0, 0, 0, 0, 0x10000C, 52, 0, 0, 0, 1, 0, 0, 4096, 0, 0x100000, 0, 8] ! i
     else if n = 9 then word_of_nat (7 + i) else 0)"

lemma small_elf_fields: "e_entry (img_mem small_elf) 0 = 0x10000C" "e_phoff (img_mem small_elf) 0 = 52"
  "e_phnum (img_mem small_elf) 0 = 1" "elf_ok small_elf 1" "seg_pa small_elf 0 = 0x100000" "seg_size small_elf 0 = 8"
  "seg_offset small_elf 0 = 4096"
proof -
  have n: "e_phnum m p = ucast (ld32 m (p + 44))" for m p
    unfolding e_phnum_def by (rule bit_word_eqI) (auto simp: ld16_def ld32_def bit_simps add.assoc)
  show f: "e_entry (img_mem small_elf) 0 = 0x10000C" "e_phoff (img_mem small_elf) 0 = 52" "e_phnum (img_mem small_elf) 0 = 1"
    by (simp_all add: e_entry_def e_phoff_def n img_mem_word small_elf_def)
  show s: "seg_pa small_elf 0 = 0x100000" "seg_size small_elf 0 = 8" "seg_offset small_elf 0 = 4096"
    by (simp_all add: ph_at_def f p_pa_def p_memsz_def p_offset_def img_mem_word small_elf_def)
  show "elf_ok small_elf 1" by (simp add: elf_ok_def seg_ok_def f s)
qed

section \<open>Properties\<close>

text \<open>readseg with a working disk: the bytes of the file from the offset on arrive at the address, when
  both are at the same offset in a sector; what is a sector away from the segment is not changed.\<close>

lemma readseg_loads_segment:
  assumes "ata_disk io idle img" "idle (bdev s)" "unat offset mod 512 = unat pa mod 512"
    "unat pa + unat count + 512 < 2 ^ 32"
  shows "\<exists>s'. readseg io pa count offset s = Some s' \<and> idle (bdev s') \<and>
    (\<forall>k<unat count. bmem s' (pa + word_of_nat k) = disk_byte img (512 + unat offset + k)) \<and>
    (\<forall>a. unat a + 512 \<le> unat pa \<or> unat pa + unat count + 512 \<le> unat a \<longrightarrow> bmem s' a = bmem s a)"
  using assms by (rule readseg_loads)

text \<open>C20. bootmain on a disk that holds an ELF image: it ends with a jump to the entry point of the image, and
  every segment of the image is in memory, as long as no segment read later comes within a sector
  of it.\<close>

theorem bootmain_loads_kernel:
  assumes "ata_disk io idle img" "idle (bdev s)" "img 1 0 = ELF_MAGIC" "elf_ok img (unat (e_phnum (img_mem img) 0))"
  shows "\<exists>s'. bootmain io s = Some (Jump (e_entry (img_mem img) 0), s') \<and>
    (\<forall>j k. j < unat (e_phnum (img_mem img) 0) \<longrightarrow> k < seg_size img j \<longrightarrow>
      (\<forall>l. j < l \<longrightarrow> l < unat (e_phnum (img_mem img) 0) \<longrightarrow> seg_clear img l (seg_pa img j + word_of_nat k)) \<longrightarrow>
      bmem s' (seg_pa img j + word_of_nat k) = disk_byte img (512 + seg_offset img j + k))"
proof -
  let ?n = "unat (e_phnum (img_mem img) 0)"
  obtain s1 where s1: "readseg io ELFHDR (SECTSIZE * 8) 0 s = Some s1" "idle (bdev s1)" "header_loaded img (bmem s1)"
    using header_read [OF assms(1,2)] by blast
  have f: "ld32 m (ELFHDR + c) = ld32 (img_mem img) c" "ld16 m (ELFHDR + c) = ld16 (img_mem img) c"
    if "header_loaded img m" "unat c \<le> 4092" for m c
    using header_field [OF that(1), of c] that(2) by simp_all
  obtain s2 where s2: "load_segments io (ELFHDR + ph_at img 0) (ELFHDR + ph_at img ?n) s1 = Some s2"
    "header_loaded img (bmem s2)"
    "\<forall>j k. 0 \<le> j \<longrightarrow> j < ?n \<longrightarrow> k < seg_size img j \<longrightarrow>
        (\<forall>l. j < l \<longrightarrow> l < ?n \<longrightarrow> seg_clear img l (seg_pa img j + word_of_nat k)) \<longrightarrow>
        bmem s2 (seg_pa img j + word_of_nat k) = disk_byte img (512 + seg_offset img j + k)"
    using load_segments_loads [OF assms(1,4) s1(2,3), of 0] by blast
  have m: "e_magic (bmem s1) ELFHDR = ELF_MAGIC"
    using f(1) [OF s1(3), of 0] assms(3) img_mem_word [of 0 img] by (simp add: e_magic_def)
  have o: "e_phoff (bmem s1) ELFHDR = e_phoff (img_mem img) 0" "e_phnum (bmem s1) ELFHDR = e_phnum (img_mem img) 0"
    using f(1) [OF s1(3), of 28] f(2) [OF s1(3), of 44] by (simp_all add: e_phoff_def e_phnum_def)
  have e: "e_entry (bmem s2) ELFHDR = e_entry (img_mem img) 0"
    using f(1) [OF s2(2), of 24] by (simp add: e_entry_def)
  have p: "ELFHDR + ph_at img 0 = ELFHDR + e_phoff (img_mem img) 0"
    "ELFHDR + ph_at img ?n = ELFHDR + e_phoff (img_mem img) 0 + 32 * ucast (e_phnum (img_mem img) 0)"
    by (simp_all add: ph_at_def add.assoc)
  have "bootmain io s = Some (Jump (e_entry (img_mem img) 0), s2)"
    using s1(1) s2(1) m by (simp add: bootmain_def Let_def o e p)
  then show ?thesis using s2(3) by blast
qed

theorem bootmain_loads_kernel_witness:
  "\<exists>s'. bootmain (small_disk small_elf) small_boot = Some (Jump 0x10000C, s') \<and>
    bmem s' 0x100000 = 7"
proof -
  have "small_elf 1 0 = ELF_MAGIC" by (simp add: small_elf_def)
  from bootmain_loads_kernel [where idle = "\<lambda>_. True" and s = small_boot and img = small_elf, OF small_disk_ata _ this]
  obtain s' where s': "bootmain (small_disk small_elf) small_boot = Some (Jump 0x10000C, s')"
    "\<forall>k<8. bmem s' (0x100000 + word_of_nat k) = disk_byte small_elf (512 + 4096 + k)"
    using small_elf_fields by auto
  from s'(2) have "bmem s' (0x100000 + word_of_nat 0) = disk_byte small_elf (512 + 4096 + 0)"
    by (rule allE [of _ 0]) simp
  moreover have "disk_byte small_elf (512 + 4096 + 0) = 7" by (simp add: disk_byte_def small_elf_def)
  ultimately show ?thesis using s'(1) by simp
qed

text \<open>bootmain on a disk whose second sector does not begin with the magic number of ELF files loads
  nothing but the first page, reports to the port 0x8A00 and spins.\<close>

lemma bootmain_rejects:
  assumes "ata_disk io idle img" "idle (bdev s)" "img 1 0 \<noteq> ELF_MAGIC"
  shows "\<exists>s'. bootmain io s = Some (Spin, s')"
proof -
  obtain s1 where s1: "readseg io ELFHDR (SECTSIZE * 8) 0 s = Some s1" "header_loaded img (bmem s1)"
    using header_read [OF assms(1,2)] by blast
  have "e_magic (bmem s1) ELFHDR \<noteq> ELF_MAGIC"
    using header_field(1) [OF s1(2), of 0] assms(3) img_mem_word [of 0 img] by (simp add: e_magic_def)
  then show ?thesis using s1(1) by (simp add: bootmain_def)
qed

end
