(* ===== verification/Segments.thy ===== *)
theory Segments
  imports Mmu
begin

text \<open>
  Segment descriptors as bytes (inc/mmu.h): the layout of struct Segdesc, the macro SEG of the assembler,
  which builds the descriptors boot/boot.S starts protected mode with, and what they mean.
\<close>

section \<open>Segment descriptors in assembly\<close>

text \<open>The macro SEG of inc/mmu.h for the assembler, as the eight bytes it emits.\<close>

definition SEG_asm :: "u32 \<Rightarrow> u32 \<Rightarrow> u32 \<Rightarrow> u8 list" where
  "SEG_asm type base lim =
     (let w0 = drop_bit 12 lim AND 0xffff; w1 = base AND 0xffff
      in [ucast w0, ucast (drop_bit 8 w0), ucast w1, ucast (drop_bit 8 w1),
          ucast (drop_bit 16 base AND 0xff), ucast (0x90 OR type),
          ucast (0xC0 OR (drop_bit 28 lim AND 0xf)), ucast (drop_bit 24 base AND 0xff)])"

definition SEG_NULL_asm :: "u8 list" where
  "SEG_NULL_asm = [0, 0, 0, 0, 0, 0, 0, 0]"

text \<open>The two descriptors of the C macros without parameters.\<close>

definition SEG_NULL :: Segdesc where
  "SEG_NULL = \<lparr>sd_lim_15_0 = 0, sd_base_15_0 = 0, sd_base_23_16 = 0, sd_type = 0, sd_s = 0, sd_dpl = 0, sd_p = 0,
     sd_lim_19_16 = 0, sd_avl = 0, sd_rsv1 = 0, sd_db = 0, sd_g = 0, sd_base_31_24 = 0\<rparr>"

definition SEG_FAULT :: Segdesc where
  "SEG_FAULT = \<lparr>sd_lim_15_0 = 0, sd_base_15_0 = 0, sd_base_23_16 = 0, sd_type = 0, sd_s = 1, sd_dpl = 0, sd_p = 1,
     sd_lim_19_16 = 0, sd_avl = 0, sd_rsv1 = 0, sd_db = 1, sd_g = 0, sd_base_31_24 = 0\<rparr>"

text \<open>The bytes of a struct Segdesc: the bit fields from the low end.\<close>

definition segdesc_bytes :: "Segdesc \<Rightarrow> u8 list" where
  "segdesc_bytes d =
     [ucast (sd_lim_15_0 d), ucast (drop_bit 8 (sd_lim_15_0 d)), ucast (sd_base_15_0 d), ucast (drop_bit 8 (sd_base_15_0 d)),
      sd_base_23_16 d,
      ucast (sd_type d) OR push_bit 4 (ucast (sd_s d)) OR push_bit 5 (ucast (sd_dpl d)) OR push_bit 7 (ucast (sd_p d)),
      ucast (sd_lim_19_16 d) OR push_bit 4 (ucast (sd_avl d)) OR push_bit 5 (ucast (sd_rsv1 d)) OR
        push_bit 6 (ucast (sd_db d)) OR push_bit 7 (ucast (sd_g d)),
      sd_base_31_24 d]"

lemma flag_bytes: "(0xC0 :: u32) = push_bit 6 1 OR push_bit 7 1" "(0x90 :: u32) = push_bit 4 1 OR push_bit 7 1" "(0xF :: u32) = mask 4"
  by (simp_all add: mask_eq_exp_minus_1 push_bit_eq_mult)

text \<open>Both macros build the same descriptor, for the kernel's privilege level.\<close>

lemma SEG_asm_struct:
  assumes "type < 16"
  shows "SEG_asm type base lim = segdesc_bytes (SEG type base lim 0)"
proof -
  have "take_bit 4 type = type" using assms by (simp add: word_unat_eq_iff take_bit_eq_mod word_less_nat_alt unat_mod)
  then have t: "bit type n \<Longrightarrow> n < 4" for n by (metis bit_take_bit_iff)
  have 5: "(ucast (0x90 OR type) :: u8) = ucast (ucast type :: 4 word) OR push_bit 4 (ucast (1 :: 1 word)) OR push_bit 5 (ucast (0 :: 2 word))
      OR push_bit 7 (ucast (1 :: 1 word))"
    unfolding flag_bytes by (rule bit_word_eqI) (auto simp: bit_simps bit_1_iff dest: t)
  have 6: "(ucast (0xC0 OR (drop_bit 28 lim AND 0xf)) :: u8) = ucast (ucast (drop_bit 28 lim) :: 4 word) OR push_bit 4 (ucast (0 :: 1 word))
      OR push_bit 5 (ucast (0 :: 1 word)) OR push_bit 6 (ucast (1 :: 1 word)) OR push_bit 7 (ucast (1 :: 1 word))"
    unfolding flag_bytes by (rule bit_word_eqI) (auto simp: bit_simps bit_1_iff less_Suc_eq)
  have s: "(ucast (ucast (x AND 0xffff) :: 16 word) :: u8) = ucast (x AND 0xffff)"
      "(ucast (drop_bit 8 (ucast (x AND 0xffff) :: 16 word)) :: u8) = ucast (drop_bit 8 (x AND 0xffff))"
      "(ucast (drop_bit 24 x AND 0xff) :: u8) = ucast (drop_bit 24 x)" for x :: u32
    unfolding mask_consts by (rule bit_word_eqI; auto simp: bit_simps)+
  show ?thesis unfolding SEG_asm_def segdesc_bytes_def SEG_def Let_def 5 6 by (simp add: s)
qed

text \<open>The descriptor that eight bytes stand for.\<close>

fun bytes_segdesc :: "u8 list \<Rightarrow> Segdesc" where
  "bytes_segdesc [b0, b1, b2, b3, b4, b5, b6, b7] =
     \<lparr>sd_lim_15_0 = ucast b0 OR push_bit 8 (ucast b1), sd_base_15_0 = ucast b2 OR push_bit 8 (ucast b3),
      sd_base_23_16 = b4, sd_type = ucast b5, sd_s = ucast (drop_bit 4 b5), sd_dpl = ucast (drop_bit 5 b5),
      sd_p = ucast (drop_bit 7 b5), sd_lim_19_16 = ucast b6, sd_avl = ucast (drop_bit 4 b6),
      sd_rsv1 = ucast (drop_bit 5 b6), sd_db = ucast (drop_bit 6 b6), sd_g = ucast (drop_bit 7 b6), sd_base_31_24 = b7\<rparr>"
| "bytes_segdesc _ = SEG_NULL"

lemma join_bytes: "(ucast (ucast w :: u8) :: u16) OR push_bit 8 (ucast (ucast (drop_bit 8 w) :: u8)) = w"
proof (rule bit_word_eqI)
  fix n assume "n < LENGTH(16)"
  then show "bit ((ucast (ucast w :: u8) :: u16) OR push_bit 8 (ucast (ucast (drop_bit 8 w) :: u8))) n = bit w n"
    by (cases "n < 8") (auto simp: bit_simps)
qed

lemma field_bytes:
  fixes t :: "4 word" and s p :: "1 word" and l :: "2 word"
  defines "b \<equiv> (ucast t :: u8) OR push_bit 4 (ucast s) OR push_bit 5 (ucast l) OR push_bit 7 (ucast p)"
  shows "(ucast b :: 4 word) = t" "(ucast (drop_bit 4 b) :: 1 word) = s" "(ucast (drop_bit 5 b) :: 2 word) = l"
    "(ucast (drop_bit 7 b) :: 1 word) = p"
  unfolding b_def by (rule bit_word_eqI; auto simp: bit_simps dest: bit_imp_le_length)+

lemma limit_bytes:
  fixes t :: "4 word" and a r d g :: "1 word"
  defines "b \<equiv> (ucast t :: u8) OR push_bit 4 (ucast a) OR push_bit 5 (ucast r) OR push_bit 6 (ucast d) OR push_bit 7 (ucast g)"
  shows "(ucast b :: 4 word) = t" "(ucast (drop_bit 4 b) :: 1 word) = a" "(ucast (drop_bit 5 b) :: 1 word) = r"
    "(ucast (drop_bit 6 b) :: 1 word) = d" "(ucast (drop_bit 7 b) :: 1 word) = g"
  unfolding b_def by (rule bit_word_eqI; auto simp: bit_simps dest: bit_imp_le_length)+

lemma segdesc_bytes_roundtrip: "bytes_segdesc (segdesc_bytes d) = d"
  unfolding segdesc_bytes_def bytes_segdesc.simps join_bytes field_bytes limit_bytes by simp

end
