(* ===== verification/X86_Instr.thy ===== *)
theory X86_Instr
  imports Mmu_Access Bootmain Segments
begin

text \<open>
  inc/x86.h: the functions beside those the kernel and the boot loader call. The registers \<open>cr0\<close> and \<open>cr3\<close>
  and the translation cache are in \<open>kstate\<close>, devices and memory of the port instructions in \<open>boot\<close>, the
  other registers in \<open>processor\<close>.
\<close>

section \<open>Ports\<close>

record 'd wide_ports = "'d disk_ports" +
  inw :: "u32 \<Rightarrow> 'd \<Rightarrow> u16 \<times> 'd"
  outl :: "u32 \<Rightarrow> u32 \<Rightarrow> 'd \<Rightarrow> 'd"

fun insb :: "'d wide_ports \<Rightarrow> u32 \<Rightarrow> u32 \<Rightarrow> nat \<Rightarrow> 'd boot \<Rightarrow> 'd boot" where
  "insb io port addr 0 s = s"
| "insb io port addr (Suc cnt) s =
     (let (v, d) = inb io port (bdev s)
      in insb io port (addr + 1) cnt (s\<lparr>bdev := d, bmem := (bmem s)(addr := v)\<rparr>))"

fun insw :: "'d wide_ports \<Rightarrow> u32 \<Rightarrow> u32 \<Rightarrow> nat \<Rightarrow> 'd boot \<Rightarrow> 'd boot" where
  "insw io port addr 0 s = s"
| "insw io port addr (Suc cnt) s =
     (let (v, d) = inw io port (bdev s)
      in insw io port (addr + 2) cnt (s\<lparr>bdev := d, bmem := st16 (bmem s) addr v\<rparr>))"

fun outsb :: "'d wide_ports \<Rightarrow> u32 \<Rightarrow> u32 \<Rightarrow> nat \<Rightarrow> 'd boot \<Rightarrow> 'd boot" where
  "outsb io port addr 0 s = s"
| "outsb io port addr (Suc cnt) s =
     outsb io port (addr + 1) cnt (s\<lparr>bdev := outb io port (bmem s addr) (bdev s)\<rparr>)"

fun outsw :: "'d wide_ports \<Rightarrow> u32 \<Rightarrow> u32 \<Rightarrow> nat \<Rightarrow> 'd boot \<Rightarrow> 'd boot" where
  "outsw io port addr 0 s = s"
| "outsw io port addr (Suc cnt) s =
     outsw io port (addr + 2) cnt (s\<lparr>bdev := outw io port (ld16 (bmem s) addr) (bdev s)\<rparr>)"

fun outsl :: "'d wide_ports \<Rightarrow> u32 \<Rightarrow> u32 \<Rightarrow> nat \<Rightarrow> 'd boot \<Rightarrow> 'd boot" where
  "outsl io port addr 0 s = s"
| "outsl io port addr (Suc cnt) s =
     outsl io port (addr + 4) cnt (s\<lparr>bdev := outl io port (ld32 (bmem s) addr) (bdev s)\<rparr>)"

text \<open>A device that hands back what it was sent, in order.\<close>

definition echo_ports :: "u8 list wide_ports" where
  "echo_ports = \<lparr>inb = (\<lambda>p q. (hd q, tl q)), outb = (\<lambda>p v q. q @ [v]),
     inl = (\<lambda>p q. (0, q)), outw = (\<lambda>p v q. q), inw = (\<lambda>p q. (0, q)), outl = (\<lambda>p v q. q)\<rparr>"

lemma echo_simps: "inb echo_ports p q = (hd q, tl q)" "outb echo_ports p v q = q @ [v]"
  by (simp_all add: echo_ports_def)

lemma outsb_echo:
  "outsb echo_ports port a n s = s\<lparr>bdev := bdev s @ map (\<lambda>i. bmem s (a + word_of_nat i)) [0..<n]\<rparr>"
proof (induction n arbitrary: a s)
  case (Suc n)
  have "map (\<lambda>i. bmem s (a + word_of_nat i)) [0..<Suc n] = bmem s a # map (\<lambda>i. bmem s (a + 1 + word_of_nat i)) [0..<n]"
    by (simp add: upt_conv_Cons map_Suc_upt [symmetric] add.assoc del: upt_Suc)
  then show ?case by (simp add: Suc echo_simps del: upt_Suc)
qed simp

lemma insb_echo_outside:
  assumes "\<forall>i<n. x \<noteq> a + word_of_nat i"
  shows "bmem (insb echo_ports port a n s) x = bmem s x"
  using assms
proof (induction n arbitrary: a s)
  case (Suc n)
  have "x \<noteq> a" using Suc.prems by force
  moreover have "\<forall>i<n. x \<noteq> a + 1 + word_of_nat i"
  proof (intro allI impI)
    fix i assume "i < n"
    then show "x \<noteq> a + 1 + word_of_nat i" using Suc.prems [rule_format, of "Suc i"] by (simp add: add.assoc)
  qed
  ultimately show ?case by (simp add: Suc.IH echo_simps)
qed simp

lemma insb_echo:
  assumes "n \<le> length (bdev s)" "n \<le> 2 ^ 32" "i < n"
  shows "bmem (insb echo_ports port a n s) (a + word_of_nat i) = bdev s ! i"
  using assms
proof (induction n arbitrary: a s i)
  case (Suc n)
  obtain v vs where b: "bdev s = v # vs" using Suc.prems(1) by (cases "bdev s") auto
  have step: "insb echo_ports port a (Suc n) s = insb echo_ports port (a + 1) n (s\<lparr>bdev := vs, bmem := (bmem s)(a := v)\<rparr>)"
    by (simp add: b echo_simps)
  show ?case
  proof (cases i)
    case 0
    have "a \<noteq> a + 1 + word_of_nat j" if "j < n" for j
    proof -
      have "unat (word_of_nat (Suc j) :: u32) = Suc j" using that Suc.prems(2) by (intro unat_of_nat32) simp
      then have "(word_of_nat (Suc j) :: u32) \<noteq> 0" by (metis nat.distinct(1) unat_0)
      then show ?thesis by (simp add: add.assoc)
    qed
    then show ?thesis unfolding step using 0 b by (subst insb_echo_outside) simp_all
  next
    case (Suc j)
    then show ?thesis unfolding step using Suc.IH [of "s\<lparr>bdev := vs, bmem := (bmem s)(a := v)\<rparr>" j "a + 1"] Suc.prems b
      by (simp add: add.assoc)
  qed
qed simp

text \<open>A block sent with \<open>outsb\<close> and read back with \<open>insb\<close> arrives as it was.\<close>

lemma outsb_insb:
  assumes "n \<le> 2 ^ 32" "i < n" "bdev s = []"
  shows "bmem (insb echo_ports port b n (outsb echo_ports port a n s)) (b + word_of_nat i) = bmem s (a + word_of_nat i)"
  using assms by (simp add: insb_echo outsb_echo del: upt_Suc)

section \<open>Control registers and the translation cache\<close>

definition rcr3 :: "kstate \<Rightarrow> u32" where "rcr3 s = cr3 s"

definition tlbflush :: "kstate \<Rightarrow> kstate" where
  "tlbflush s = lcr3 (rcr3 s) s"

text \<open>Whatever was done to the page tables, accesses after a \<open>tlbflush\<close> see them as they are.\<close>

lemma tlbflush_ok: "tlb_ok (tlbflush s) P"
  by (simp add: tlbflush_def lcr3_def rcr3_def tlb_ok_def)

lemma tlbflush_inv: "vm_inv (tlbflush s) P xs ex = vm_inv s P xs ex" "cr3 (tlbflush s) = cr3 s" "kmem (tlbflush s) = kmem s"
  by (simp_all add: tlbflush_def lcr3_def rcr3_def vm_inv_def pt_wf_def ref_ok_def free_list_def free_chain_def)

lemma tlbflush_access:
  assumes "vm_inv s P xs ex" "PTE_ADDR (cr3 s) = page2pa P" "unat (PDX va) \<noteq> self_slot"
  shows "case vmap (kmem s) P (key va) of
      None \<Rightarrow> vm_read va (tlbflush s) = Inl WildPtr
    | Some e \<Rightarrow> \<exists>s'. vm_read va (tlbflush s) = Inr (ld32 (kmem s) (KERNBASE + PTE_ADDR e + PGOFF va), s')"
  using access_fault(1) [OF _ tlbflush_ok, of s P xs ex va] access_entry(1) [OF _ tlbflush_ok, of s P xs ex va] assms
  by (auto simp: tlbflush_inv split: option.split)

section \<open>The other registers\<close>

text \<open>struct Pseudodesc (inc/mmu.h), which is packed: the limit at offset 0, the base at offset 2.\<close>

record Pseudodesc =
  pd_lim :: u16
  pd_base :: u32

definition ld_pseudodesc :: "memory \<Rightarrow> u32 \<Rightarrow> Pseudodesc" where
  "ld_pseudodesc m p = \<lparr>pd_lim = ld16 m p, pd_base = ld32 m (p + 2)\<rparr>"

record processor =
  cr2 :: u32
  cr4 :: u32
  reg_ebp :: u32
  reg_esp :: u32
  idtr :: Pseudodesc
  gdtr :: Pseudodesc

definition lidt :: "memory \<Rightarrow> u32 \<Rightarrow> processor \<Rightarrow> processor" where
  "lidt m p c = c\<lparr>idtr := ld_pseudodesc m p\<rparr>"

definition lgdt :: "memory \<Rightarrow> u32 \<Rightarrow> processor \<Rightarrow> processor" where
  "lgdt m p c = c\<lparr>gdtr := ld_pseudodesc m p\<rparr>"

definition rcr2 :: "processor \<Rightarrow> u32" where "rcr2 c = cr2 c"

definition lcr4 :: "u32 \<Rightarrow> processor \<Rightarrow> processor" where "lcr4 v c = c\<lparr>cr4 := v\<rparr>"

definition rcr4 :: "processor \<Rightarrow> u32" where "rcr4 c = cr4 c"

definition read_ebp :: "processor \<Rightarrow> u32" where "read_ebp c = reg_ebp c"

definition read_esp :: "processor \<Rightarrow> u32" where "read_esp c = reg_esp c"

text \<open>\<open>cpuid\<close>: what the processor answers is a parameter; null pointers are left out.\<close>

definition put_unless_null :: "u32 \<Rightarrow> u32 \<Rightarrow> memory \<Rightarrow> memory" where
  "put_unless_null p v m = (if p \<noteq> 0 then st32 m p v else m)"

definition cpuid :: "(u32 \<Rightarrow> u32 \<times> u32 \<times> u32 \<times> u32) \<Rightarrow> u32 \<Rightarrow> u32 \<Rightarrow> u32 \<Rightarrow> u32 \<Rightarrow> u32 \<Rightarrow> memory \<Rightarrow> memory" where
  "cpuid leaf info eaxp ebxp ecxp edxp m =
     (case leaf info of (eax, ebx, ecx, edx) \<Rightarrow>
       put_unless_null edxp edx (put_unless_null ecxp ecx (put_unless_null ebxp ebx (put_unless_null eaxp eax m))))"

text \<open>Where the four pointers are distinct and aligned, each register is found where it was asked for.\<close>

lemma cpuid_stores:
  assumes "leaf info = (eax, ebx, ecx, edx)" "0 \<notin> {p, q, r, t}" "distinct [p, q, r, t]"
    "\<forall>x\<in>{p, q, r, t}. unat x mod 4 = 0"
  shows "map (ld32 (cpuid leaf info p q r t m)) [p, q, r, t] = [eax, ebx, ecx, edx]"
  using assms by (auto simp: cpuid_def put_unless_null_def ld32_st32_other)

section \<open>An atomic exchange\<close>

definition xchg :: "u32 \<Rightarrow> u32 \<Rightarrow> memory \<Rightarrow> u32 \<times> memory" where
  "xchg addr newval m = (ld32 m addr, st32 m addr newval)"

text \<open>As a lock: of any number of exchanges with 1 on a word that is 0, only the first gets the 0.\<close>

fun xchgs :: "u32 \<Rightarrow> nat \<Rightarrow> memory \<Rightarrow> u32 list \<times> memory" where
  "xchgs addr 0 m = ([], m)"
| "xchgs addr (Suc n) m = (case xchg addr 1 m of (v, m) \<Rightarrow> case xchgs addr n m of (vs, m) \<Rightarrow> (v # vs, m))"

lemma xchgs_held: "ld32 m addr = 1 \<Longrightarrow> fst (xchgs addr n m) = replicate n 1"
  by (induction n arbitrary: m) (simp_all add: xchg_def split: prod.split, metis fst_conv ld32_st32_same)

lemma xchg_lock: "ld32 m addr = 0 \<Longrightarrow> fst (xchgs addr (Suc n) m) = 0 # replicate n 1"
  using xchgs_held [of "st32 m addr 1" addr n] by (simp add: xchg_def split: prod.split) (metis fst_conv)

end
