(* ===== verification/Boot_Start.thy ===== *)
theory Boot_Start
  imports X86_Instr
begin

text \<open>
  boot/boot.S: the first code after the BIOS. It turns the address line A20 on, switches the processor to
  protected mode with the segments of its own table, and calls \<open>bootmain\<close>. The addresses of \<open>start\<close> and
  \<open>gdtdesc\<close> are parameters, the keyboard controller is part of the ports.
\<close>

section \<open>State\<close>





section \<open>The processor\<close>






section \<open>The code\<close>







section \<open>The segments\<close>







section \<open>Protected mode\<close>









end
