(* ===== verification/Kernel_Entry.thy ===== *)
theory Kernel_Entry
  imports X86_Instr Entry_Pgdir
begin

text \<open>
  kern/entry.S: from the boot loader's jump to the call of \<open>i386_init\<close>, on the page tables of
  kern/entrypgdir.c. The addresses of \<open>entry_pgdir\<close>, of the instruction after paging is on, of
  \<open>relocated\<close>, of \<open>bootstacktop\<close> and of \<open>spin\<close> behind the call are parameters; physical memory is that of
  \<open>kstate\<close>, at \<open>KERNBASE\<close>. Fetching an instruction is a read of its address.
\<close>

section \<open>The code\<close>

definition RELOC :: "u32 \<Rightarrow> u32" where
  "RELOC x = x - KERNBASE"

definition call_push :: "u32 \<Rightarrow> kstate \<times> processor \<Rightarrow> (kstate \<times> processor) result" where
  "call_push ret = (\<lambda>(s, c).
     let c = c\<lparr>reg_esp := reg_esp c - 4\<rparr>
     in bindR (vm_write (reg_esp c) ret s) (\<lambda>s. Inr (s, c)))"

definition entry :: "u32 \<Rightarrow> u32 \<Rightarrow> u32 \<Rightarrow> u32 \<Rightarrow> u32 \<Rightarrow> kstate \<times> processor \<Rightarrow> (kstate \<times> processor) result" where
  "entry pgdir next relocated bootstacktop spin = (\<lambda>(s, c).
     let s = s\<lparr>kmem := st16 (kmem s) (KERNBASE + 0x472) 0x1234\<rparr>;
         s = lcr3 (RELOC pgdir) s;
         s = lcr0 (rcr0 s OR (CR0_PE OR CR0_PG OR CR0_WP)) s
     in bindR (vm_read (RELOC next) s) (\<lambda>(_, s).
        bindR (vm_read relocated s) (\<lambda>(_, s).
          call_push spin (s, c\<lparr>reg_ebp := 0, reg_esp := bootstacktop\<rparr>))))"

section \<open>Translation on the first page tables\<close>

definition first_entry :: "u32 \<Rightarrow> u32 option" where
  "first_entry va =
     (if unat (PDX va) = 0 then Some (page2pa (unat (PTX va)) OR PTE_P)
      else if unat (PDX va) = 960 then Some (page2pa (unat (PTX va)) OR (PTE_P OR PTE_W)) else None)"

definition first_paging :: "nat \<Rightarrow> nat \<Rightarrow> kstate \<Rightarrow> bool" where
  "first_paging P T s \<longleftrightarrow> P < 65536 \<and> T < 65536 \<and> cr3 s = page2pa P \<and>
     (\<forall>i<1024. pword (kmem s) P i = entry_pgdir (kaddr T 0) ! i \<and> pword (kmem s) T i = entry_pgtable ! i) \<and>
     (\<forall>va e. tlb s (PGNUM va) = Some e \<longrightarrow> first_entry va = Some e)"

lemma entry_permits:
  "both_permit (page2pa T OR PTE_P) (page2pa t OR (PTE_P OR PTE_W)) = page2pa t OR PTE_P"
  "both_permit (page2pa T OR (PTE_P OR PTE_W)) (page2pa t OR (PTE_P OR PTE_W)) = page2pa t OR (PTE_P OR PTE_W)"
  unfolding both_permit_def
  by (rule bit_word_eqI, auto simp: bit_and_iff bit_or_iff bit_not_iff page2pa_def PGSHIFT_def bit_push_bit_iff flag_bits)+

lemma first_frame:
  assumes "take_bit 12 f = f"
  shows "va < 0x400000 \<Longrightarrow> unat (PDX va) = 0 \<and> PTE_ADDR (page2pa (unat (PTX va)) OR f) + PGOFF va = va"
    "KERNBASE \<le> va \<Longrightarrow> va < KERNBASE + 0x400000 \<Longrightarrow> unat (PDX va) = 960 \<and>
      PTE_ADDR (page2pa (unat (PTX va)) OR f) + PGOFF va = va - KERNBASE"
proof -
  let ?t = "unat (PTX va)"
  have t: "?t < 1024" by (rule PTX_less)
  have A: "PTE_ADDR (page2pa ?t OR g) = page2pa ?t" if "take_bit 12 g = g" for g
    by (rule PTE_ADDR_flags [OF page2pa_aligned that])
  have "pte_page (page2pa ?t OR PTE_P) = ?t" using t by (intro pte_page_entry) (simp_all add: PTE_P_def)
  from unat_frame_offset [OF this] have sum: "unat (page2pa ?t + PGOFF va) = unat va mod 2 ^ 22"
    using A [of PTE_P] by (simp add: PTE_P_def)
  show "unat (PDX va) = 0 \<and> PTE_ADDR (page2pa ?t OR f) + PGOFF va = va" if "va < 0x400000"
    unfolding A [OF assms] using that sum by (simp add: unat_PDX word_unat_eq_iff word_less_nat_alt)
  show "unat (PDX va) = 960 \<and> PTE_ADDR (page2pa ?t OR f) + PGOFF va = va - KERNBASE"
    if h: "KERNBASE \<le> va" "va < KERNBASE + 0x400000"
  proof -
    define x where "x = unat va - 0xF0000000"
    have x: "unat va = x + 960 * 2 ^ 22" "x < 2 ^ 22"
      using h by (simp_all add: word_le_nat_alt word_less_nat_alt KERNBASE_def x_def)
    have "unat (va - KERNBASE) = x" using h by (simp add: unat_sub KERNBASE_def x_def)
    moreover have "unat va mod 2 ^ 22 = x" unfolding x(1) mod_mult_self1 using x(2) by simp
    moreover have "unat va div 2 ^ 22 = 960" unfolding x(1) using x(2) div_mult_self1 [of "2 ^ 22" x 960] by simp
    ultimately show ?thesis unfolding A [OF assms] using sum by (simp add: unat_PDX word_unat_eq_iff)
  qed
qed

lemma first_entry_page: "PGNUM va = PGNUM va' \<Longrightarrow> first_entry va = first_entry va'"
  by (simp add: first_entry_def key_eq_iff [symmetric] key_def)

lemma first_mmu:
  assumes f: "first_paging P T s"
  shows "case first_entry va of None \<Rightarrow> mmu_entry va s = Inl WildPtr
    | Some e \<Rightarrow> mmu_entry va s = Inr (e, s\<lparr>tlb := (tlb s)(PGNUM va := Some e)\<rparr>)"
proof (cases "tlb s (PGNUM va)")
  case (Some e)
  then have "first_entry va = Some e" using f by (simp add: first_paging_def)
  moreover have "(tlb s)(PGNUM va := Some e) = tlb s" using Some by auto
  ultimately show ?thesis using Some by (simp add: mmu_entry_def)
next
  case None
  let ?d = "unat (PDX va)" and ?t = "unat (PTX va)"
  have b: "P < 65536" "T < 65536" "cr3 s = page2pa P" using f by (simp_all add: first_paging_def)
  have w: "pword (kmem s) P i = entry_pgdir (kaddr T 0) ! i" "pword (kmem s) T i = entry_pgtable ! i" if "i < 1024" for i
    using f that by (simp_all add: first_paging_def)
  have cr: "PTE_ADDR (cr3 s) = page2pa P" unfolding b(3) by (rule PTE_ADDR_page2pa)
  have td: "?t < 1024" "?d < 1024" by (rule PTX_less PDX_less)+
  note W = walk_words [OF cr b(1), of va]
  have pde: "pword (kmem s) P ?d = (if ?d = 0 then page2pa T OR PTE_P else if ?d = 960 then page2pa T OR (PTE_P OR PTE_W) else 0)"
    using w(1) [OF td(2)] entry_pgdir_nth [OF td(2)] by simp
  show ?thesis
  proof (cases "?d = 0 \<or> ?d = 960")
    case True
    have "pte_page (page2pa T OR PTE_P) = T" "pte_page (page2pa T OR (PTE_P OR PTE_W)) = T"
      using b(2) by (intro pte_page_entry; simp add: PTE_P_def PTE_W_def)+
    then have "table_of (kmem s) P ?d = T" using True pde by (auto simp: table_of_def)
    then have pte: "pword (kmem s) (table_of (kmem s) P ?d) ?t = page2pa ?t OR (PTE_P OR PTE_W)"
      using w(2) [OF td(1)] entry_pgtable_nth [OF td(1)] by simp
    show ?thesis using True None W pde entry_permits [of T ?t] entry_flags
      by (auto simp: mmu_entry_def Let_def not_present_iff pte first_entry_def)
  next
    case False
    then have "\<not> present (pword (kmem s) P ?d)" using pde entry_flags(3) by simp
    then show ?thesis using False None W by (simp add: mmu_entry_def Let_def not_present_iff first_entry_def)
  qed
qed

text \<open>The addresses below 4 MB can be read, those from \<open>KERNBASE\<close> on written as well; a remembered entry changes nothing.\<close>

lemma first_paging_fill:
  assumes "first_paging P T s" "first_entry va = Some e"
  shows "first_paging P T (s\<lparr>tlb := (tlb s)(PGNUM va := Some e)\<rparr>)"
proof -
  have "first_entry va' = Some e'" if "((tlb s)(PGNUM va := Some e)) (PGNUM va') = Some e'" for va' e'
  proof (cases "PGNUM va' = PGNUM va")
    case True
    then show ?thesis using that assms(2) first_entry_page [OF True] by simp
  next
    case False
    then show ?thesis using that assms(1) by (simp add: first_paging_def)
  qed
  then show ?thesis using assms(1) by (simp add: first_paging_def)
qed

lemma first_access:
  assumes f: "first_paging P T s"
  shows "va < 0x400000 \<Longrightarrow> \<exists>t. vm_read va s = Inr (ld32 (kmem s) (KERNBASE + va), s\<lparr>tlb := t\<rparr>) \<and> first_paging P T (s\<lparr>tlb := t\<rparr>) \<and>
      vm_write va v s = Inl WildPtr"
    "KERNBASE \<le> va \<Longrightarrow> va < KERNBASE + 0x400000 \<Longrightarrow> \<exists>t. vm_read va s = Inr (ld32 (kmem s) va, s\<lparr>tlb := t\<rparr>) \<and>
      first_paging P T (s\<lparr>tlb := t\<rparr>) \<and> vm_write va v s = Inr (s\<lparr>tlb := t, kmem := st32 (kmem s) va v\<rparr>)"
    "\<not> va < 0x400000 \<Longrightarrow> \<not> (KERNBASE \<le> va \<and> va < KERNBASE + 0x400000) \<Longrightarrow> vm_read va s = Inl WildPtr \<and> vm_write va v s = Inl WildPtr"
proof -
  note m = first_mmu [OF f, of va] and fill = first_paging_fill [OF f, of va]
  have fl: "take_bit 12 PTE_P = PTE_P" "take_bit 12 (PTE_P OR PTE_W) = PTE_P OR PTE_W" by (simp_all add: PTE_P_def PTE_W_def)
  show "\<exists>t. vm_read va s = Inr (ld32 (kmem s) (KERNBASE + va), s\<lparr>tlb := t\<rparr>) \<and> first_paging P T (s\<lparr>tlb := t\<rparr>) \<and>
      vm_write va v s = Inl WildPtr" if "va < 0x400000"
  proof -
    note ff = first_frame(1) [OF fl(1) that]
    then have e: "first_entry va = Some (page2pa (unat (PTX va)) OR PTE_P)" by (simp add: first_entry_def)
    show ?thesis using m fill [OF e] ff unfolding e by (auto simp: vm_read_def vm_write_def entry_flags(4) add.assoc)
  qed
  show "\<exists>t. vm_read va s = Inr (ld32 (kmem s) va, s\<lparr>tlb := t\<rparr>) \<and>
      first_paging P T (s\<lparr>tlb := t\<rparr>) \<and> vm_write va v s = Inr (s\<lparr>tlb := t, kmem := st32 (kmem s) va v\<rparr>)"
    if "KERNBASE \<le> va" "va < KERNBASE + 0x400000"
  proof -
    note ff = first_frame(2) [OF fl(2) that]
    then have e: "first_entry va = Some (page2pa (unat (PTX va)) OR (PTE_P OR PTE_W))" by (simp add: first_entry_def)
    show ?thesis using m fill [OF e] ff unfolding e by (auto simp: vm_read_def vm_write_def entry_flags(5) add.assoc)
  qed
  show "vm_read va s = Inl WildPtr \<and> vm_write va v s = Inl WildPtr" if "\<not> va < 0x400000" "\<not> (KERNBASE \<le> va \<and> va < KERNBASE + 0x400000)"
  proof -
    have "unat va div 2 ^ 22 \<noteq> 0" "unat va div 2 ^ 22 \<noteq> 960"
      using that by (auto simp: word_less_nat_alt word_le_nat_alt KERNBASE_def div_eq_0_iff)
    then have "first_entry va = None" by (simp add: first_entry_def unat_PDX)
    then show ?thesis using m by (simp add: vm_read_def vm_write_def)
  qed
qed

section \<open>From the boot loader to C\<close>

lemma pword_st16_low:
  assumes "0 < p" "p < 65536" "i < 1024"
  shows "pword (st16 m (KERNBASE + 0x472) v) p i = pword m p i"
  unfolding pword_def
proof (rule ld32_cong4)
  fix k :: nat assume "k < 4"
  then have off: "\<not> unat (kaddr p i + word_of_nat k - kaddr 0 0) < 4096" using unat_page_offset [of p i 0 k] assms by simp
  have "KERNBASE + 0x472 - kaddr 0 0 = 0x472" "KERNBASE + 0x472 + 1 - kaddr 0 0 = 0x473" by (simp_all add: kaddr_def)
  then have "kaddr p i + word_of_nat k \<noteq> KERNBASE + 0x472" "kaddr p i + word_of_nat k \<noteq> KERNBASE + 0x472 + 1" using off by auto
  then show "st16 m (KERNBASE + 0x472) v (kaddr p i + word_of_nat k) = m (kaddr p i + word_of_nat k)" by (simp add: st16_def)
qed

lemma first_paging_store:
  assumes "first_paging P T s" "q < 65536" "q \<noteq> P" "q \<noteq> T" "k < 1024"
  shows "first_paging P T (s\<lparr>kmem := st32 (kmem s) (kaddr q k) v\<rparr>)"
  using assms by (simp add: first_paging_def pword_st32)

text \<open>C22. The kernel's assembly: with the tables of entrypgdir.c in memory and its code and stack in the first
  4 MB, the code survives turning paging on, because the instruction after that is still mapped at its
  low address, goes on at its high address and calls i386_init with the stack at bootstacktop and an ended frame
  chain. From then on a word (one that lies within a page) at an address below 4 MB can be read and a write to
  it faults, the words from KERNBASE to KERNBASE + 4 MB (not included) can be read and written, and at every
  other address both a read and a write fault.\<close>

theorem entry_calls_i386_init:
  assumes "0 < P" "P < 65536" "0 < T" "T < 65536"
    and "\<forall>i<1024. pword (kmem s) P i = entry_pgdir (kaddr T 0) ! i \<and> pword (kmem s) T i = entry_pgtable ! i"
    and "KERNBASE \<le> next" "next < KERNBASE + 0x400000" "KERNBASE \<le> relocated" "relocated < KERNBASE + 0x400000"
    and "bootstacktop - 4 = kaddr q 1023" "q < 1024" "q \<noteq> P" "q \<noteq> T"
  shows "\<exists>s' c'. entry (kaddr P 0) next relocated bootstacktop spin (s, c) = Inr (s', c') \<and>
    reg_ebp c' = 0 \<and> reg_esp c' = bootstacktop - 4 \<and> cr0 s' AND CR0_PG \<noteq> 0 \<and> cr3 s' = page2pa P \<and>
    kmem s' = st32 (st16 (kmem s) (KERNBASE + 0x472) 0x1234) (bootstacktop - 4) spin \<and>
    (\<forall>va v. if va < 0x400000
       then (\<exists>t. vm_read va s' = Inr (ld32 (kmem s') (KERNBASE + va), s'\<lparr>tlb := t\<rparr>)) \<and> vm_write va v s' = Inl WildPtr
       else if KERNBASE \<le> va \<and> va < KERNBASE + 0x400000
       then (\<exists>t. vm_read va s' = Inr (ld32 (kmem s') va, s'\<lparr>tlb := t\<rparr>) \<and>
              vm_write va v s' = Inr (s'\<lparr>tlb := t, kmem := st32 (kmem s') va v\<rparr>))
       else vm_read va s' = Inl WildPtr \<and> vm_write va v s' = Inl WildPtr)"
proof -
  let ?m = "st16 (kmem s) (KERNBASE + 0x472) 0x1234"
  let ?s1 = "lcr0 (rcr0 (lcr3 (RELOC (kaddr P 0)) (s\<lparr>kmem := ?m\<rparr>)) OR (CR0_PE OR CR0_PG OR CR0_WP)) (lcr3 (RELOC (kaddr P 0)) (s\<lparr>kmem := ?m\<rparr>))"
  have s1: "kmem ?s1 = ?m" "cr3 ?s1 = page2pa P" "tlb ?s1 = (\<lambda>_. None)" "cr0 ?s1 = cr0 s OR (CR0_PE OR CR0_PG OR CR0_WP)"
    by (simp_all add: lcr0_def lcr3_def rcr0_def RELOC_def kaddr_minus)
  have f1: "first_paging P T ?s1"
    using assms(1-5) by (simp add: first_paging_def s1 pword_st16_low)
  have low: "RELOC next < 0x400000"
    using assms(6,7) by (simp add: RELOC_def word_less_nat_alt word_le_nat_alt unat_sub KERNBASE_def)
  obtain t2 where r2: "vm_read (RELOC next) ?s1 = Inr (ld32 ?m (KERNBASE + RELOC next), ?s1\<lparr>tlb := t2\<rparr>)" "first_paging P T (?s1\<lparr>tlb := t2\<rparr>)"
    using first_access(1) [OF f1 low] unfolding s1 by blast
  obtain t3 where r3: "vm_read relocated (?s1\<lparr>tlb := t2\<rparr>) = Inr (ld32 ?m relocated, ?s1\<lparr>tlb := t3\<rparr>)" "first_paging P T (?s1\<lparr>tlb := t3\<rparr>)"
    using first_access(2) [OF r2(2) assms(8,9)] by (auto simp: s1)
  have st: "KERNBASE \<le> bootstacktop - 4" "bootstacktop - 4 < KERNBASE + 0x400000"
    unfolding assms(10) using assms(11) by (simp_all add: word_le_nat_alt word_less_nat_alt unat_kaddr KERNBASE_def)
  obtain t4 where r4: "vm_write (bootstacktop - 4) spin (?s1\<lparr>tlb := t3\<rparr>) = Inr (?s1\<lparr>tlb := t4, kmem := st32 ?m (bootstacktop - 4) spin\<rparr>)"
    "first_paging P T (?s1\<lparr>tlb := t4\<rparr>)"
    using first_access(2) [OF r3(2) st, of spin] by (auto simp: s1)
  let ?s' = "?s1\<lparr>tlb := t4, kmem := st32 ?m (bootstacktop - 4) spin\<rparr>" and ?c' = "c\<lparr>reg_ebp := 0, reg_esp := bootstacktop - 4\<rparr>"
  have run: "entry (kaddr P 0) next relocated bootstacktop spin (s, c) = Inr (?s', ?c')"
    unfolding entry_def call_push_def Let_def using r2(1) r3(1) r4(1) by simp
  have f': "first_paging P T ?s'"
    using first_paging_store [OF r4(2), of q 1023 spin] assms(11-13) unfolding assms(10) by (simp add: s1(1))
  note a = first_access [OF f']
  have pg: "(x OR (CR0_PE OR CR0_PG OR CR0_WP)) AND CR0_PG \<noteq> 0" for x
  proof -
    have "bit ((x OR (CR0_PE OR CR0_PG OR CR0_WP)) AND CR0_PG) 31" by (simp add: CR0_PG_def bit_simps bit_numeral_rec)
    then show ?thesis by (metis bit_0_eq bot_apply bot_bool_def)
  qed
  have A: "if va < 0x400000
       then (\<exists>t. vm_read va ?s' = Inr (ld32 (kmem ?s') (KERNBASE + va), ?s'\<lparr>tlb := t\<rparr>)) \<and> vm_write va v ?s' = Inl WildPtr
       else if KERNBASE \<le> va \<and> va < KERNBASE + 0x400000
       then (\<exists>t. vm_read va ?s' = Inr (ld32 (kmem ?s') va, ?s'\<lparr>tlb := t\<rparr>) \<and>
              vm_write va v ?s' = Inr (?s'\<lparr>tlb := t, kmem := st32 (kmem ?s') va v\<rparr>))
       else vm_read va ?s' = Inl WildPtr \<and> vm_write va v ?s' = Inl WildPtr" for va v
    using a(1) [of va v] a(2) [of va v] a(3) [of va v] by (split if_split)+ blast
  show ?thesis
    by (rule exI [of _ ?s'], rule exI [of _ ?c'], intro conjI allI, rule run, simp, simp, use s1(4) pg in simp, use s1(2) in simp, simp, rule A)
qed

definition loaded_machine :: kstate where
  "loaded_machine = fresh_machine\<lparr>kmem := entry_image 257 258 (\<lambda>_. 0)\<rparr>"

definition reset_processor :: processor where
  "reset_processor = \<lparr>cr2 = 0, cr4 = 0, reg_ebp = 0x7BF8, reg_esp = 0x7BE0, idtr = \<lparr>pd_lim = 0, pd_base = 0\<rparr>,
     gdtr = \<lparr>pd_lim = 0x17, pd_base = 0x7C64\<rparr>\<rparr>"

theorem entry_calls_i386_init_witness:
  "\<exists>s' c'. entry (kaddr 257 0) 0xF0100020 0xF0100028 0xF0110000 0xF0100034 (loaded_machine, reset_processor) = Inr (s', c') \<and>
    reg_ebp c' = 0 \<and> reg_esp c' = 0xF010FFFC \<and> vm_write 0 7 s' = Inl WildPtr \<and>
    vm_read 0xF0400000 s' = Inl WildPtr \<and> vm_write 0xF0400000 7 s' = Inl WildPtr"
proof -
  have b: "(0 :: nat) < 257" "(257 :: nat) < 65536" "(0 :: nat) < 258" "(258 :: nat) < 65536" "(257 :: nat) \<noteq> 258" by simp_all
  have tab: "\<forall>i<1024. pword (kmem loaded_machine) 257 i = entry_pgdir (kaddr 258 0) ! i \<and> pword (kmem loaded_machine) 258 i = entry_pgtable ! i"
    using entry_words [OF b(2,4,5)] by (simp add: loaded_machine_def)
  have k: "(0xF0110000 :: u32) - 4 = kaddr 271 1023" by (simp add: kaddr_def KERNBASE_def)
  have r: "KERNBASE \<le> 0xF0100020" "0xF0100020 < KERNBASE + 0x400000" "KERNBASE \<le> 0xF0100028" "0xF0100028 < KERNBASE + 0x400000"
    by (simp_all add: KERNBASE_def)
  obtain s' c' where e: "entry (kaddr 257 0) 0xF0100020 0xF0100028 0xF0110000 0xF0100034 (loaded_machine, reset_processor) = Inr (s', c')"
    "reg_ebp c' = 0" "reg_esp c' = 0xF0110000 - 4" "\<And>va v. va < 0x400000 \<Longrightarrow> vm_write va v s' = Inl WildPtr"
    "\<And>va v. \<not> va < 0x400000 \<Longrightarrow> \<not> (KERNBASE \<le> va \<and> va < KERNBASE + 0x400000) \<Longrightarrow>
      vm_read va s' = Inl WildPtr \<and> vm_write va v s' = Inl WildPtr"
    using entry_calls_i386_init [OF b(1-4) tab r k, of "0xF0100034" reset_processor] by auto
  then show ?thesis using e(5) [of "0xF0400000"] by (simp add: KERNBASE_def)
qed

end
