(* ===== verification/Readline.thy ===== *)
theory Readline
  imports Console_Queue Console_Screen Snprintf
begin

text \<open>
  lib/readline.c: the line editor over \<open>getchar\<close> and \<open>cputchar\<close> of the console. The buffer \<open>buf\<close> is
  a list of 1024 bytes; a store outside it is the fault \<open>WildPtr\<close>. The result says whether the
  buffer (\<open>True\<close>) or the null pointer is returned.
\<close>

section \<open>readline\<close>

definition BUFLEN :: nat where [jos_consts]: "BUFLEN = 1024"

definition buf_store :: "u8 list \<Rightarrow> nat \<Rightarrow> u32 \<Rightarrow> u8 list result" where
  "buf_store b i c = (if i < length b then Inr (b[i := ucast c]) else Inl WildPtr)"

partial_function (option) readline_loop ::
  "'d ports \<Rightarrow> bool \<Rightarrow> u8 list \<Rightarrow> nat \<Rightarrow> 'd console \<Rightarrow> (bool \<times> u8 list \<times> 'd console) result option" where
  "readline_loop io echoing b i s =
     (case getchar io s of
        None \<Rightarrow> None
      | Some (Inl e) \<Rightarrow> Some (Inl e)
      | Some (Inr (c, s)) \<Rightarrow>
          if sint c < 0
          then Some (bindR (cprintf io (bytes ''read error: %e'' @ [10]) [VWord c] s) (\<lambda>(_, s). Inr (False, b, s)))
          else if (c = 8 \<or> c = 0x7f) \<and> i > 0
          then readline_loop io echoing b (i - 1) (if echoing then cputchar io 8 s else s)
          else if sint c \<ge> 32 \<and> i < BUFLEN - 1
          then (case buf_store b i c of
                  Inl e \<Rightarrow> Some (Inl e)
                | Inr b \<Rightarrow> readline_loop io echoing b (i + 1) (if echoing then cputchar io c s else s))
          else if c = 10 \<or> c = 13
          then Some (bindR (buf_store b i 0) (\<lambda>b.
                 Inr (True, b, if echoing then cputchar io 10 s else s)))
          else readline_loop io echoing b i s)"

definition readline :: "'d ports \<Rightarrow> u8 list option \<Rightarrow> u8 list \<Rightarrow> 'd console \<Rightarrow> (bool \<times> u8 list \<times> 'd console) result" where
  "readline io prompt b s =
     bindR (case prompt of None \<Rightarrow> Inr s
            | Some p \<Rightarrow> bindR (cprintf io (bytes ''%s'') [VStr (Some p)] s) (\<lambda>(_, s). Inr s)) (\<lambda>s.
       joinR (readline_loop io (iscons 0) b 0 s))"

section \<open>The line editor on lists\<close>

definition edit_key :: "u8 list \<Rightarrow> u8 \<Rightarrow> u8 list" where
  "edit_key line k =
     (if (k = 8 \<or> k = 0x7f) \<and> line \<noteq> [] then butlast line
      else if 32 \<le> k \<and> length line < 1023 then line @ [k] else line)"

definition echo_key :: "u8 list \<Rightarrow> u8 \<Rightarrow> u32 list" where
  "echo_key line k =
     (if (k = 8 \<or> k = 0x7f) \<and> line \<noteq> [] then [8]
      else if 32 \<le> k \<and> length line < 1023 then [ucast k] else [])"

fun echoed :: "u8 list \<Rightarrow> u8 list \<Rightarrow> u32 list" where
  "echoed line [] = []"
| "echoed line (k # ks) = echo_key line k @ echoed (edit_key line k) ks"

lemma edit_key_length: "length line \<le> 1023 \<Longrightarrow> length (edit_key line k) \<le> 1023"
  by (auto simp: edit_key_def)

section \<open>Output leaves the input buffer alone\<close>

definition same_ring :: "'d console \<Rightarrow> 'd console \<Rightarrow> bool" where
  "same_ring s s' \<longleftrightarrow> cons_buf s' = cons_buf s \<and> cons_rpos s' = cons_rpos s \<and> cons_wpos s' = cons_wpos s"

lemma same_ringD: "same_ring s s' \<Longrightarrow> waiting s' = waiting s \<and> ring_ok s' = ring_ok s"
  by (simp add: same_ring_def waiting_def ring_ok_def)

lemma same_ring_io [simp]:
  "same_ring s (con_out io p v s') = same_ring s s'" "same_ring s (snd (con_in io p s')) = same_ring s s'"
  "same_ring s s" "same_ring s (put_cell i w s') = same_ring s s'" "same_ring s (s'\<lparr>crt_pos := q\<rparr>) = same_ring s s'"
  "same_ring s (s'\<lparr>con_mem := m\<rparr>) = same_ring s s'"
  by (simp_all add: same_ring_def con_out_def con_in_def put_cell_def split_beta)

lemma same_ring_wait: "same_ring s (wait_ready io p msk k s') = same_ring s s'"
proof (induction k arbitrary: s')
  case (Suc k)
  show ?case
    by (subst wait_ready.simps) (simp add: split_beta Let_def delay_def Suc.IH)
qed (subst wait_ready.simps, simp add: split_beta Let_def)

lemma same_ring_blank: "same_ring s (blank_cells i n s') = same_ring s s'"
  by (induction n arbitrary: i s') simp_all

lemma same_ring_screen: "same_ring s (scroll s') = same_ring s s'" "same_ring s (move_cursor io s') = same_ring s s'"
  "same_ring s (cga_switch c s') = same_ring s s'" "same_ring s (lpt_putc io c s') = same_ring s s'"
  "same_ring s (serial_putc io c s') = same_ring s s'"
  by (simp_all add: scroll_def move_cursor_def cga_switch_def lpt_putc_def serial_putc_def Let_def same_ring_blank
      same_ring_wait)

lemma same_ring_putc: "same_ring s (cga_putc io c s') = same_ring s s'" "same_ring s (cons_putc io c s') = same_ring s s'"
proof (induction io c s' and io c s' rule: cga_putc_cons_putc.induct)
  case (1 io c s')
  then show ?case by (subst cga_putc.simps) (simp add: Let_def same_ring_screen)
next
  case (2 io c s')
  then show ?case by (subst cons_putc.simps) (simp add: same_ring_screen)
qed

lemma same_ring_cputchar: "same_ring s (cputchar io c s)"
  by (simp add: cputchar_def same_ring_putc)

section \<open>Reading a waiting line\<close>

lemma unat_ucast8: "unat (ucast (k :: u8) :: u32) = unat k"
proof -
  have "unat k < 256" using unsigned_less [of k] by simp
  then show ?thesis by (simp add: unsigned_ucast_eq take_bit_nat_eq_self)
qed

lemma ucast_ucast8: "(ucast (ucast (k :: u8) :: u32) :: u8) = k"
  by (rule bit_word_eqI) (simp add: bit_simps)

lemma ucast_eq_small: "n < 256 \<Longrightarrow> (ucast (k :: u8) :: u32) = word_of_nat n \<longleftrightarrow> k = word_of_nat n"
proof -
  assume n: "n < 256"
  have "unat (word_of_nat n :: u32) = n" "unat (word_of_nat n :: u8) = n"
    using n by (simp_all add: unsigned_of_nat take_bit_nat_eq_self)
  then show ?thesis by (simp only: word_unat_eq_iff unat_ucast8)
qed

text \<open>Ports whose keyboard and serial port have nothing to deliver.\<close>

definition quiet :: "'d ports \<Rightarrow> bool" where
  "quiet io \<longleftrightarrow> (\<forall>d. fst (inb io KBSTATP d) AND KBS_DIB = 0 \<and> fst (inb io (COM1 + COM_LSR) d) AND COM_LSR_DATA = 0)"

lemma quiet_cons_getc:
  assumes "quiet io"
  shows "\<exists>d. cons_getc io s = Inr (cons_fetch (s\<lparr>dev := d\<rparr>))"
proof -
  have k: "kbd_proc_data io t = Inr (- 1, t\<lparr>dev := snd (inb io KBSTATP (dev t))\<rparr>)" for t :: "'a console"
    using assms by (simp add: kbd_proc_data_def con_in_def quiet_def split_beta)
  have p: "serial_proc_data io t = Inr (- 1, t\<lparr>dev := snd (inb io (COM1 + COM_LSR) (dev t))\<rparr>)" for t :: "'a console"
    using assms by (simp add: serial_proc_data_def con_in_def quiet_def split_beta)
  have d: "t = t\<lparr>dev := dev t\<rparr>" for t :: "'a console" by simp
  have ki: "kbd_intr io t = Inr (t\<lparr>dev := snd (inb io KBSTATP (dev t))\<rparr>)" for t :: "'a console"
    unfolding kbd_intr_def by (subst cons_intr.simps) (simp add: k)
  have si: "\<exists>d. serial_intr io t = Inr (t\<lparr>dev := d\<rparr>)" for t :: "'a console"
  proof (cases "serial_exists t")
    case True
    then show ?thesis
      unfolding serial_intr_def by (subst cons_intr.simps) (auto simp: p)
  next
    case False
    then have "serial_intr io t = Inr t" by (simp add: serial_intr_def)
    then show ?thesis using d [of t] by metis
  qed
  obtain d1 where "serial_intr io s = Inr (s\<lparr>dev := d1\<rparr>)" using si by blast
  then have "cons_getc io s = Inr (cons_fetch (s\<lparr>dev := snd (inb io KBSTATP d1)\<rparr>))"
    by (simp add: cons_getc_def ki)
  then show ?thesis by blast
qed

lemma dev_same [simp]: "waiting (s\<lparr>dev := d\<rparr>) = waiting s" "ring_ok (s\<lparr>dev := d\<rparr>) = ring_ok s"
  "view (s\<lparr>dev := d\<rparr>) = view s" "con_ok (s\<lparr>dev := d\<rparr>) = con_ok s"
  by (simp_all add: waiting_def ring_ok_def view_def con_ok_def)

lemma cons_fetch_screen: "view (snd (cons_fetch s)) = view s" "con_ok (snd (cons_fetch s)) = con_ok s"
  by (auto simp: cons_fetch_def Let_def view_def con_ok_def)

lemma quiet_getchar:
  assumes "quiet io" "ring_ok s" "waiting s = k # ks" "k \<noteq> 0"
  shows "\<exists>s'. getchar io s = Some (Inr (ucast k, s')) \<and> ring_ok s' \<and> waiting s' = ks \<and>
    view s' = view s \<and> con_ok s' = con_ok s"
proof -
  obtain d where d: "cons_getc io s = Inr (cons_fetch (s\<lparr>dev := d\<rparr>))" using quiet_cons_getc [OF assms(1)] by blast
  obtain s' where s': "cons_fetch (s\<lparr>dev := d\<rparr>) = (ucast k, s')" "ring_ok s'" "waiting s' = ks"
    using fetch_front [of "s\<lparr>dev := d\<rparr>" k ks] assms(2,3) by auto
  have "(ucast k :: u32) \<noteq> 0" using assms(4) ucast_eq_small [of 0 k] by simp
  then have "getchar io s = Some (Inr (ucast k, s'))"
    using d s' by (subst getchar.simps) simp
  then show ?thesis using s' cons_fetch_screen [of "s\<lparr>dev := d\<rparr>"] by auto
qed

lemma echo_same: "con_ok s \<Longrightarrow> ring_ok (cputchar io c s) = ring_ok s \<and> waiting (cputchar io c s) = waiting s \<and>
    view (cputchar io c s) = screen_put c (view s) \<and> con_ok (cputchar io c s)"
  using same_ringD [OF same_ring_cputchar [of s io c]] cputchar_view [of s io c] by (simp add: shows_as_def)

lemma sint_ucast8: "sint (ucast (k :: u8) :: u32) = uint k"
proof -
  have "unat k < 256" using unsigned_less [of k] by simp
  then have "sint (ucast k :: u32) = int (unat k)" by (subst sint_small) (simp_all add: unat_ucast8)
  then show ?thesis by simp
qed

text \<open>One key that does not end the line.\<close>

lemma readline_loop_key:
  assumes "quiet io" "con_ok s" "ring_ok s" "waiting s = k # ks" "k \<notin> {0, 10, 13}" "length b = BUFLEN"
    "length line \<le> 1023" "take (length line) b = line"
  shows "\<exists>b' s'. readline_loop io True b (length line) s = readline_loop io True b' (length (edit_key line k)) s' \<and>
    con_ok s' \<and> ring_ok s' \<and> waiting s' = ks \<and> length b' = BUFLEN \<and>
    take (length (edit_key line k)) b' = edit_key line k \<and> view s' = fold screen_put (echo_key line k) (view s)"
proof -
  have k: "k \<noteq> 0" "k \<noteq> 10" "k \<noteq> 13" using assms(5) by auto
  obtain s1 where s1: "getchar io s = Some (Inr (ucast k, s1))" "ring_ok s1" "waiting s1 = ks"
    "view s1 = view s" "con_ok s1"
    using quiet_getchar [of io s k ks] assms k(1) by auto
  have n: "\<not> sint (ucast k :: u32) < 0" by (simp add: sint_ucast8)
  have eq: "(ucast k :: u32) = 8 \<longleftrightarrow> k = 8" "(ucast k :: u32) = 0x7f \<longleftrightarrow> k = 0x7f" "(ucast k :: u32) = 10 \<longleftrightarrow> k = 10"
    "(ucast k :: u32) = 13 \<longleftrightarrow> k = 13" 
    using ucast_eq_small [of 8 k] ucast_eq_small [of "0x7f" k] ucast_eq_small [of 10 k] ucast_eq_small [of 13 k]
    by simp_all
  have ge: "32 \<le> sint (ucast k :: u32) \<longleftrightarrow> 32 \<le> k" by (simp add: sint_ucast8 word_le_def)
  consider (del) "(k = 8 \<or> k = 0x7f) \<and> line \<noteq> []"
    | (ins) "\<not> ((k = 8 \<or> k = 0x7f) \<and> line \<noteq> [])" "32 \<le> k \<and> length line < 1023"
    | (ign) "\<not> ((k = 8 \<or> k = 0x7f) \<and> line \<noteq> [])" "\<not> (32 \<le> k \<and> length line < 1023)" by blast
  then show ?thesis
  proof cases
    case del
    have e: "edit_key line k = butlast line" "echo_key line k = [8]" using del by (simp_all add: edit_key_def echo_key_def)
    have step: "readline_loop io True b (length line) s = readline_loop io True b (length (butlast line)) (cputchar io 8 s1)"
      using del s1(1) n eq by (subst readline_loop.simps) auto
    have "take (length (butlast line)) b = butlast line"
      using assms(8) by (metis butlast_take butlast_conv_take length_butlast take_take min.absorb1 diff_le_self)
    then show ?thesis using step s1 assms(6) echo_same [of s1 io 8]
      unfolding e by (intro exI [of _ b] exI [of _ "cputchar io 8 s1"]) simp
  next
    case ins
    have e: "edit_key line k = line @ [k]" "echo_key line k = [ucast k]" 
      by (simp_all only: edit_key_def echo_key_def ins if_True if_False simp_thms)
    have st: "buf_store b (length line) (ucast k) = Inr (b[length line := k])"
      using ins assms ucast_ucast8 [of k] by (simp add: buf_store_def BUFLEN_def)
    have step: "readline_loop io True b (length line) s =
        readline_loop io True (b[length line := k]) (length (line @ [k])) (cputchar io (ucast k) s1)"
      using ins s1(1) n eq ge st by (subst readline_loop.simps) (auto simp: BUFLEN_def)
    have "take (length (line @ [k])) (b[length line := k]) = line @ [k]"
      using assms ins by (simp add: take_Suc_conv_app_nth BUFLEN_def)
    then show ?thesis using step s1 assms(6) echo_same [of s1 io "ucast k"]
      unfolding e by (intro exI [of _ "b[length line := k]"] exI [of _ "cputchar io (ucast k) s1"]) simp
  next
    case ign
    have e: "edit_key line k = line" "echo_key line k = []" 
      by (simp_all only: edit_key_def echo_key_def ign if_False)
    have step: "readline_loop io True b (length line) s = readline_loop io True b (length line) s1"
      using ign s1(1) n eq ge k by (subst readline_loop.simps) (auto simp: BUFLEN_def)
    show ?thesis using step s1 assms(6,8)
      unfolding e by (intro exI [of _ b] exI [of _ s1]) simp
  qed
qed

lemma readline_loop_line:
  "quiet io \<Longrightarrow> con_ok s \<Longrightarrow> ring_ok s \<Longrightarrow> waiting s = ks @ e # rest \<Longrightarrow> e \<in> {10, 13} \<Longrightarrow>
    set ks \<inter> {0, 10, 13} = {} \<Longrightarrow> length b = BUFLEN \<Longrightarrow> length line \<le> 1023 \<Longrightarrow> take (length line) b = line \<Longrightarrow>
    \<exists>b' s'. readline_loop io True b (length line) s = Some (Inr (True, b', s')) \<and>
      (let l = foldl edit_key line ks in length b' = BUFLEN \<and> length l \<le> 1023 \<and> take (length l) b' = l \<and> b' ! length l = 0) \<and>
      waiting s' = rest \<and> ring_ok s' \<and> con_ok s' \<and> view s' = fold screen_put (echoed line ks @ [10]) (view s)"
proof (induction ks arbitrary: s b line)
  case Nil
  obtain s1 where s1: "getchar io s = Some (Inr (ucast e, s1))" "ring_ok s1" "waiting s1 = rest"
    "view s1 = view s" "con_ok s1 = con_ok s"
    using quiet_getchar [of io s e rest] Nil.prems by auto
  have e: "(ucast e :: u32) = 10 \<or> (ucast e :: u32) = 13" using Nil.prems(5) by auto
  have st: "buf_store b (length line) 0 = Inr (b[length line := 0])"
    using Nil.prems by (simp add: buf_store_def BUFLEN_def)
  have "readline_loop io True b (length line) s = Some (Inr (True, b[length line := 0], cputchar io 10 s1))"
    using e s1(1) st by (subst readline_loop.simps) auto
  then show ?case using s1 Nil.prems echo_same [of s1 io 10] by (auto simp: Let_def BUFLEN_def)
next
  case (Cons k ks)
  have w: "waiting s = k # ks @ e # rest" "k \<notin> {0, 10, 13}" "set ks \<inter> {0, 10, 13} = {}" using Cons.prems by auto
  obtain b1 s1 where r: "readline_loop io True b (length line) s = readline_loop io True b1 (length (edit_key line k)) s1"
    "con_ok s1" "ring_ok s1" "waiting s1 = ks @ e # rest" "length b1 = BUFLEN"
    "take (length (edit_key line k)) b1 = edit_key line k" "view s1 = fold screen_put (echo_key line k) (view s)"
    using readline_loop_key [OF Cons.prems(1-3) w(1,2) Cons.prems(7-9)] by blast
  show ?case
    using Cons.IH [OF Cons.prems(1) r(2-4) Cons.prems(5) w(3) r(5) edit_key_length [OF Cons.prems(8)] r(6)]
    unfolding r(1) by (simp add: r(7))
qed

section \<open>Waiting for a key\<close>

text \<open>With nothing typed, \<open>getchar\<close> does not come back.\<close>

lemma getchar_Some_waiting:
  assumes "getchar io s = Some r"
  shows "quiet io \<longrightarrow> ring_ok s \<longrightarrow> waiting s \<noteq> []"
proof (rule getchar.raw_induct [OF _ assms], goal_cases)
  case (1 g io s r)
  show ?case
  proof (intro impI notI)
    assume q: "quiet io" and ok: "ring_ok s" and e: "waiting s = []"
    obtain d where "cons_getc io s = Inr (cons_fetch (s\<lparr>dev := d\<rparr>))" using quiet_cons_getc [OF q] by blast
    moreover have "cons_fetch (s\<lparr>dev := d\<rparr>) = (0, s\<lparr>dev := d\<rparr>)" using fetch_none [of "s\<lparr>dev := d\<rparr>"] e ok by simp
    ultimately have "g io (s\<lparr>dev := d\<rparr>) = Some r" using 1(2) by simp
    then show False using 1(1) [of io "s\<lparr>dev := d\<rparr>" r] q ok e by simp
  qed
qed

lemma getchar_waits: "quiet io \<Longrightarrow> ring_ok s \<Longrightarrow> waiting s = [] \<Longrightarrow> getchar io s = None"
  using getchar_Some_waiting [of io s] by (cases "getchar io s") auto

text \<open>Without the end of a line, \<open>readline\<close> takes the keys and waits.\<close>

lemma readline_loop_waits:
  "quiet io \<Longrightarrow> con_ok s \<Longrightarrow> ring_ok s \<Longrightarrow> waiting s = ks \<Longrightarrow> set ks \<inter> {0, 10, 13} = {} \<Longrightarrow> length b = BUFLEN \<Longrightarrow>
    length line \<le> 1023 \<Longrightarrow> take (length line) b = line \<Longrightarrow> readline_loop io True b (length line) s = None"
proof (induction ks arbitrary: s b line)
  case Nil
  then show ?case using getchar_waits [of io s] by (subst readline_loop.simps) simp
next
  case (Cons k ks)
  then have w: "k \<notin> {0, 10, 13}" "set ks \<inter> {0, 10, 13} = {}" by auto
  obtain b1 s1 where r: "readline_loop io True b (length line) s = readline_loop io True b1 (length (edit_key line k)) s1"
    "con_ok s1" "ring_ok s1" "waiting s1 = ks" "length b1 = BUFLEN"
    "take (length (edit_key line k)) b1 = edit_key line k"
    using readline_loop_key [OF Cons.prems(1-4) w(1) Cons.prems(6-8)] by blast
  show ?case unfolding r(1)
    by (rule Cons.IH [OF Cons.prems(1) r(2-4) w(2) r(5) edit_key_length [OF Cons.prems(7)] r(6)])
qed

section \<open>cprintf as output of the formatted characters\<close>

lemma fold_putch: "fold (putch io) out (s, n) = (fold (cputchar io) out s, n)"
  by (induction out arbitrary: s) (simp_all add: putch_def)

lemma cprintf_format:
  "cprintf io fmt ap s = bindR (format fmt ap) (\<lambda>out. Inr (0, fold (cputchar io) out s))"
  by (cases "format fmt ap") (simp_all add: cprintf_def vcprintf_def vprintfmt_format fold_putch)

lemma put_str_plain:
  "0 \<notin> set p \<Longrightarrow> prec < 0 \<Longrightarrow> snd (put_str put False p prec w s) = fold put (map scast p) s \<and>
    fst (put_str put False p prec w s) = w - int (length p)"
  by (induction p arbitrary: w s) (auto simp: Let_def)

lemma format_string:
  assumes "0 \<notin> set p"
  shows "format (bytes ''%s'') [VStr (Some p)] = Inr (map scast p)"
proof -
  have l: "vprintfmt_loop c put [37, 115] 2 ap t = Inr t" for c and put :: "u32 \<Rightarrow> 's \<Rightarrow> 's" and ap t
    by (simp add: vprintfmt_loop.simps [of _ _ "[37, 115]" 2] fmt_at_def)
  have r: "reswitch [37, 115] (Suc 0) ap sp = Inr (115, 2, ap, sp)" for ap sp
    by (subst reswitch.simps) (simp add: fmt_at_def)
  let ?put = "\<lambda>c out. out @ [c :: u32]"
  have "snd (put_str ?put False p (- 1) (- 1) []) = map scast p" "fst (put_str ?put False p (- 1) (- 1) []) \<le> 0"
    using put_str_plain [OF assms, of "- 1" ?put "- 1" "[]"] by simp_all
  then have "conv_s ?put spec0 (Some p) [] = map scast p"
    by (simp add: conv_s_def spec0_def split_beta)
  then show ?thesis
    by (simp add: format_def vprintfmt_def bytes_def vprintfmt_loop.simps [of _ _ "[37, 115]" 0] fmt_at_def
        r l convert_def)
qed

lemma fold_cputchar_same:
  "con_ok s \<Longrightarrow> ring_ok (fold (cputchar io) out s) = ring_ok s \<and> waiting (fold (cputchar io) out s) = waiting s \<and>
    view (fold (cputchar io) out s) = fold screen_put out (view s) \<and> con_ok (fold (cputchar io) out s)"
proof (induction out arbitrary: s)
  case (Cons c out)
  then show ?case using echo_same [of s io c] Cons.IH [of "cputchar io c s"] by simp
qed simp

lemma readline_line:
  assumes "quiet io" "con_ok s" "ring_ok s" "waiting s = ks @ e # rest" "e \<in> {10, 13}"
    "set ks \<inter> {0, 10, 13} = {}" "length b = BUFLEN" "0 \<notin> set p"
  shows "\<exists>b' s'. readline io (Some p) b s = Inr (True, b', s') \<and>
    (let l = foldl edit_key [] ks in length b' = BUFLEN \<and> length l \<le> 1023 \<and> take (length l) b' = l \<and> b' ! length l = 0) \<and>
    waiting s' = rest \<and> ring_ok s' \<and> con_ok s' \<and>
    view s' = fold screen_put (map scast p @ echoed [] ks @ [10]) (view s)"
proof -
  let ?s = "fold (cputchar io) (map scast p) s"
  have "waiting ?s = ks @ e # rest" "ring_ok ?s" "con_ok ?s" "view ?s = fold screen_put (map scast p) (view s)"
    using fold_cputchar_same [OF assms(2), of io "map scast p"] assms(3,4) by simp_all
  moreover from this obtain b' s' where
    "readline_loop io True b 0 ?s = Some (Inr (True, b', s'))"
    "let l = foldl edit_key [] ks in length b' = BUFLEN \<and> length l \<le> 1023 \<and> take (length l) b' = l \<and> b' ! length l = 0"
    "waiting s' = rest" "ring_ok s'" "con_ok s'" "view s' = fold screen_put (echoed [] ks @ [10]) (view ?s)"
    using readline_loop_line [where io = io and s = ?s and ks = ks and e = e and rest = rest and b = b and line = "[]"]
      assms(1,5-7) by auto
  ultimately show ?thesis
    by (auto simp: readline_def cprintf_format format_string [OF assms(8)] iscons_def)
qed

lemma readline_waits:
  assumes "quiet io" "con_ok s" "ring_ok s" "set (waiting s) \<inter> {0, 10, 13} = {}" "length b = BUFLEN" "0 \<notin> set p"
  shows "readline io (Some p) b s = Inl NoReturn"
proof -
  let ?s = "fold (cputchar io) (map scast p) s"
  have "waiting ?s = waiting s" "ring_ok ?s" "con_ok ?s"
    using fold_cputchar_same [OF assms(2), of io "map scast p"] assms(3) by simp_all
  then have "readline_loop io True b 0 ?s = None"
    using readline_loop_waits [of io ?s "waiting s" b "[]"] assms by simp
  then show ?thesis by (simp add: readline_def cprintf_format format_string [OF assms(6)] iscons_def)
qed

end
