(* ===== verification/Kdebug.thy ===== *)
theory Kdebug
  imports Mmu Cstring "HOL-Library.Signed_Division"
begin

text \<open>
  kern/kdebug.c: the search of the STABS table for the debugging information of an instruction
  address. The table is a list of entries; reading outside it is the fault \<open>WildPtr\<close>. The string
  table and the names are addresses of memory. C ints that index the table are HOL integers: the
  table holds fewer than \<open>2 ^ 29\<close> entries of 12 bytes, so the sum of two indices does not overflow.
\<close>

section \<open>The table (inc/stab.h)\<close>

definition N_FUN :: u8 where [jos_consts]: "N_FUN = 0x24"
definition N_SLINE :: u8 where [jos_consts]: "N_SLINE = 0x44"
definition N_SO :: u8 where [jos_consts]: "N_SO = 0x64"
definition N_SOL :: u8 where [jos_consts]: "N_SOL = 0x84"
definition N_PSYM :: u8 where [jos_consts]: "N_PSYM = 0xa0"

record Stab =
  n_strx :: u32
  n_type :: u8
  n_other :: u8
  n_desc :: u16
  n_value :: u32

definition stab_at :: "Stab list \<Rightarrow> int \<Rightarrow> Stab result" where
  "stab_at stabs i = (if 0 \<le> i \<and> i < int (length stabs) then Inr (stabs ! nat i) else Inl WildPtr)"

section \<open>stab_binsearch\<close>

text \<open>The inner loop: from \<open>m\<close> down to the nearest entry of the type, not below \<open>l\<close>.\<close>

function back_to_type :: "Stab list \<Rightarrow> u8 \<Rightarrow> int \<Rightarrow> int \<Rightarrow> int result" where
  "back_to_type stabs ty l m =
     (if l \<le> m
      then bindR (stab_at stabs m) (\<lambda>st.
             if n_type st \<noteq> ty then back_to_type stabs ty l (m - 1) else Inr m)
      else Inr m)"
  by pat_completeness auto
termination
  by (relation "measure (\<lambda>(stabs, ty, l, m). nat (m - l + 1))") auto

declare back_to_type.simps [simp del]

lemma back_to_type_Inr:
  "back_to_type stabs ty l m = Inr k \<Longrightarrow> k \<le> m \<and>
     (l \<le> k \<longrightarrow> 0 \<le> k \<and> k < int (length stabs) \<and> n_type (stabs ! nat k) = ty) \<and>
     (\<forall>i. k < i \<longrightarrow> i \<le> m \<longrightarrow> l \<le> i \<longrightarrow> n_type (stabs ! nat i) \<noteq> ty)"
proof (induction stabs ty l m rule: back_to_type.induct)
  case (1 stabs ty l m)
  show ?case
  proof (cases "l \<le> m")
    case True
    then obtain st where st: "stab_at stabs m = Inr st"
      using "1.prems" by (subst (asm) back_to_type.simps) (auto simp: bindR_eq_Inr)
    then have m: "0 \<le> m" "m < int (length stabs)" "stabs ! nat m = st"
      by (auto simp: stab_at_def split: if_splits)
    show ?thesis
    proof (cases "n_type st = ty")
      case eq: True
      then show ?thesis using "1.prems" True st m by (subst (asm) back_to_type.simps) auto
    next
      case False
      then have *: "back_to_type stabs ty l (m - 1) = Inr k"
        using "1.prems" True st by (subst (asm) back_to_type.simps) simp
      have "\<forall>i. k < i \<longrightarrow> i \<le> m \<longrightarrow> l \<le> i \<longrightarrow> n_type (stabs ! nat i) \<noteq> ty"
        using "1.IH" [OF True st False *] False m(3) by (metis zle_diff1_eq order_le_less)
      then show ?thesis using "1.IH" [OF True st False *] by auto
    qed
  next
    case False
    then show ?thesis using "1.prems" by (subst (asm) back_to_type.simps) auto
  qed
qed

lemma back_to_type_ok:
  "0 \<le> l \<Longrightarrow> m < int (length stabs) \<Longrightarrow> \<exists>k. back_to_type stabs ty l m = Inr k"
proof (induction stabs ty l m rule: back_to_type.induct)
  case (1 stabs ty l m)
  then show ?case by (subst back_to_type.simps) (auto simp: stab_at_def)
qed

definition exact_at :: "Stab list \<Rightarrow> u8 \<Rightarrow> int \<Rightarrow> u32 \<Rightarrow> bool" where
  "exact_at stabs ty l addr \<longleftrightarrow> (\<exists>st. stab_at stabs l = Inr st \<and> n_type st = ty \<and> n_value st = addr)"

lemma sdiv_mid: "(l :: int) \<le> r \<Longrightarrow> l \<le> (l + r) sdiv 2 \<and> (l + r) sdiv 2 \<le> r"
  by (cases "0 \<le> l + r"; cases "l + r = 0") (auto simp: signed_divide_int_def sgn_if)

function binsearch_loop ::
  "Stab list \<Rightarrow> u8 \<Rightarrow> int \<Rightarrow> int \<Rightarrow> bool \<Rightarrow> int \<Rightarrow> int \<Rightarrow> u32 \<Rightarrow> (bool \<times> int \<times> int) result" where
  "binsearch_loop stabs ty l r any_matches region_left region_right addr =
     (if l \<le> r
      then (let true_m = (l + r) sdiv 2
            in bindR (back_to_type stabs ty l true_m) (\<lambda>m.
                 if m < l then binsearch_loop stabs ty (true_m + 1) r any_matches region_left region_right addr
                 else bindR (stab_at stabs m) (\<lambda>st.
                   if n_value st < addr
                   then binsearch_loop stabs ty (true_m + 1) r True m region_right addr
                   else if n_value st > addr
                   then binsearch_loop stabs ty l (m - 1) True region_left (m - 1) addr
                   else binsearch_loop stabs ty m r True m region_right (addr + 1))))
      else Inr (any_matches, region_left, region_right))"
  by pat_completeness auto
termination
proof (relation "measure (\<lambda>(stabs, ty, l, r, any_matches, region_left, region_right, addr).
    2 * nat (r - l + 1) + (if exact_at stabs ty l addr then 1 else 0))", goal_cases)
  case 1 then show ?case by simp
next
  case 2 then show ?case using sdiv_mid by force
next
  case 3 then show ?case using sdiv_mid by force
next
  case (4 stabs ty l r any_matches region_left region_right addr true_m m st)
  then have "m \<le> r" using sdiv_mid [of l r] back_to_type_Inr [OF 4(3)] by simp
  with 4 show ?case by auto
next
  case (5 stabs ty l r any_matches region_left region_right addr true_m m st)
  have m: "l \<le> m" "m \<le> r" "n_type (stabs ! nat m) = ty" "n_value st = addr" "stabs ! nat m = st"
    using 5 sdiv_mid [of l r] back_to_type_Inr [OF 5(3)] by (auto simp: stab_at_def split: if_splits)
  then have "\<not> exact_at stabs ty m (addr + 1)" by (auto simp: exact_at_def stab_at_def)
  moreover have "exact_at stabs ty l addr" if "m = l" using that m 5 by (auto simp: exact_at_def)
  ultimately show ?case using m by (cases "m = l") auto
qed

declare binsearch_loop.simps [simp del]

text \<open>The loop behind it: down from \<open>region_right\<close> to an entry of the type or \<open>region_left\<close>.\<close>

function rightmost_region :: "Stab list \<Rightarrow> u8 \<Rightarrow> int \<Rightarrow> int \<Rightarrow> int result" where
  "rightmost_region stabs ty l region_left =
     (if region_left < l
      then bindR (stab_at stabs l) (\<lambda>st.
             if n_type st \<noteq> ty then rightmost_region stabs ty (l - 1) region_left else Inr l)
      else Inr l)"
  by pat_completeness auto
termination
  by (relation "measure (\<lambda>(stabs, ty, l, region_left). nat (l - region_left))") auto

declare rightmost_region.simps [simp del]

definition stab_binsearch ::
  "Stab list \<Rightarrow> int \<Rightarrow> int \<Rightarrow> u8 \<Rightarrow> u32 \<Rightarrow> (int \<times> int) result" where
  "stab_binsearch stabs region_left region_right ty addr =
     bindR (binsearch_loop stabs ty region_left region_right False region_left region_right addr)
       (\<lambda>(any_matches, region_left, region_right).
         if \<not> any_matches then Inr (region_left, region_left - 1)
         else bindR (rightmost_region stabs ty region_right region_left) (\<lambda>l.
                Inr (l, region_right)))"

section \<open>debuginfo_eip\<close>

text \<open>
  What the search reads: the STABS table and the string table the linker places in the image,
  the address of the literal \<open><unknown>\<close>, and memory.
\<close>

record kimage =
  stab_table :: "Stab list"
  stabstr :: u32
  stabstr_end :: u32
  unknown_str :: u32
  imem :: memory

record Eipdebuginfo =
  eip_file :: u32
  eip_line :: int
  eip_fn_name :: u32
  eip_fn_namelen :: int
  eip_fn_addr :: u32
  eip_fn_narg :: int

definition init_info :: "kimage \<Rightarrow> u32 \<Rightarrow> Eipdebuginfo" where
  "init_info img addr =
     \<lparr>eip_file = unknown_str img, eip_line = 0, eip_fn_name = unknown_str img,
      eip_fn_namelen = 9, eip_fn_addr = addr, eip_fn_narg = 0\<rparr>"

text \<open>The function part: the information, the address to look up the line of, and where.\<close>

definition find_function ::
  "kimage \<Rightarrow> int \<Rightarrow> int \<Rightarrow> int \<Rightarrow> int \<Rightarrow> u32 \<Rightarrow> Eipdebuginfo \<Rightarrow> (Eipdebuginfo \<times> u32 \<times> int \<times> int) result" where
  "find_function img lfile rfile lfun rfun addr info =
     (if lfun \<le> rfun
      then bindR (stab_at (stab_table img) lfun) (\<lambda>st.
             let info = (if n_strx st < stabstr_end img - stabstr img
                         then info\<lparr>eip_fn_name := stabstr img + n_strx st\<rparr> else info)
             in Inr (info\<lparr>eip_fn_addr := n_value st\<rparr>, addr - n_value st, lfun, rfun))
      else Inr (info\<lparr>eip_fn_addr := addr\<rparr>, addr, lfile, rfile))"

text \<open>The way back from the line entry to the entry of its source file.\<close>

function back_to_file :: "Stab list \<Rightarrow> int \<Rightarrow> int \<Rightarrow> int result" where
  "back_to_file stabs lfile lline =
     (if lfile \<le> lline
      then bindR (stab_at stabs lline) (\<lambda>st.
             if n_type st \<noteq> N_SOL \<and> (n_type st \<noteq> N_SO \<or> n_value st = 0)
             then back_to_file stabs lfile (lline - 1) else Inr lline)
      else Inr lline)"
  by pat_completeness auto
termination
  by (relation "measure (\<lambda>(stabs, lfile, lline). nat (lline - lfile + 1))") auto

definition find_file :: "kimage \<Rightarrow> int \<Rightarrow> int \<Rightarrow> Eipdebuginfo \<Rightarrow> Eipdebuginfo result" where
  "find_file img lfile lline info =
     bindR (back_to_file (stab_table img) lfile lline) (\<lambda>lline.
       if lfile \<le> lline
       then bindR (stab_at (stab_table img) lline) (\<lambda>st.
              Inr (if n_strx st < stabstr_end img - stabstr img
                   then info\<lparr>eip_file := stabstr img + n_strx st\<rparr> else info))
       else Inr info)"

function count_args :: "Stab list \<Rightarrow> int \<Rightarrow> int \<Rightarrow> Eipdebuginfo \<Rightarrow> Eipdebuginfo result" where
  "count_args stabs lline rfun info =
     (if lline < rfun
      then bindR (stab_at stabs lline) (\<lambda>st.
             if n_type st = N_PSYM
             then count_args stabs (lline + 1) rfun (info\<lparr>eip_fn_narg := eip_fn_narg info + 1\<rparr>)
             else Inr info)
      else Inr info)"
  by pat_completeness auto
termination
  by (relation "measure (\<lambda>(stabs, lline, rfun, info). nat (rfun - lline))") auto

declare back_to_file.simps [simp del] count_args.simps [simp del]

definition find_line ::
  "kimage \<Rightarrow> int \<Rightarrow> int \<Rightarrow> int \<Rightarrow> int \<Rightarrow> int \<Rightarrow> u32 \<Rightarrow> Eipdebuginfo \<Rightarrow> (int \<times> Eipdebuginfo) result" where
  "find_line img lfile lfun rfun lline rline addr info =
     bindR (stab_binsearch (stab_table img) lline rline N_SLINE addr) (\<lambda>(lline, rline).
       if lline \<le> rline
       then bindR (stab_at (stab_table img) lline) (\<lambda>st.
              bindR (find_file img lfile lline (info\<lparr>eip_line := uint (n_desc st)\<rparr>)) (\<lambda>info.
                bindR (if lfun < rfun then count_args (stab_table img) (lfun + 1) rfun info
                       else Inr info) (\<lambda>info. Inr (0, info))))
       else Inr (- 1, info))"

definition debuginfo_eip :: "kimage \<Rightarrow> u32 \<Rightarrow> (int \<times> Eipdebuginfo) result" where
  "debuginfo_eip img addr =
     (let info = init_info img addr; stabs = stab_table img
      in if addr \<ge> ULIM
         then if stabstr_end img \<le> stabstr img \<or> imem img (stabstr_end img - 1) \<noteq> 0
              then Inr (- 1, info)
              else bindR (stab_binsearch stabs 0 (int (length stabs) - 1) N_SO addr) (\<lambda>(lfile, rfile).
                if lfile = 0 then Inr (- 1, info)
                else bindR (stab_binsearch stabs lfile rfile N_FUN addr) (\<lambda>(lfun, rfun).
                  bindR (find_function img lfile rfile lfun rfun addr info) (\<lambda>(info, addr, lline, rline).
                    bindR (returns (strfind (imem img) (eip_fn_name info) 58)) (\<lambda>colon.
                      find_line img lfile lfun rfun lline rline addr
                        (info\<lparr>eip_fn_namelen := sint (colon - eip_fn_name info)\<rparr>)))))
         else Inl (Panic ''User address''))"

section \<open>The search ends, inside the table\<close>

text \<open>The indices of the entries of a type in a region of the table.\<close>

definition typed :: "Stab list \<Rightarrow> u8 \<Rightarrow> int \<Rightarrow> int \<Rightarrow> int set" where
  "typed stabs ty a b = {i. a \<le> i \<and> i \<le> b \<and> n_type (stabs ! nat i) = ty}"

abbreviation value_at :: "Stab list \<Rightarrow> int \<Rightarrow> u32" where
  "value_at stabs i \<equiv> n_value (stabs ! nat i)"

lemma rightmost_region_cases:
  "- 1 \<le> a \<Longrightarrow> l < int (length stabs) \<Longrightarrow>
    \<exists>k. rightmost_region stabs ty l a = Inr k \<and>
      (k = min a l \<and> (\<forall>i. a < i \<longrightarrow> i \<le> l \<longrightarrow> n_type (stabs ! nat i) \<noteq> ty) \<or>
       a < k \<and> k \<le> l \<and> n_type (stabs ! nat k) = ty)"
proof (induction stabs ty l a rule: rightmost_region.induct)
  case (1 stabs ty l a)
  show ?case
  proof (cases "a < l \<and> n_type (stabs ! nat l) \<noteq> ty")
    case True
    then have st: "stab_at stabs l = Inr (stabs ! nat l)" using "1.prems" by (simp add: stab_at_def)
    have e: "rightmost_region stabs ty l a = rightmost_region stabs ty (l - 1) a"
      using True st by (subst rightmost_region.simps) simp
    obtain k where k: "rightmost_region stabs ty (l - 1) a = Inr k"
      "k = min a (l - 1) \<and> (\<forall>i. a < i \<longrightarrow> i \<le> l - 1 \<longrightarrow> n_type (stabs ! nat i) \<noteq> ty) \<or>
       a < k \<and> k \<le> l - 1 \<and> n_type (stabs ! nat k) = ty"
      using "1.IH" [OF _ st] True "1.prems" by auto
    have "k = min a l \<and> (\<forall>i. a < i \<longrightarrow> i \<le> l \<longrightarrow> n_type (stabs ! nat i) \<noteq> ty)"
      if *: "k = min a (l - 1) \<and> (\<forall>i. a < i \<longrightarrow> i \<le> l - 1 \<longrightarrow> n_type (stabs ! nat i) \<noteq> ty)"
    proof -
      have "n_type (stabs ! nat i) \<noteq> ty" if "a < i" "i \<le> l" for i
        using * that True by (cases "i = l") auto
      then show ?thesis using * True by auto
    qed
    then show ?thesis using e k by auto
  next
    case False
    then show ?thesis using "1.prems"
      by (subst rightmost_region.simps) (auto simp: stab_at_def min_def)
  qed
qed

text \<open>One round of the loop, as an equation per case.\<close>

lemma binsearch_loop_step:
  assumes "0 \<le> l" "l \<le> r" "r < int (length stabs)"
  obtains (skip) t where "l \<le> t" "t \<le> r" "typed stabs ty l t = {}"
      "binsearch_loop stabs ty l r any rl rr addr = binsearch_loop stabs ty (t + 1) r any rl rr addr"
  | (lower) m t where "m \<in> typed stabs ty l r" "m \<le> t" "t \<le> r" "typed stabs ty (m + 1) t = {}"
      "value_at stabs m < addr"
      "binsearch_loop stabs ty l r any rl rr addr = binsearch_loop stabs ty (t + 1) r True m rr addr"
  | (upper) m where "m \<in> typed stabs ty l r" "addr < value_at stabs m"
      "binsearch_loop stabs ty l r any rl rr addr = binsearch_loop stabs ty l (m - 1) True rl (m - 1) addr"
  | (exact) m where "m \<in> typed stabs ty l r" "value_at stabs m = addr"
      "binsearch_loop stabs ty l r any rl rr addr = binsearch_loop stabs ty m r True m rr (addr + 1)"
proof -
  define t where "t = (l + r) sdiv 2"
  have t: "l \<le> t" "t \<le> r" using sdiv_mid [OF assms(2)] by (simp_all add: t_def)
  obtain m where m: "back_to_type stabs ty l t = Inr m"
    using back_to_type_ok [of l t stabs ty] assms t by auto
  note M = back_to_type_Inr [OF m]
  show thesis
  proof (cases "m < l")
    case True
    then have "typed stabs ty l t = {}" using M by (auto simp: typed_def)
    moreover have "binsearch_loop stabs ty l r any rl rr addr = binsearch_loop stabs ty (t + 1) r any rl rr addr"
      using True m assms(2) by (subst binsearch_loop.simps) (simp add: t_def Let_def)
    ultimately show thesis using t skip by blast
  next
    case False
    then have mm: "m \<in> typed stabs ty l r" "m \<le> t" "typed stabs ty (m + 1) t = {}"
      and st: "stab_at stabs m = Inr (stabs ! nat m)"
      using M t by (auto simp: typed_def stab_at_def)
    consider "value_at stabs m < addr" | "addr < value_at stabs m" | "value_at stabs m = addr"
      by (rule linorder_cases [of "value_at stabs m" addr])
    then show thesis
    proof cases
      case 1
      then have "binsearch_loop stabs ty l r any rl rr addr = binsearch_loop stabs ty (t + 1) r True m rr addr"
        using False m st assms(2) by (subst binsearch_loop.simps) (simp add: t_def Let_def)
      then show thesis using 1 mm t lower by blast
    next
      case 2
      then have "binsearch_loop stabs ty l r any rl rr addr = binsearch_loop stabs ty l (m - 1) True rl (m - 1) addr"
        using False m st assms(2) by (subst binsearch_loop.simps) (auto simp: t_def Let_def)
      then show thesis using 2 mm upper by blast
    next
      case 3
      then have "binsearch_loop stabs ty l r any rl rr addr = binsearch_loop stabs ty m r True m rr (addr + 1)"
        using False m st assms(2) by (subst binsearch_loop.simps) (auto simp: t_def Let_def)
      then show thesis using 3 mm exact by blast
    qed
  qed
qed

text \<open>The rule for an invariant \<open>P\<close> of the loop: the loop ends, and \<open>P\<close> holds there.\<close>

lemma binsearch_loop_rule:
  assumes P: "P l r any rl rr addr"
    and bounds: "\<And>l r any rl rr addr. P l r any rl rr addr \<Longrightarrow> 0 \<le> l \<and> r < int (length stabs)"
    and skip: "\<And>l r any rl rr addr t. P l r any rl rr addr \<Longrightarrow> l \<le> t \<Longrightarrow> t \<le> r \<Longrightarrow>
      typed stabs ty l t = {} \<Longrightarrow> P (t + 1) r any rl rr addr"
    and lower: "\<And>l r any rl rr addr m t. P l r any rl rr addr \<Longrightarrow> m \<in> typed stabs ty l r \<Longrightarrow> m \<le> t \<Longrightarrow>
      t \<le> r \<Longrightarrow> typed stabs ty (m + 1) t = {} \<Longrightarrow> value_at stabs m < addr \<Longrightarrow> P (t + 1) r True m rr addr"
    and upper: "\<And>l r any rl rr addr m. P l r any rl rr addr \<Longrightarrow> m \<in> typed stabs ty l r \<Longrightarrow>
      addr < value_at stabs m \<Longrightarrow> P l (m - 1) True rl (m - 1) addr"
    and exact: "\<And>l r any rl rr addr m. P l r any rl rr addr \<Longrightarrow> m \<in> typed stabs ty l r \<Longrightarrow>
      value_at stabs m = addr \<Longrightarrow> P m r True m rr (addr + 1)"
  shows "\<exists>l' r' any' rl' rr' addr'. binsearch_loop stabs ty l r any rl rr addr = Inr (any', rl', rr') \<and>
    P l' r' any' rl' rr' addr' \<and> r' < l'"
  using P
proof (induction "2 * nat (r - l + 1) + (if exact_at stabs ty l addr then 1 else 0)"
    arbitrary: l r any rl rr addr rule: less_induct)
  case less
  show ?case
  proof (cases "l \<le> r")
    case False
    then have "binsearch_loop stabs ty l r any rl rr addr = Inr (any, rl, rr)"
      by (subst binsearch_loop.simps) simp
    then show ?thesis using False less.prems by (metis not_le)
  next
    case True
    have b: "0 \<le> l" "r < int (length stabs)" using bounds [OF less.prems] by auto
    show ?thesis
    proof (cases rule: binsearch_loop_step [OF b(1) True b(2), of ty any rl rr addr])
      case (1 t)
      have "2 * nat (r - (t + 1) + 1) + (if exact_at stabs ty (t + 1) addr then 1 else 0)
          < 2 * nat (r - l + 1) + (if exact_at stabs ty l addr then 1 else 0)" using 1(1,2) by auto
      from less.hyps [OF this skip [OF less.prems 1(1-3)]] show ?thesis unfolding 1(4) .
    next
      case (2 m t)
      then have "l \<le> m" by (simp add: typed_def)
      then have "2 * nat (r - (t + 1) + 1) + (if exact_at stabs ty (t + 1) addr then 1 else 0)
          < 2 * nat (r - l + 1) + (if exact_at stabs ty l addr then 1 else 0)" using 2(2,3) by auto
      from less.hyps [OF this lower [OF less.prems 2(1-5)]] show ?thesis unfolding 2(6) .
    next
      case (3 m)
      then have "m \<le> r" "l \<le> m" by (simp_all add: typed_def)
      then have "2 * nat (m - 1 - l + 1) + (if exact_at stabs ty l addr then 1 else 0)
          < 2 * nat (r - l + 1) + (if exact_at stabs ty l addr then 1 else 0)" by simp
      from less.hyps [OF this upper [OF less.prems 3(1,2)]] show ?thesis unfolding 3(3) .
    next
      case (4 m)
      then have m: "m \<le> r" "l \<le> m" by (simp_all add: typed_def)
      have "stab_at stabs m = Inr (stabs ! nat m)" using m b by (simp add: stab_at_def)
      then have "exact_at stabs ty m addr" "\<not> exact_at stabs ty m (addr + 1)"
        using 4(1,2) by (auto simp: exact_at_def typed_def)
      then have "2 * nat (r - m + 1) + (if exact_at stabs ty m (addr + 1) then 1 else 0)
          < 2 * nat (r - l + 1) + (if exact_at stabs ty l addr then 1 else 0)"
        using m by (cases "m = l") auto
      from less.hyps [OF this exact [OF less.prems 4(1,2)]] show ?thesis unfolding 4(3) .
    qed
  qed
qed


text \<open>
  The search on a sorted region. With \<open>T\<close> the entries of the type, \<open>A\<close> those at or below the
  address and \<open>B\<close> those above it, the result is: nothing if \<open>T\<close> is empty, else from the last of
  \<open>A\<close> to the entry before the first of \<open>B\<close>.
\<close>

definition sorted_region :: "Stab list \<Rightarrow> u8 \<Rightarrow> int \<Rightarrow> int \<Rightarrow> bool" where
  "sorted_region stabs ty a b \<longleftrightarrow> (\<forall>i\<in>typed stabs ty a b. \<forall>j\<in>typed stabs ty a b.
     i \<le> j \<longrightarrow> value_at stabs i \<le> value_at stabs j)"

text \<open>The address after an address of an entry is none of the entries'.\<close>

definition lone_match :: "Stab list \<Rightarrow> u8 \<Rightarrow> int \<Rightarrow> int \<Rightarrow> u32 \<Rightarrow> bool" where
  "lone_match stabs ty a b addr \<longleftrightarrow> (addr \<in> value_at stabs ` typed stabs ty a b \<longrightarrow>
     addr + 1 \<noteq> 0 \<and> addr + 1 \<notin> value_at stabs ` typed stabs ty a b)"

definition search_inv ::
  "Stab list \<Rightarrow> u8 \<Rightarrow> int \<Rightarrow> int \<Rightarrow> u32 \<Rightarrow> int \<Rightarrow> int \<Rightarrow> bool \<Rightarrow> int \<Rightarrow> int \<Rightarrow> u32 \<Rightarrow> bool" where
  "search_inv stabs ty L R a0 l r any rl rr addr \<longleftrightarrow>
     L \<le> l \<and> l \<le> r + 1 \<and> r \<le> R \<and> rr = r \<and> (addr = a0 \<or> addr = a0 + 1 \<and> a0 \<in> value_at stabs ` typed stabs ty L R) \<and>
     (\<forall>i\<in>typed stabs ty L R. r < i \<longrightarrow> a0 < value_at stabs i) \<and>
     (r = R \<or> r + 1 \<in> typed stabs ty L R) \<and>
     (\<forall>i\<in>typed stabs ty L R. rl < i \<longrightarrow> l \<le> i) \<and>
     (rl \<in> typed stabs ty L R \<and> value_at stabs rl \<le> a0 \<and> any \<or> rl = L \<and> (\<forall>i\<in>typed stabs ty L R. l \<le> i)) \<and>
     (if any then typed stabs ty L R \<noteq> {} else r = R \<and> rl = L)"

lemma typed_sub: "i \<in> typed stabs ty l r \<Longrightarrow> L \<le> l \<Longrightarrow> r \<le> R \<Longrightarrow> i \<in> typed stabs ty L R \<and> l \<le> i \<and> i \<le> r"
  by (auto simp: typed_def)

lemma search_inv_hit:
  "L \<le> l \<Longrightarrow> l \<le> r + 1 \<Longrightarrow> r \<le> R \<Longrightarrow> addr = a0 \<or> addr = a0 + 1 \<and> a0 \<in> value_at stabs ` typed stabs ty L R \<Longrightarrow>
    \<forall>i\<in>typed stabs ty L R. r < i \<longrightarrow> a0 < value_at stabs i \<Longrightarrow> r = R \<or> r + 1 \<in> typed stabs ty L R \<Longrightarrow>
    \<forall>i\<in>typed stabs ty L R. rl < i \<longrightarrow> l \<le> i \<Longrightarrow> rl \<in> typed stabs ty L R \<Longrightarrow> value_at stabs rl \<le> a0 \<Longrightarrow>
    search_inv stabs ty L R a0 l r True rl r addr"
  unfolding search_inv_def if_True by blast

lemma search_invD:
  assumes "search_inv stabs ty L R a0 l r any rl rr addr"
  shows "L \<le> l" "l \<le> r + 1" "r \<le> R" "rr = r" "addr = a0 \<or> addr = a0 + 1 \<and> a0 \<in> value_at stabs ` typed stabs ty L R"
    "\<forall>i\<in>typed stabs ty L R. r < i \<longrightarrow> a0 < value_at stabs i" "r = R \<or> r + 1 \<in> typed stabs ty L R"
    "\<forall>i\<in>typed stabs ty L R. rl < i \<longrightarrow> l \<le> i"
    "rl \<in> typed stabs ty L R \<and> value_at stabs rl \<le> a0 \<and> any \<or> rl = L \<and> (\<forall>i\<in>typed stabs ty L R. l \<le> i)"
    "if any then typed stabs ty L R \<noteq> {} else r = R \<and> rl = L"
  using assms unfolding search_inv_def by blast+

lemma typed_empty: "typed stabs ty l t = {} \<Longrightarrow> i \<in> typed stabs ty L R \<Longrightarrow> l \<le> i \<Longrightarrow> t + 1 \<le> i"
  by (rule ccontr) (auto simp: typed_def)

lemma search_loop:
  assumes L: "0 \<le> L" "L \<le> R + 1" "R < int (length stabs)" and sorted: "sorted_region stabs ty L R"
    and a0: "lone_match stabs ty L R a0"
  shows "\<exists>l r any rl rr addr. binsearch_loop stabs ty L R False L R a0 = Inr (any, rl, rr) \<and>
    search_inv stabs ty L R a0 l r any rl rr addr \<and> r < l"
proof (rule binsearch_loop_rule [where P = "search_inv stabs ty L R a0"])
  have a1: "a0 + 1 \<noteq> 0" "a0 + 1 \<notin> value_at stabs ` typed stabs ty L R" if "a0 \<in> value_at stabs ` typed stabs ty L R"
    using a0 that by (simp_all add: lone_match_def)
  have le1: "v \<le> a0" if "v < a0 + 1" "a0 + 1 \<noteq> 0" for v
    using that unatSuc [of a0] by (simp add: add.commute word_less_nat_alt word_le_nat_alt)
  have lt1: "a0 < a0 + 1" if "a0 + 1 \<noteq> 0"
    using that unatSuc [of a0] by (simp add: add.commute word_less_nat_alt)
  show "search_inv stabs ty L R a0 L R False L R a0"
    using L by (auto simp: search_inv_def typed_def)
  fix l r any rl rr addr
  assume I: "search_inv stabs ty L R a0 l r any rl rr addr"
  note D = search_invD [OF I]
  show "0 \<le> l \<and> r < int (length stabs)" using D(1,3) L by simp
  { fix t assume t: "l \<le> t" "t \<le> r" "typed stabs ty l t = {}"
    have n: "\<forall>i\<in>typed stabs ty L R. l \<le> i \<longrightarrow> t + 1 \<le> i"
      using typed_empty [OF t(3)] by blast
    have "L \<le> t + 1" "t + 1 \<le> r + 1" using D(1) t by simp_all
    then show "search_inv stabs ty L R a0 (t + 1) r any rl rr addr"
      unfolding search_inv_def using D n by blast }
  { fix m t assume t: "m \<in> typed stabs ty l r" "m \<le> t" "t \<le> r" "typed stabs ty (m + 1) t = {}" "value_at stabs m < addr"
    have n: "\<forall>i\<in>typed stabs ty L R. m < i \<longrightarrow> t + 1 \<le> i"
      using typed_empty [OF t(4)] by auto
    have m: "m \<in> typed stabs ty L R" "l \<le> m" using typed_sub [OF t(1)] D(1,3) by auto
    have "value_at stabs m \<le> a0" using t(5) D(5) le1 a1 by auto
    then show "search_inv stabs ty L R a0 (t + 1) r True m rr addr"
      unfolding D(4) using D m t n by (intro search_inv_hit) simp_all }
  { fix m assume m: "m \<in> typed stabs ty l r" "addr < value_at stabs m"
    have M: "m \<in> typed stabs ty L R" "l \<le> m" "m \<le> r" using typed_sub [OF m(1)] D(1,3) by auto
    have "a0 < value_at stabs m" using D(5)
    proof
      assume "addr = a0 + 1 \<and> a0 \<in> value_at stabs ` typed stabs ty L R"
      then show ?thesis using m(2) lt1 a1(1) by (auto intro: less_trans)
    qed (use m(2) in simp)
    then have n: "\<forall>i\<in>typed stabs ty L R. m - 1 < i \<longrightarrow> a0 < value_at stabs i"
      using M sorted unfolding sorted_region_def by (auto intro: less_le_trans)
    have "l \<le> (m - 1) + 1" "m - 1 \<le> R" "m - 1 + 1 \<in> typed stabs ty L R" using M D(3) by simp_all
    then show "search_inv stabs ty L R a0 l (m - 1) True rl (m - 1) addr"
      unfolding search_inv_def using D n M by auto }
  { fix m assume m: "m \<in> typed stabs ty l r" "value_at stabs m = addr"
    have M: "m \<in> typed stabs ty L R" "l \<le> m" "m \<le> r" using typed_sub [OF m(1)] D(1,3) by auto
    have "addr = a0" "a0 \<in> value_at stabs ` typed stabs ty L R" using m(2) M(1) a1(2) D(5)
      by (metis imageI)+
    then show "search_inv stabs ty L R a0 m r True m rr (addr + 1)"
      unfolding D(4) using D M m by (intro search_inv_hit) auto }
qed

definition stabs_upto :: "Stab list \<Rightarrow> u8 \<Rightarrow> int \<Rightarrow> int \<Rightarrow> u32 \<Rightarrow> int set" where
  "stabs_upto stabs ty a b addr = {i \<in> typed stabs ty a b. value_at stabs i \<le> addr}"

definition stabs_above :: "Stab list \<Rightarrow> u8 \<Rightarrow> int \<Rightarrow> int \<Rightarrow> u32 \<Rightarrow> int set" where
  "stabs_above stabs ty a b addr = {i \<in> typed stabs ty a b. addr < value_at stabs i}"

lemma finite_typed [simp]: "finite (typed stabs ty a b)"
  by (rule finite_subset [of _ "{a..b}"]) (auto simp: typed_def)

lemma finite_stabs [simp]: "finite (stabs_upto stabs ty a b addr)" "finite (stabs_above stabs ty a b addr)"
  by (simp_all add: stabs_upto_def stabs_above_def)

lemma rightmost_region_untyped:
  assumes "- 1 \<le> a" "l < int (length stabs)" "typed stabs ty (a + 1) l = {}"
  shows "rightmost_region stabs ty l a = Inr (min a l)"
proof -
  obtain k where "rightmost_region stabs ty l a = Inr k"
    "k = min a l \<or> a < k \<and> k \<le> l \<and> n_type (stabs ! nat k) = ty"
    using rightmost_region_cases [OF assms(1,2), of ty] by blast
  moreover have "\<not> (a < k \<and> k \<le> l \<and> n_type (stabs ! nat k) = ty)"
    using assms(3) by (auto simp: typed_def)
  ultimately show ?thesis by blast
qed

lemma stab_binsearch_sorted:
  assumes L: "0 \<le> L" "L \<le> R + 1" "R < int (length stabs)" and sorted: "sorted_region stabs ty L R"
    and a0: "lone_match stabs ty L R a0"
  shows "stab_binsearch stabs L R ty a0 = Inr
    (if typed stabs ty L R = {} then (L, L - 1)
     else let right = Min (insert (R + 1) (stabs_above stabs ty L R a0)) - 1
          in (if stabs_upto stabs ty L R a0 = {} then min L right else Max (stabs_upto stabs ty L R a0), right))"
proof -
  let ?T = "typed stabs ty L R" and ?A = "stabs_upto stabs ty L R a0" and ?B = "stabs_above stabs ty L R a0"
  obtain l r any rl rr addr where run: "binsearch_loop stabs ty L R False L R a0 = Inr (any, rl, rr)"
    and inv: "search_inv stabs ty L R a0 l r any rl rr addr" and "r < l"
    using search_loop [OF assms] by blast
  note D = search_invD [OF inv]
  have un: "i \<le> rl \<or> r < i" if "i \<in> ?T" for i using D(8) \<open>r < l\<close> that by force
  have Ale: "i \<le> r" if "i \<in> ?A" for i using D(6) that by (auto simp: stabs_upto_def)
  show ?thesis
  proof (cases any)
    case False
    then have "?T = {}" using D(9,10) \<open>r < l\<close> by (auto simp: typed_def)
    then show ?thesis using False D(10) run by (simp add: stab_binsearch_def)
  next
    case True
    then have ne: "?T \<noteq> {}" using D(10) by simp
    have rl: "- 1 \<le> rl" "L \<le> rl" using D(9) L by (auto simp: typed_def)
    have nt: "typed stabs ty (rl + 1) r = {}"
    proof (rule equals0I)
      fix i assume "i \<in> typed stabs ty (rl + 1) r"
      then have "i \<in> ?T" "rl < i" "i \<le> r" using D(3) rl by (auto simp: typed_def)
      then show False using un by force
    qed
    have res: "stab_binsearch stabs L R ty a0 = Inr (min rl r, r)"
      using run True rightmost_region_untyped [OF rl(1) _ nt] D(3,4) L(3) by (simp add: stab_binsearch_def)
    have Bgt: "r < i" if "i \<in> ?B" for i
    proof (rule ccontr)
      assume "\<not> r < i"
      moreover have i: "i \<in> ?T" "a0 < value_at stabs i" using that by (auto simp: stabs_above_def)
      ultimately have "i \<le> rl" "i < l" using un \<open>r < l\<close> by force+
      then have "rl \<in> ?T" "value_at stabs rl \<le> a0" using D(9) i(1) by force+
      then show False using i sorted \<open>i \<le> rl\<close> unfolding sorted_region_def by (meson leD order_trans)
    qed
    have "Min (insert (R + 1) ?B) = r + 1"
    proof (rule Min_eqI)
      show "r + 1 \<in> insert (R + 1) ?B" using D(6,7) by (auto simp: stabs_above_def)
      show "r + 1 \<le> i" if "i \<in> insert (R + 1) ?B" for i using that Bgt D(3) by force
    qed simp
    moreover have "(if ?A = {} then min L r else Max ?A) = min rl r"
    proof (cases "?A = {}")
      case True
      then have "rl = L" using D(9) by (auto simp: stabs_upto_def)
      with True show ?thesis by simp
    next
      case False
      then obtain i where i: "i \<in> ?A" by blast
      then have "i < l" "i \<in> ?T" using Ale \<open>r < l\<close> by (force simp: stabs_upto_def)+
      then have "rl \<in> ?A" using D(9) by (force simp: stabs_upto_def)
      moreover have "j \<le> rl" if "j \<in> ?A" for j using un [of j] Ale [OF that] that by (auto simp: stabs_upto_def)
      ultimately have "Max ?A = rl" by (intro Max_eqI) auto
      with False show ?thesis using Ale [OF \<open>rl \<in> ?A\<close>] by simp
    qed
    ultimately show ?thesis using res ne by (simp add: Let_def)
  qed
qed

text \<open>
  The search on any region, sorted or not, when its first entry is not of the type: it ends and
  reads the table inside the region only.
\<close>

definition region_inv ::
  "Stab list \<Rightarrow> u8 \<Rightarrow> int \<Rightarrow> int \<Rightarrow> int \<Rightarrow> int \<Rightarrow> bool \<Rightarrow> int \<Rightarrow> int \<Rightarrow> u32 \<Rightarrow> bool" where
  "region_inv stabs ty L R l r any rl rr addr \<longleftrightarrow>
     L \<le> l \<and> r \<le> R \<and> rr = r \<and> L \<le> rl \<and> rl \<le> r \<and> (any \<or> rl = L) \<and>
     (rl = L \<or> rl \<in> typed stabs ty L R \<and> (rl < l \<or> rl = l \<and> value_at stabs rl < addr))"

definition values_ok :: "Stab list \<Rightarrow> bool" where
  "values_ok stabs \<longleftrightarrow> (\<forall>st\<in>set stabs. n_value st + 1 \<noteq> 0)"

lemma stab_binsearch_region:
  assumes L: "0 \<le> L" "L \<le> R" "R < int (length stabs)" and ty: "n_type (stabs ! nat L) \<noteq> ty"
    and vals: "values_ok stabs"
  shows "\<exists>a b. stab_binsearch stabs L R ty addr = Inr (a, b) \<and>
    (a = L \<and> b = L - 1 \<or> L \<le> a \<and> a \<le> b \<and> b \<le> R \<and> (a = L \<or> n_type (stabs ! nat a) = ty))"
proof -
  have gt: "L < m" if "m \<in> typed stabs ty l r" "L \<le> l" for m l r
    using that ty by (cases "m = L") (auto simp: typed_def)
  have "\<exists>l r any rl rr addr'. binsearch_loop stabs ty L R False L R addr = Inr (any, rl, rr) \<and>
    region_inv stabs ty L R l r any rl rr addr' \<and> r < l"
  proof (rule binsearch_loop_rule [where P = "region_inv stabs ty L R"])
    show "region_inv stabs ty L R L R False L R addr" using L by (simp add: region_inv_def)
    fix l r any rl rr addr
    assume I: "region_inv stabs ty L R l r any rl rr addr"
    then have b: "L \<le> l" "r \<le> R" by (simp_all add: region_inv_def)
    show "0 \<le> l \<and> r < int (length stabs)" using b L by simp
    { fix t assume "l \<le> t" "t \<le> r"
      then show "region_inv stabs ty L R (t + 1) r any rl rr addr"
        using I unfolding region_inv_def by auto }
    { fix m t assume "m \<in> typed stabs ty l r" "m \<le> t" "t \<le> r"
      then show "region_inv stabs ty L R (t + 1) r True m rr addr"
        using I typed_sub [of m stabs ty l r L R] unfolding region_inv_def by auto }
    { fix m assume m: "m \<in> typed stabs ty l r" "addr < value_at stabs m"
      then have "rl \<le> m - 1"
        using I typed_sub [OF m(1) b] gt [OF m(1) b(1)] unfolding region_inv_def
        by (cases "m = l") auto
      then show "region_inv stabs ty L R l (m - 1) True rl (m - 1) addr"
        using I typed_sub [OF m(1) b] unfolding region_inv_def by auto }
    { fix m assume m: "m \<in> typed stabs ty l r" "value_at stabs m = addr"
      have M: "m \<in> typed stabs ty L R" "l \<le> m" "m \<le> r" using typed_sub [OF m(1) b] by auto
      then have "stabs ! nat m \<in> set stabs" using L b by simp
      then have "addr + 1 \<noteq> 0" using vals m(2) by (auto simp: values_ok_def)
      then have "value_at stabs m < addr + 1"
        using m(2) unatSuc [of addr] by (simp add: add.commute word_less_nat_alt)
      then show "region_inv stabs ty L R m r True m rr (addr + 1)"
        using I M unfolding region_inv_def by auto }
  qed
  then obtain l r any rl rr addr' where run: "binsearch_loop stabs ty L R False L R addr = Inr (any, rl, rr)"
    and I: "region_inv stabs ty L R l r any rl rr addr'" by blast
  show ?thesis
  proof (cases any)
    case False
    then show ?thesis using run I by (simp add: stab_binsearch_def region_inv_def)
  next
    case True
    have b: "L \<le> rl" "rl \<le> r" "rr = r" "r \<le> R" "rl = L \<or> n_type (stabs ! nat rl) = ty"
      using I by (auto simp: region_inv_def typed_def)
    obtain k where "rightmost_region stabs ty rr rl = Inr k"
      "k = min rl rr \<or> rl < k \<and> k \<le> rr \<and> n_type (stabs ! nat k) = ty"
      using rightmost_region_cases [of rl rr stabs ty] b L by auto
    then show ?thesis using run True b by (auto simp: stab_binsearch_def)
  qed
qed

lemma strfind_ends: "m e = 0 \<Longrightarrow> \<exists>q. strfind m p c = Some q"
proof (induction "unat (e - p)" arbitrary: p rule: less_induct)
  case less
  show ?case
  proof (cases "m p = 0")
    case True
    then show ?thesis by (subst strfind.simps) simp
  next
    case False
    then have "e - p \<noteq> 0" using less.prems by auto
    then have "unat (e - (p + 1)) < unat (e - p)"
      using measure_unat [of "e - p"] by (simp add: diff_diff_eq [symmetric])
    from less.hyps [OF this less.prems] show ?thesis
      using False by (subst strfind.simps) simp
  qed
qed

lemma back_to_file_ok:
  "0 \<le> lfile \<Longrightarrow> lline < int (length stabs) \<Longrightarrow> \<exists>k. back_to_file stabs lfile lline = Inr k \<and> k \<le> lline"
proof (induction stabs lfile lline rule: back_to_file.induct)
  case (1 stabs lfile lline)
  show ?case
  proof (cases "lfile \<le> lline")
    case True
    then have st: "stab_at stabs lline = Inr (stabs ! nat lline)" using "1.prems" by (simp add: stab_at_def)
    then show ?thesis using "1.IH" [OF True st] "1.prems" True
      by (subst back_to_file.simps) force
  qed (subst back_to_file.simps, simp)
qed

lemma count_args_ok:
  "0 \<le> lline \<Longrightarrow> rfun \<le> int (length stabs) \<Longrightarrow> \<exists>i. count_args stabs lline rfun info = Inr i"
proof (induction stabs lline rfun info rule: count_args.induct)
  case (1 stabs lline rfun info)
  then show ?case by (subst count_args.simps) (auto simp: stab_at_def)
qed

lemma find_function_ok:
  assumes "lfun \<le> rfun \<Longrightarrow> 0 \<le> lfun \<and> rfun < int (length (stab_table img))"
  shows "\<exists>i a. find_function img lfile rfile lfun rfun addr info =
    Inr (i, a, if lfun \<le> rfun then (lfun, rfun) else (lfile, rfile))"
  using assms by (auto simp: find_function_def stab_at_def Let_def)

lemma find_file_ok:
  assumes "0 \<le> lfile" "lline < int (length (stab_table img))"
  shows "\<exists>i. find_file img lfile lline info = Inr i"
  using back_to_file_ok [OF assms] assms by (auto simp: find_file_def stab_at_def)

lemma find_line_ok:
  assumes l: "0 \<le> lline" "lline \<le> rline" "rline < int (length (stab_table img))" "0 \<le> lfile" "0 \<le> lfun"
    "rfun < int (length (stab_table img))"
    and ty: "n_type (stab_table img ! nat lline) \<noteq> N_SLINE" and vals: "values_ok (stab_table img)"
  shows "\<exists>r i. find_line img lfile lfun rfun lline rline addr info = Inr (r, i) \<and> (r = 0 \<or> r = - 1)"
proof -
  obtain a b where s: "stab_binsearch (stab_table img) lline rline N_SLINE addr = Inr (a, b)"
    "a = lline \<and> b = lline - 1 \<or> lline \<le> a \<and> a \<le> b \<and> b \<le> rline"
    using stab_binsearch_region [OF l(1-3) ty vals, of addr] by blast
  show ?thesis
  proof (cases "a \<le> b")
    case False
    then show ?thesis using s(1) by (simp add: find_line_def)
  next
    case True
    then have b: "0 \<le> a" "a < int (length (stab_table img))" using s(2) l by auto
    then have st: "stab_at (stab_table img) a = Inr (stab_table img ! nat a)" by (simp add: stab_at_def)
    obtain i where i: "find_file img lfile a (info\<lparr>eip_line := uint (n_desc (stab_table img ! nat a))\<rparr>) = Inr i"
      using find_file_ok [OF l(4) b(2)] by blast
    obtain i' where "count_args (stab_table img) (lfun + 1) rfun i = Inr i'"
      using count_args_ok [of "lfun + 1" rfun "stab_table img" i] l by auto
    then show ?thesis using True s(1) st i by (auto simp: find_line_def)
  qed
qed

lemma debuginfo_eip_ends:
  assumes "ULIM \<le> addr" "stab_table img \<noteq> []" "n_type (stab_table img ! 0) \<noteq> N_SO" "values_ok (stab_table img)"
  shows "\<exists>r info. debuginfo_eip img addr = Inr (r, info) \<and> (r = 0 \<or> r = - 1)"
proof (cases "stabstr_end img \<le> stabstr img \<or> imem img (stabstr_end img - 1) \<noteq> 0")
  case True
  then show ?thesis using assms(1) by (simp add: debuginfo_eip_def Let_def)
next
  case ok: False
  let ?st = "stab_table img" and ?n = "int (length (stab_table img))"
  have n: "0 < ?n" using assms(2) by simp
  obtain lfile rfile where F: "stab_binsearch ?st 0 (?n - 1) N_SO addr = Inr (lfile, rfile)"
    "lfile = 0 \<or> 0 \<le> lfile \<and> lfile \<le> rfile \<and> rfile \<le> ?n - 1 \<and> n_type (?st ! nat lfile) = N_SO"
    using stab_binsearch_region [of 0 "?n - 1" ?st N_SO addr] assms(3,4) n by fastforce
  show ?thesis
  proof (cases "lfile = 0")
    case True
    then show ?thesis using F(1) ok assms(1) by (simp add: debuginfo_eip_def Let_def)
  next
    case False
    then have f: "0 < lfile" "lfile \<le> rfile" "rfile < ?n" "n_type (?st ! nat lfile) = N_SO"
      using F(2) by auto
    obtain lfun rfun where G: "stab_binsearch ?st lfile rfile N_FUN addr = Inr (lfun, rfun)"
      "lfun = lfile \<and> rfun = lfile - 1 \<or> lfile \<le> lfun \<and> lfun \<le> rfun \<and> rfun \<le> rfile \<and>
        (lfun = lfile \<or> n_type (?st ! nat lfun) = N_FUN)"
      using stab_binsearch_region [of lfile rfile ?st N_FUN addr] f assms(4) by (auto simp: jos_consts)
    have g: "lfun \<le> rfun \<Longrightarrow> 0 \<le> lfun \<and> rfun < ?n" "0 \<le> lfun" "rfun < ?n" using G(2) f by auto
    let ?lr = "if lfun \<le> rfun then (lfun, rfun) else (lfile, rfile)"
    obtain i a where i: "find_function img lfile rfile lfun rfun addr (init_info img addr) = Inr (i, a, ?lr)"
      using find_function_ok [OF g(1)] by blast
    obtain q where q: "strfind (imem img) (eip_fn_name i) 58 = Some q"
      using strfind_ends ok by blast
    have lr: "0 \<le> fst ?lr" "fst ?lr \<le> snd ?lr" "snd ?lr < ?n" "n_type (?st ! nat (fst ?lr)) \<noteq> N_SLINE"
      using f G(2) by (auto simp: jos_consts split: if_splits)
    show ?thesis
      using find_line_ok [OF lr(1-3) _ g(2,3) lr(4) assms(4), of lfile a "i\<lparr>eip_fn_namelen := sint (q - eip_fn_name i)\<rparr>"]
        ok F(1) G(1) i q False f assms(1)
      by (simp add: debuginfo_eip_def Let_def case_prod_unfold)
  qed
qed

section \<open>Properties\<close>

text \<open>A small table: the header entry the linker makes, a source file, two functions, two lines.\<close>

definition small_stabs :: "Stab list" where
  "small_stabs =
     [\<lparr>n_strx = 1, n_type = 0, n_other = 0, n_desc = 5, n_value = 40\<rparr>,
      \<lparr>n_strx = 1, n_type = N_SO, n_other = 0, n_desc = 0, n_value = 0xF0100000\<rparr>,
      \<lparr>n_strx = 7, n_type = N_FUN, n_other = 0, n_desc = 0, n_value = 0xF0100000\<rparr>,
      \<lparr>n_strx = 0, n_type = N_SLINE, n_other = 0, n_desc = 10, n_value = 0\<rparr>,
      \<lparr>n_strx = 0, n_type = N_SLINE, n_other = 0, n_desc = 11, n_value = 6\<rparr>,
      \<lparr>n_strx = 9, n_type = N_FUN, n_other = 0, n_desc = 0, n_value = 0xF0100040\<rparr>]"

definition small_image :: kimage where
  "small_image = \<lparr>stab_table = small_stabs, stabstr = 0xF0102000, stabstr_end = 0xF0102010,
     unknown_str = 0xF0103000, imem = (\<lambda>_. 0)\<rparr>"

lemma six_cases: "0 \<le> i \<Longrightarrow> i \<le> (5 :: int) \<Longrightarrow> i = 0 \<or> i = 1 \<or> i = 2 \<or> i = 3 \<or> i = 4 \<or> i = 5"
  by presburger

lemma five_cases: "0 \<le> i \<Longrightarrow> i \<le> (4 :: int) \<Longrightarrow> i = 0 \<or> i = 1 \<or> i = 2 \<or> i = 3 \<or> i = 4"
  by presburger

lemma small_stabs_functions: "typed small_stabs N_FUN 0 5 = {2, 5}"
  by (auto simp: typed_def small_stabs_def jos_consts dest!: six_cases)

lemma typed_from: "a \<le> c \<Longrightarrow> typed stabs ty c b = {i \<in> typed stabs ty a b. c \<le> i}"
  by (auto simp: typed_def)

text \<open>Where every entry of the type is above the address, the left end of the answer.\<close>

lemma left_end:
  assumes "typed stabs ty L R \<noteq> {}" "stabs_upto stabs ty L R addr = {}"
  defines "right \<equiv> Min (insert (R + 1) (stabs_above stabs ty L R addr)) - 1"
  shows "if n_type (stabs ! nat L) = ty then right = L - 1 else min L right = L"
proof -
  have B: "stabs_above stabs ty L R addr = typed stabs ty L R"
    using assms(2) by (auto simp: stabs_upto_def stabs_above_def not_le)
  have LR: "L \<le> R" using assms(1) by (auto simp: typed_def)
  show ?thesis
  proof (cases "n_type (stabs ! nat L) = ty")
    case True
    have "Min (insert (R + 1) (typed stabs ty L R)) = L"
      using True LR by (intro Min_eqI, simp) (auto simp: typed_def)
    then show ?thesis using True by (simp add: right_def B)
  next
    case False
    have "L + 1 \<le> i" if "i \<in> insert (R + 1) (typed stabs ty L R)" for i
    proof -
      have "i \<noteq> L" "L \<le> i" using that False LR by (auto simp: typed_def)
      then show ?thesis by simp
    qed
    then have "L + 1 \<le> Min (insert (R + 1) (typed stabs ty L R))" by (intro Min.boundedI) auto
    then have "L \<le> right" unfolding right_def B by linarith
    then show ?thesis using False by simp
  qed
qed

text \<open>C35. stab_binsearch on a region whose entries of the type are sorted by address: when there are none
  the result is the empty region (L, L - 1). Otherwise it starts at the last of them at or below the
  address and ends just before the first of them above the address. When all of them are above the
  address, it starts at the beginning of the region if the entry there is of another type; if that
  entry has the type, both ends are L - 1, the entry before the region. When one of them is at
  the address, none may be at the next address.\<close>

theorem stab_binsearch_finds:
  assumes "0 \<le> L" "L \<le> R + 1" "R < int (length stabs)" "sorted_region stabs ty L R"
    "lone_match stabs ty L R addr"
  shows "stab_binsearch stabs L R ty addr = Inr
    (if typed stabs ty L R = {} then (L, L - 1)
     else if stabs_upto stabs ty L R addr = {} \<and> n_type (stabs ! nat L) = ty then (L - 1, L - 1)
     else (if stabs_upto stabs ty L R addr = {} then L else Max (stabs_upto stabs ty L R addr),
           Min (insert (R + 1) (stabs_above stabs ty L R addr)) - 1))"
  using stab_binsearch_sorted [OF assms] left_end [of stabs ty L R addr]
  by (auto simp: Let_def split: if_splits)

theorem stab_binsearch_finds_witness:
  "stab_binsearch small_stabs 0 5 N_FUN 0xF0100010 = Inr (2, 4) \<and>
   stab_binsearch small_stabs 2 5 N_FUN 0xF0000000 = Inr (1, 1)"
proof
  have s: "sorted_region small_stabs N_FUN 0 5"
    unfolding sorted_region_def small_stabs_functions by (simp add: small_stabs_def)
  have "stabs_upto small_stabs N_FUN 0 5 0xF0100010 = {2}" "stabs_above small_stabs N_FUN 0 5 0xF0100010 = {5}"
    unfolding stabs_upto_def stabs_above_def small_stabs_functions by (auto simp: small_stabs_def)
  moreover have "lone_match small_stabs N_FUN 0 5 0xF0100010"
    unfolding lone_match_def small_stabs_functions by (simp add: small_stabs_def)
  ultimately show "stab_binsearch small_stabs 0 5 N_FUN 0xF0100010 = Inr (2, 4)"
    using stab_binsearch_finds [of 0 5 small_stabs N_FUN "0xF0100010"] s
    by (simp add: small_stabs_functions) (simp add: small_stabs_def)
  have "{i \<in> {2, 5}. (2 :: int) \<le> i} = {2, 5}" by auto
  then have f: "typed small_stabs N_FUN 2 5 = {2, 5}"
    using typed_from [of 0 2 small_stabs N_FUN 5] small_stabs_functions by (simp only:)
  have "stabs_upto small_stabs N_FUN 2 5 0xF0000000 = {}" unfolding stabs_upto_def f by (auto simp: small_stabs_def)
  moreover have "sorted_region small_stabs N_FUN 2 5" unfolding sorted_region_def f by (simp add: small_stabs_def)
  moreover have "lone_match small_stabs N_FUN 2 5 0xF0000000" unfolding lone_match_def f by (simp add: small_stabs_def)
  ultimately show "stab_binsearch small_stabs 2 5 N_FUN 0xF0000000 = Inr (1, 1)"
    using stab_binsearch_finds [of 2 5 small_stabs N_FUN "0xF0000000"] f
    by (simp add: small_stabs_def)
qed

text \<open>C36. debuginfo_eip for a kernel address ends with 0 or -1 and reads the table of debugging entries
  inside its bounds only, whatever the entries hold, sorted or not, as long as the first entry is
  not a source file and no entry has the highest address of all.\<close>

theorem debuginfo_eip_stays_in_table:
  assumes "ULIM \<le> addr" "stab_table img \<noteq> []" "n_type (stab_table img ! 0) \<noteq> N_SO"
    "\<forall>st\<in>set (stab_table img). n_value st \<noteq> 0xFFFFFFFF"
  shows "\<exists>r info. debuginfo_eip img addr = Inr (r, info) \<and> (r = 0 \<or> r = - 1)"
proof -
  have "x + 1 \<noteq> 0" if "x \<noteq> 0xFFFFFFFF" for x :: u32
    using that by (auto simp: add_eq_0_iff2)
  then have "values_ok (stab_table img)" using assms(4) by (auto simp: values_ok_def)
  then show ?thesis using assms(1-3) debuginfo_eip_ends by blast
qed

theorem debuginfo_eip_stays_in_table_witness:
  "\<exists>r info. debuginfo_eip small_image 0xF0100047 = Inr (r, info) \<and> (r = 0 \<or> r = - 1)"
  using debuginfo_eip_stays_in_table [of "0xF0100047" small_image]
  by (simp add: small_image_def small_stabs_def jos_consts)

text \<open>C37. debuginfo_eip is not safe on a table whose first entry is a source file, where the linker puts a
  header: when all source files are above the address, the search for the file ends with -1 for both bounds,
  the test for 0 lets it pass, and the search for the function reads the entry before the table.\<close>

theorem debuginfo_eip_reads_before_table:
  assumes "ULIM \<le> addr" "stabstr img < stabstr_end img" "imem img (stabstr_end img - 1) = 0"
    "stab_table img \<noteq> []" "n_type (stab_table img ! 0) = N_SO"
    "\<forall>st\<in>set (stab_table img). n_type st = N_SO \<longrightarrow> addr < n_value st"
    "sorted_region (stab_table img) N_SO 0 (int (length (stab_table img)) - 1)"
  shows "debuginfo_eip img addr = Inl WildPtr"
proof -
  let ?st = "stab_table img" and ?R = "int (length (stab_table img)) - 1"
  let ?T = "typed ?st N_SO 0 ?R"
  have n: "0 < length ?st" using assms(4) by simp
  have above: "addr < value_at ?st i" if "i \<in> ?T" for i
    using that assms(6) nth_mem [of "nat i" ?st] by (auto simp: typed_def)
  have z: "0 \<in> ?T" using assms(5) n by (simp add: typed_def)
  have sets: "stabs_upto ?st N_SO 0 ?R addr = {}" "stabs_above ?st N_SO 0 ?R addr = ?T"
    using above by (force simp: stabs_upto_def stabs_above_def)+
  have lone: "lone_match ?st N_SO 0 ?R addr" using above by (force simp: lone_match_def)
  have "Min (insert (?R + 1) ?T) = 0"
  proof (rule Min_eqI)
    show "0 \<le> i" if "i \<in> insert (?R + 1) ?T" for i using that by (auto simp: typed_def)
  qed (use z in simp_all)
  then have first: "stab_binsearch ?st 0 ?R N_SO addr = Inr (- 1, - 1)"
    using stab_binsearch_sorted [OF _ _ _ assms(7) lone] z sets by (auto simp: Let_def)
  have "stab_binsearch ?st (- 1) (- 1) N_FUN addr = Inl WildPtr"
    unfolding stab_binsearch_def
    by (subst binsearch_loop.simps, subst back_to_type.simps) (simp add: signed_divide_int_def stab_at_def)
  then show ?thesis
    using assms(1-3) first by (simp add: debuginfo_eip_def Let_def not_le)
qed

theorem debuginfo_eip_reads_before_table_witness:
  "debuginfo_eip (small_image\<lparr>stab_table := tl small_stabs\<rparr>) 0xF0000000 = Inl WildPtr"
proof (rule debuginfo_eip_reads_before_table)
  have "typed (tl small_stabs) N_SO 0 4 = {0}"
    by (auto simp: typed_def small_stabs_def jos_consts dest!: five_cases)
  then show "sorted_region (stab_table (small_image\<lparr>stab_table := tl small_stabs\<rparr>)) N_SO 0
      (int (length (stab_table (small_image\<lparr>stab_table := tl small_stabs\<rparr>))) - 1)"
    by (simp add: sorted_region_def) (simp add: small_stabs_def sorted_region_def)
qed (simp_all add: small_image_def small_stabs_def jos_consts)

text \<open>The exact-match case of the search, which adds one to the address, can run into the next entry:
  with entries at 50, 100 and 101, the search for 100 answers with the entry at 101.\<close>

lemma stab_binsearch_one_byte_entry:
  "stab_binsearch (map (\<lambda>v. \<lparr>n_strx = 0, n_type = N_SLINE, n_other = 0, n_desc = 0, n_value = v\<rparr>) [50, 100, 101])
     0 2 N_SLINE 100 = Inr (2, 2)"
  by (simp add: stab_binsearch_def binsearch_loop.simps back_to_type.simps rightmost_region.simps
      stab_at_def signed_divide_int_def Let_def)

end
