(* ===== verification/Monitor.thy ===== *)
theory Monitor
  imports Readline Kdebug
begin

text \<open>
  kern/monitor.c: the command loop of the kernel. The command buffer is the list of bytes that
  \<open>readline\<close> filled, and a \<open>char *\<close> into it is a position; a position outside it is the fault
  \<open>WildPtr\<close>. The kernel stack and the debugging tables are in the memory \<open>imem\<close> of the kernel image,
  which printing does not change: display memory is another region.
\<close>

section \<open>Commands\<close>

datatype mon_func = mon_help_func | mon_kerninfo_func | mon_backtrace_func

record Command =
  name :: "u8 list"
  desc :: "u8 list"
  func :: mon_func

definition commands :: "Command list" where
  "commands =
     [\<lparr>name = bytes ''help'', desc = bytes ''Display this list of commands'', func = mon_help_func\<rparr>,
      \<lparr>name = bytes ''kerninfo'', desc = bytes ''Display information about the kernel'', func = mon_kerninfo_func\<rparr>,
      \<lparr>name = bytes ''backtrace'', desc = bytes ''Display stack backtrace information'', func = mon_backtrace_func\<rparr>]"

text \<open>
  \<open>int f(int argc, char **argv, struct Trapframe *tf)\<close>: a command gets the number of words, the
  array of pointers to them, the buffer the pointers point into, and the pointer \<open>tf\<close>. A pointer
  into the buffer is \<open>Some\<close> of a position, the null pointer is \<open>None\<close>; of the 16 entries of the array
  the model has the ones that are set, up to the null pointer behind the last word.
\<close>

type_synonym 'd command = "int \<Rightarrow> nat option list \<Rightarrow> u8 list \<Rightarrow> u32 \<Rightarrow> 'd console \<Rightarrow> (int \<times> 'd console) result"

text \<open>The symbols the linker defines.\<close>

record ksyms =
  start_sym :: u32
  entry_sym :: u32
  etext :: u32
  edata :: u32
  end_sym :: u32

text \<open>A sequence of calls of \<open>cprintf\<close> whose results are not used.\<close>

fun cprintfs :: "'d ports \<Rightarrow> (u8 list \<times> va list) list \<Rightarrow> 'd console \<Rightarrow> 'd console result" where
  "cprintfs io [] s = Inr s"
| "cprintfs io ((fmt, ap) # calls) s = bindR (cprintf io fmt ap s) (\<lambda>(_, s). cprintfs io calls s)"

definition mon_help :: "'d ports \<Rightarrow> 'd command" where
  "mon_help io argc argv b tf s =
     bindR (cprintfs io (map (\<lambda>c. (bytes ''%s - %s'' @ [10], [VStr (Some (name c)), VStr (Some (desc c))])) commands) s)
       (\<lambda>s. Inr (0, s))"

definition mon_kerninfo :: "'d ports \<Rightarrow> ksyms \<Rightarrow> 'd command" where
  "mon_kerninfo io ks argc argv b tf s =
     bindR (cprintfs io
       [(bytes ''Special kernel symbols:'' @ [10], []),
        (bytes ''  _start                  %08x (phys)'' @ [10], [VWord (start_sym ks)]),
        (bytes ''  entry  %08x (virt)  %08x (phys)'' @ [10], [VWord (entry_sym ks), VWord (entry_sym ks - KERNBASE)]),
        (bytes ''  etext  %08x (virt)  %08x (phys)'' @ [10], [VWord (etext ks), VWord (etext ks - KERNBASE)]),
        (bytes ''  edata  %08x (virt)  %08x (phys)'' @ [10], [VWord (edata ks), VWord (edata ks - KERNBASE)]),
        (bytes ''  end    %08x (virt)  %08x (phys)'' @ [10], [VWord (end_sym ks), VWord (end_sym ks - KERNBASE)]),
        (bytes ''Kernel executable memory footprint: %dKB'' @ [10],
          [VWord (ROUNDUP (end_sym ks - entry_sym ks) 1024 div 1024)])] s)
       (\<lambda>s. Inr (0, s))"

text \<open>The null-terminated string at an address.\<close>

definition c_string :: "memory \<Rightarrow> u32 \<Rightarrow> u8 list option" where
  "c_string m p =
     (case strlen m p of None \<Rightarrow> None
      | Some n \<Rightarrow> Some (map (\<lambda>i. m (p + word_of_nat i)) [0..<unat n]))"

text \<open>What is printed for one stack frame.\<close>

definition frame_line :: "'d ports \<Rightarrow> kimage \<Rightarrow> u32 \<Rightarrow> 'd console \<Rightarrow> 'd console result" where
  "frame_line io img ebp s =
     bindR (cprintf io (bytes ''  ebp %08x  eip %08x  args %08x %08x %08x %08x %08x'' @ [10])
         (VWord ebp # map (\<lambda>k. VWord (ld32 (imem img) (ebp + 4 * k))) [1, 2, 3, 4, 5, 6]) s) (\<lambda>(_, s).
       bindR (debuginfo_eip img (ld32 (imem img) (ebp + 4))) (\<lambda>(r, info).
         if \<not> r < 0
         then bindR (returns (c_string (imem img) (eip_file info))) (\<lambda>file.
              bindR (returns (c_string (imem img) (eip_fn_name info))) (\<lambda>fn.
              bindR (cprintf io (bytes ''       %s:%d: %.*s+%d'' @ [10])
                  [VStr (Some file), VWord (word_of_int (eip_line info)), VWord (word_of_int (eip_fn_namelen info)),
                   VStr (Some fn), VWord (ld32 (imem img) (ebp + 4) - eip_fn_addr info)] s) (\<lambda>(_, s). Inr s)))
         else Inr s))"

partial_function (option) backtrace_loop :: "'d ports \<Rightarrow> kimage \<Rightarrow> u32 \<Rightarrow> 'd console \<Rightarrow> 'd console result option" where
  "backtrace_loop io img ebp s =
     (case frame_line io img ebp s of
        Inl e \<Rightarrow> Some (Inl e)
      | Inr s \<Rightarrow>
          if ld32 (imem img) ebp \<noteq> 0 then backtrace_loop io img (ld32 (imem img) ebp) s
          else Some (Inr s))"

definition mon_backtrace :: "'d ports \<Rightarrow> kimage \<Rightarrow> u32 \<Rightarrow> 'd command" where
  "mon_backtrace io img ebp argc argv b tf s =
     bindR (cprintf io (bytes ''Stack backtrace:'' @ [10]) [] s) (\<lambda>(_, s).
       bindR (joinR (backtrace_loop io img ebp s)) (\<lambda>s. Inr (0, s)))"

section \<open>The command interpreter\<close>

definition WHITESPACE :: "u8 list" where
  "WHITESPACE = [9, 13, 10, 32]"

definition MAXARGS :: nat where [jos_consts]: "MAXARGS = 16"

definition char_at :: "u8 list \<Rightarrow> nat \<Rightarrow> u8 result" where
  "char_at b p = (if p < length b then Inr (b ! p) else Inl WildPtr)"

text \<open>The loop that overwrites white space with NUL bytes, and the one that skips an argument.\<close>

function gobble :: "u8 list \<Rightarrow> nat \<Rightarrow> (u8 list \<times> nat) result" where
  "gobble b p =
     bindR (char_at b p) (\<lambda>c.
       if c \<noteq> 0 \<and> c \<in> set WHITESPACE then gobble (b[p := 0]) (p + 1) else Inr (b, p))"
  by pat_completeness auto
termination
  by (relation "measure (\<lambda>(b, p). length b - p)") (auto simp: char_at_def split: if_splits)

function skip_arg :: "u8 list \<Rightarrow> nat \<Rightarrow> nat result" where
  "skip_arg b p =
     bindR (char_at b p) (\<lambda>c.
       if c \<noteq> 0 \<and> c \<notin> set WHITESPACE then skip_arg b (p + 1) else Inr p)"
  by pat_completeness auto
termination
  by (relation "measure (\<lambda>(b, p). length b - p)") (auto simp: char_at_def split: if_splits)

declare gobble.simps [simp del] skip_arg.simps [simp del]

lemma gobble_Inr: "gobble b p = Inr (b', p') \<Longrightarrow> p \<le> p' \<and> length b' = length b \<and> p' < length b \<and>
    (b' ! p' = 0 \<or> b' ! p' \<notin> set WHITESPACE)"
proof (induction b p rule: gobble.induct)
  case (1 b p)
  then obtain c where c: "char_at b p = Inr c" by (subst (asm) (2) gobble.simps) (auto simp: bindR_eq_Inr)
  then have p: "p < length b" "b ! p = c" by (auto simp: char_at_def split: if_splits)
  show ?case
  proof (cases "c \<noteq> 0 \<and> c \<in> set WHITESPACE")
    case True
    then have "gobble (b[p := 0]) (p + 1) = Inr (b', p')"
      using "1.prems" c by (subst (asm) gobble.simps) simp
    from "1.IH" [OF c True this] show ?thesis by simp
  next
    case False
    then show ?thesis using "1.prems" c p by (subst (asm) gobble.simps) auto
  qed
qed

lemma skip_arg_Inr: "skip_arg b p = Inr p' \<Longrightarrow> p \<le> p' \<and> p' < length b \<and>
    (p < length b \<and> b ! p \<noteq> 0 \<and> b ! p \<notin> set WHITESPACE \<longrightarrow> p < p')"
proof (induction b p rule: skip_arg.induct)
  case (1 b p)
  then obtain c where c: "char_at b p = Inr c" by (subst (asm) (2) skip_arg.simps) (auto simp: bindR_eq_Inr)
  then have p: "p < length b" "b ! p = c" by (auto simp: char_at_def split: if_splits)
  show ?case
  proof (cases "c \<noteq> 0 \<and> c \<notin> set WHITESPACE")
    case True
    then have "skip_arg b (p + 1) = Inr p'" using "1.prems" c by (subst (asm) skip_arg.simps) simp
    from "1.IH" [OF c True this] show ?thesis by simp
  next
    case False
    then show ?thesis using "1.prems" c p by (subst (asm) skip_arg.simps) auto
  qed
qed

text \<open>The parsing loop: \<open>None\<close> for too many arguments.\<close>

function parse_args :: "u8 list \<Rightarrow> nat \<Rightarrow> nat list \<Rightarrow> (u8 list \<times> nat list option) result" where
  "parse_args b p argv =
     (case gobble b p of
        Inl e \<Rightarrow> Inl e
      | Inr (b, p) \<Rightarrow>
          if b ! p = 0 then Inr (b, Some argv)
          else if length argv = MAXARGS - 1 then Inr (b, None)
          else (case skip_arg b p of
                  Inl e \<Rightarrow> Inl e
                | Inr p' \<Rightarrow> parse_args b p' (argv @ [p])))"
  by pat_completeness auto
termination
proof (relation "measure (\<lambda>(b, p, argv). length b - p)", goal_cases)
  case (2 b p argv r b' p' p'')
  then have "p \<le> p'" "length b' = length b" "p' < length b" "b' ! p' \<notin> set WHITESPACE" using gobble_Inr by auto
  moreover have "p' < p''" "p'' < length b'" using 2 skip_arg_Inr [of b' p' p''] calculation by auto
  ultimately show ?case by simp
qed simp

declare parse_args.simps [simp del]

text \<open>The string at a position of the buffer.\<close>

definition str_at :: "u8 list \<Rightarrow> nat \<Rightarrow> u8 list result" where
  "str_at b p = (if 0 \<in> set (drop p b) then Inr (takeWhile (\<lambda>c. c \<noteq> 0) (drop p b)) else Inl WildPtr)"

text \<open>The call through the pointer \<open>func\<close> of an entry of \<open>commands\<close>.\<close>

definition call_func :: "'d ports \<Rightarrow> ksyms \<Rightarrow> kimage \<Rightarrow> u32 \<Rightarrow> mon_func \<Rightarrow> 'd command" where
  "call_func io ks img ebp f =
     (case f of mon_help_func \<Rightarrow> mon_help io
      | mon_kerninfo_func \<Rightarrow> mon_kerninfo io ks
      | mon_backtrace_func \<Rightarrow> mon_backtrace io img ebp)"

text \<open>
  The lookup; \<open>strcmp\<close> of two strings is \<open>list_cmp\<close> of their characters. What the call of a function
  pointer does is the parameter \<open>call\<close>, which is \<open>call_func\<close> in the monitor.
\<close>

fun invoke :: "(mon_func \<Rightarrow> 'd command) \<Rightarrow> 'd ports \<Rightarrow> Command list \<Rightarrow> u8 list \<Rightarrow> 'd command" where
  "invoke call io [] arg argc argv b tf s =
     bindR (cprintf io (bytes ''Unknown command '' @ [39] @ bytes ''%s'' @ [39, 10]) [VStr (Some arg)] s)
       (\<lambda>(_, s). Inr (0, s))"
| "invoke call io (c # cs) arg argc argv b tf s =
     (if list_cmp arg (name c) = 0 then call (func c) argc argv b tf s
      else invoke call io cs arg argc argv b tf s)"

definition runcmd ::
  "(mon_func \<Rightarrow> 'd command) \<Rightarrow> 'd ports \<Rightarrow> u32 \<Rightarrow> u8 list \<Rightarrow> 'd console \<Rightarrow> (int \<times> u8 list \<times> 'd console) result" where
  "runcmd call io tf b s =
     bindR (parse_args b 0 []) (\<lambda>(b, argv).
       case argv of
         None \<Rightarrow> bindR (cprintf io (bytes ''Too many arguments (max %d)'' @ [10]) [VWord (word_of_nat MAXARGS)] s)
                   (\<lambda>(_, s). Inr (0, b, s))
       | Some [] \<Rightarrow> Inr (0, b, s)
       | Some (p # ps) \<Rightarrow>
           bindR (str_at b p) (\<lambda>arg.
             bindR (invoke call io commands arg (int (length (p # ps))) (map Some (p # ps) @ [None]) b tf s) (\<lambda>(r, s).
               Inr (r, b, s))))"

text \<open>One round of the loop of \<open>monitor\<close>: a line is read and run; a null pointer from \<open>readline\<close> runs nothing.\<close>

definition monitor_round ::
  "'d ports \<Rightarrow> ksyms \<Rightarrow> kimage \<Rightarrow> u32 \<Rightarrow> u32 \<Rightarrow> u8 list \<Rightarrow> 'd console \<Rightarrow> (int \<times> u8 list \<times> 'd console) result" where
  "monitor_round io ks img ebp tf b s =
     bindR (readline io (Some (bytes ''K> '')) b s) (\<lambda>(ok, b, s).
       if ok then runcmd (call_func io ks img ebp) io tf b s else Inr (0, b, s))"

partial_function (option) monitor_loop ::
  "'d ports \<Rightarrow> ksyms \<Rightarrow> kimage \<Rightarrow> u32 \<Rightarrow> u32 \<Rightarrow> u8 list \<Rightarrow> 'd console \<Rightarrow> (u8 list \<times> 'd console) result option" where
  "monitor_loop io ks img ebp tf b s =
     (case monitor_round io ks img ebp tf b s of
        Inl e \<Rightarrow> Some (Inl e)
      | Inr (r, b, s) \<Rightarrow> if r < 0 then Some (Inr (b, s)) else monitor_loop io ks img ebp tf b s)"

definition monitor ::
  "'d ports \<Rightarrow> ksyms \<Rightarrow> kimage \<Rightarrow> u32 \<Rightarrow> u32 \<Rightarrow> u8 list \<Rightarrow> 'd console \<Rightarrow> (u8 list \<times> 'd console) result" where
  "monitor io ks img ebp tf b s =
     bindR (cprintfs io [(bytes ''Welcome to the JOS kernel monitor!'' @ [10], []),
                        (bytes ''Type '' @ [39] @ bytes ''help'' @ [39] @ bytes '' for a list of commands.'' @ [10], [])] s) (\<lambda>s.
       joinR (monitor_loop io ks img ebp tf b s))"

end
