(* ===== verification/Print_Text.thy ===== *)
theory Print_Text
  imports Console_Properties Readline
begin

text \<open>
  What formatted output looks like: a format is a sequence of pieces, literal text and the conversions
  the kernel uses, and its output is the text of the pieces, one after the other. On the console
  the text appears on the display, and the waiting input is left alone.
\<close>

section \<open>Pieces of a format\<close>

datatype piece =
  Lit "u8 list" | Str "u8 list" | StrN nat "u8 list" | Dec u32 | Uns u32 | Oct u32 | Hex8 u32

text \<open>The conversions of an unsigned number in octal and in decimal.\<close>

definition unsigned_text :: "nat \<Rightarrow> u32 \<Rightarrow> u32 list" where
  "unsigned_text base w = map digit_chr (digits base (unat w))"

text \<open>Eight hexadecimal digits, the highest first.\<close>

definition hex8 :: "u32 \<Rightarrow> u32 list" where
  "hex8 w = map (\<lambda>i. digit_chr (unat w div 16 ^ i mod 16)) [7, 6, 5, 4, 3, 2, 1, 0]"

fun piece_fmt :: "piece \<Rightarrow> u8 list" where
  "piece_fmt (Lit xs) = xs"
| "piece_fmt (Str xs) = [37, 115]"
| "piece_fmt (StrN n xs) = [37, 46, 42, 115]"
| "piece_fmt (Dec w) = [37, 100]"
| "piece_fmt (Uns w) = [37, 117]"
| "piece_fmt (Oct w) = [37, 111]"
| "piece_fmt (Hex8 w) = [37, 48, 56, 120]"

fun piece_args :: "piece \<Rightarrow> va list" where
  "piece_args (Lit xs) = []"
| "piece_args (Str xs) = [VStr (Some xs)]"
| "piece_args (StrN n xs) = [VWord (word_of_nat n), VStr (Some xs)]"
| "piece_args (Dec w) = [VWord w]"
| "piece_args (Uns w) = [VWord w]"
| "piece_args (Oct w) = [VWord w]"
| "piece_args (Hex8 w) = [VWord w]"

fun piece_text :: "piece \<Rightarrow> u32 list" where
  "piece_text (Lit xs) = map ucast xs"
| "piece_text (Str xs) = map scast xs"
| "piece_text (StrN n xs) = map scast (take n xs)"
| "piece_text (Dec w) = decimal w"
| "piece_text (Uns w) = unsigned_text 10 w"
| "piece_text (Oct w) = unsigned_text 8 w"
| "piece_text (Hex8 w) = hex8 w"

fun piece_ok :: "piece \<Rightarrow> bool" where
  "piece_ok (Lit xs) \<longleftrightarrow> set xs \<inter> {0, 37} = {}"
| "piece_ok (Str xs) \<longleftrightarrow> 0 \<notin> set xs"
| "piece_ok (StrN n xs) \<longleftrightarrow> 0 \<notin> set xs \<and> n < 2 ^ 31"
| "piece_ok _ \<longleftrightarrow> True"

definition pieces_fmt :: "piece list \<Rightarrow> u8 list" where
  "pieces_fmt ps = concat (map piece_fmt ps)"

definition pieces_args :: "piece list \<Rightarrow> va list" where
  "pieces_args ps = concat (map piece_args ps)"

definition pieces_text :: "piece list \<Rightarrow> u32 list" where
  "pieces_text ps = concat (map piece_text ps)"

section \<open>The loop over a piece\<close>

lemma fmt_at_drop: "fmt_at fmt (pos + k) = fmt_at (drop pos fmt) k"
  by (auto simp: fmt_at_def)

text \<open>A conversion without flags whose character is \<open>ch\<close>.\<close>

lemma loop_conversion:
  assumes "drop pos fmt = 37 # ch # rest" "ch \<notin> {45, 48, 42, 46, 35, 108}" "\<not> (49 \<le> ch \<and> ch \<le> 57)"
    "convert conv put ch ap spec0 s = Some (Inr (ap', s'))"
  shows "vprintfmt_loop conv put fmt pos ap s = vprintfmt_loop conv put fmt (pos + 2) ap' s'"
proof -
  have c: "fmt_at fmt pos = 37" "fmt_at fmt (Suc pos) = ch"
    using fmt_at_drop [of fmt pos 0] fmt_at_drop [of fmt pos 1] assms(1) by (simp_all add: fmt_at_def)
  have "reswitch fmt (Suc pos) ap spec0 = Inr (ch, Suc (Suc pos), ap, spec0)"
    using c(2) assms(2,3) by (subst reswitch.simps) auto
  then show ?thesis using c(1) assms(4) by (simp add: vprintfmt_loop.simps [of _ _ fmt pos])
qed

lemma convert_string:
  assumes "0 \<notin> set xs"
  shows "convert conv put 115 (VStr (Some xs) # ap) spec0 s = Some (Inr (ap, fold put (map scast xs) s))"
proof -
  have "snd (put_str put False xs (- 1) (- 1) s) = fold put (map scast xs) s" "fst (put_str put False xs (- 1) (- 1) s) \<le> 0"
    using put_str_plain [OF assms, of "- 1" put "- 1" s] by simp_all
  then show ?thesis by (simp add: convert_def conv_s_def spec0_def split_beta)
qed

lemma convert_unsigned:
  assumes "ch = 111 \<and> base = 8 \<or> ch = 117 \<and> base = 10"
  shows "convert conv put ch (VWord w # ap) spec0 s = Some (Inr (ap, fold put (unsigned_text base w) s))"
proof -
  have "unat (ucast w :: u64) = unat w" using unat32_bound [of w] by (simp add: unsigned_ucast_eq take_bit_nat_eq_self_iff)
  then show ?thesis
    using assms by (auto simp: convert_def getuint_def number_def printnum_fold number_chars_def spec0_def unsigned_text_def)
qed

text \<open>\<open>%.*s\<close>: the precision cuts the string.\<close>

lemma put_str_cut:
  "0 \<notin> set xs \<Longrightarrow> snd (put_str put False xs (int n) w s) = fold put (map scast (take n xs)) s \<and>
    fst (put_str put False xs (int n) w s) \<le> w"
proof (induction xs arbitrary: n w s)
  case (Cons x xs)
  then show ?case using Cons.IH [of "n - 1" "w - 1" "put (scast x) s"]
    by (cases n) (auto simp: Let_def)
qed simp

lemma loop_cut_string:
  assumes "drop pos fmt = [37, 46, 42, 115] @ rest" "0 \<notin> set xs" "n < 2 ^ 31"
  shows "vprintfmt_loop conv put fmt pos (VWord (word_of_nat n) # VStr (Some xs) # ap) s =
    vprintfmt_loop conv put fmt (pos + 4) ap (fold put (map scast (take n xs)) s)"
proof -
  have c: "fmt_at fmt pos = 37" "fmt_at fmt (pos + 1) = 46" "fmt_at fmt (pos + 2) = 42" "fmt_at fmt (pos + 3) = 115"
    using fmt_at_drop [of fmt pos 0] fmt_at_drop [of fmt pos 1] fmt_at_drop [of fmt pos 2] fmt_at_drop [of fmt pos 3] assms(1)
    by (simp_all add: fmt_at_def)
  let ?sp = "spec0\<lparr>width := 0, precision := int n\<rparr>"
  have n: "sint (word_of_nat n :: u32) = int n"
    using assms(3) by (simp add: sint_small unat_of_nat32)
  have s3: "Suc (Suc (Suc pos)) = pos + 3" by simp
  have r3': "reswitch fmt (pos + 3) (VStr (Some xs) # ap) sp = Inr (115, pos + 4, VStr (Some xs) # ap, sp)" for sp
    using c(4) by (subst reswitch.simps) simp
  have r2: "reswitch fmt (pos + 2) (VWord (word_of_nat n) # VStr (Some xs) # ap) (spec0\<lparr>width := 0\<rparr>) =
      Inr (115, pos + 4, VStr (Some xs) # ap, ?sp)"
    using c(3) r3' n by (subst reswitch.simps) (simp add: process_precision_def spec0_def s3)
  have r1: "reswitch fmt (pos + 1) (VWord (word_of_nat n) # VStr (Some xs) # ap) spec0 =
      Inr (115, pos + 4, VStr (Some xs) # ap, ?sp)"
    using c(2) r2 by (subst reswitch.simps) (simp add: spec0_def)
  have "snd (put_str put False xs (int n) 0 s) = fold put (map scast (take n xs)) s"
    "fst (put_str put False xs (int n) 0 s) \<le> 0"
    using put_str_cut [OF assms(2), of put n 0 s] by simp_all
  then have "convert conv put 115 (VStr (Some xs) # ap) ?sp s = Some (Inr (ap, fold put (map scast (take n xs)) s))"
    by (simp add: convert_def conv_s_def spec0_def split_beta)
  then show ?thesis using c(1) r1 by (simp add: vprintfmt_loop.simps [of _ _ fmt pos])
qed

text \<open>\<open>%08x\<close>: eight digits, with leading zeros.\<close>

lemma digits_pad:
  "0 < k \<Longrightarrow> n < 16 ^ k \<Longrightarrow> length (digits 16 n) \<le> k \<and>
    replicate (k - length (digits 16 n)) 0 @ digits 16 n = map (\<lambda>i. n div 16 ^ i mod 16) (rev [0..<k])"
proof (induction k arbitrary: n)
  case (Suc k)
  show ?case
  proof (cases "n < 16")
    case True
    then have "digits 16 n = [n]" by (simp add: digits.simps)
    moreover have "n div 16 ^ i mod 16 = (if i = 0 then n else 0)" for i
      using True by (cases i) (simp_all add: div_mult2_eq)
    then have "map (\<lambda>i. n div 16 ^ i mod 16) (rev [Suc 0..<Suc k]) = map (\<lambda>_. 0) (rev [Suc 0..<Suc k])"
      by (intro map_cong) auto
    then have "map (\<lambda>i. n div 16 ^ i mod 16) (rev [0..<Suc k]) = replicate k 0 @ [n]"
      using True by (simp add: upt_conv_Cons map_replicate_const del: upt_Suc)
    ultimately show ?thesis by simp
  next
    case False
    then have k: "0 < k" using Suc.prems(2) by (cases k) auto
    have d: "digits 16 n = digits 16 (n div 16) @ [n mod 16]" using False by (subst digits.simps) simp
    have "n div 16 < 16 ^ k" using Suc.prems(2) by (simp add: div_less_iff_less_mult mult.commute)
    note IH = Suc.IH [OF k this]
    have "map (\<lambda>i. n div 16 ^ i mod 16) (rev [0..<Suc k]) =
        map (\<lambda>i. n div 16 div 16 ^ i mod 16) (rev [0..<k]) @ [n mod 16]"
      by (simp add: upt_conv_Cons map_Suc_upt [symmetric] rev_map comp_def div_mult2_eq del: upt_Suc)
    then show ?thesis using IH d by (simp add: Suc_diff_le)
  qed
qed simp

lemma digit_chr_0: "digit_chr 0 = 48"
  by (simp add: digit_chr_def hex_digits_def)

lemma hex8_chars: "number_chars 16 (unat w) 8 48 = hex8 w"
proof -
  have "unat w < 16 ^ 8" using unsigned_less [of w] by simp
  then have p: "length (digits 16 (unat w)) \<le> 8"
    "replicate (8 - length (digits 16 (unat w))) 0 @ digits 16 (unat w) = map (\<lambda>i. unat w div 16 ^ i mod 16) (rev [0..<8])"
    using digits_pad [of 8 "unat w"] by simp_all
  have "rev [0..<8] = [7, 6, 5, 4, 3, 2, 1, 0 :: nat]" by (simp add: upt_rec)
  then have "hex8 w = map digit_chr (map (\<lambda>i. unat w div 16 ^ i mod 16) (rev [0..<8]))"
    by (simp add: hex8_def)
  also have "\<dots> = number_chars 16 (unat w) 8 48"
    unfolding p(2) [symmetric] using p(1) by (simp add: number_chars_def digit_chr_0 nat_diff_distrib)
  finally show ?thesis by simp
qed

lemma loop_hex8:
  assumes "drop pos fmt = [37, 48, 56, 120] @ rest"
  shows "vprintfmt_loop conv put fmt pos (VWord w # ap) s = vprintfmt_loop conv put fmt (pos + 4) ap (fold put (hex8 w) s)"
proof -
  have c: "fmt_at fmt pos = 37" "fmt_at fmt (pos + 1) = 48" "fmt_at fmt (pos + 2) = 56" "fmt_at fmt (pos + 3) = 120"
    using fmt_at_drop [of fmt pos 0] fmt_at_drop [of fmt pos 1] fmt_at_drop [of fmt pos 2] fmt_at_drop [of fmt pos 3] assms
    by (simp_all add: fmt_at_def)
  let ?sp = "spec0\<lparr>padc := 48, width := 8\<rparr>"
  have s3: "Suc (Suc (Suc pos)) = pos + 3" by simp
  have r3: "reswitch fmt (pos + 3) ap' sp = Inr (120, pos + 4, ap', sp)" for ap' sp
    using c(4) by (subst reswitch.simps) simp
  have w: "width_digits fmt (pos + 3) 56 0 = (8, pos + 3)"
    using c(4) by (subst width_digits.simps) simp
  have r2: "reswitch fmt (pos + 2) ap' (spec0\<lparr>padc := 48\<rparr>) = Inr (120, pos + 4, ap', ?sp)" for ap'
    using c(3) r3 w by (subst reswitch.simps) (simp add: process_precision_def spec0_def s3)
  have r1: "reswitch fmt (pos + 1) ap' spec0 = Inr (120, pos + 4, ap', ?sp)" for ap'
    using c(2) r2 by (subst reswitch.simps) simp
  have "unat (ucast w :: u64) = unat w" using unat32_bound [of w] by (simp add: unsigned_ucast_eq take_bit_nat_eq_self_iff)
  then have "convert conv put 120 (VWord w # ap) ?sp s = Some (Inr (ap, fold put (hex8 w) s))"
    by (simp add: convert_def getuint_def number_def printnum_fold spec0_def hex8_chars)
  then show ?thesis using c(1) r1 by (simp add: vprintfmt_loop.simps [of _ _ fmt pos])
qed

lemma loop_one_piece:
  assumes "piece_ok p" "drop pos fmt = piece_fmt p @ rest"
  shows "vprintfmt_loop conv put fmt pos (piece_args p @ ap) s =
    vprintfmt_loop conv put fmt (pos + length (piece_fmt p)) ap (fold put (piece_text p) s)"
proof -
  have s4: "Suc (Suc (Suc (Suc pos))) = pos + 4" by simp
  show ?thesis
  proof (cases p)
    case (Lit xs)
    have "fmt_at fmt (pos + k) = xs ! k \<and> xs ! k \<notin> {0, 37}" if "k < length xs" for k
    proof -
      have "fmt_at fmt (pos + k) = xs ! k"
        using that assms(2) Lit unfolding fmt_at_drop by (simp add: fmt_at_def nth_append)
      moreover have "xs ! k \<in> set xs" using that by simp
      ultimately show ?thesis using assms(1) Lit by auto
    qed
    then show ?thesis using Lit by (simp add: loop_plain)
  next
    case (Str xs)
    then show ?thesis using assms loop_conversion [of pos fmt 115 rest, OF _ _ _ convert_string] by simp
  next
    case (StrN n xs)
    then show ?thesis using assms loop_cut_string [of pos fmt rest xs n] by (simp add: s4)
  next
    case (Dec w)
    then show ?thesis using assms loop_conversion [of pos fmt 100 rest, OF _ _ _ convert_decimal] by simp
  next
    case (Uns w)
    then show ?thesis using assms loop_conversion [of pos fmt 117 rest, OF _ _ _ convert_unsigned [of _ 10]] by simp
  next
    case (Oct w)
    then show ?thesis using assms loop_conversion [of pos fmt 111 rest, OF _ _ _ convert_unsigned [of _ 8]] by simp
  next
    case (Hex8 w)
    then show ?thesis using assms loop_hex8 [of pos fmt rest] by (simp add: s4)
  qed
qed

lemma loop_pieces:
  "\<forall>p\<in>set ps. piece_ok p \<Longrightarrow> drop pos fmt = pieces_fmt ps \<Longrightarrow>
    vprintfmt_loop conv put fmt pos (pieces_args ps @ ap) s = Inr (fold put (pieces_text ps) s)"
proof (induction ps arbitrary: pos s)
  case Nil
  then have "fmt_at fmt pos = 0" by (simp add: fmt_at_def pieces_fmt_def)
  then show ?case by (simp add: vprintfmt_loop.simps [of _ _ fmt pos] pieces_args_def pieces_text_def)
next
  case (Cons p ps)
  have d: "drop pos fmt = piece_fmt p @ pieces_fmt ps" using Cons.prems(2) by (simp add: pieces_fmt_def)
  then have "drop (pos + length (piece_fmt p)) fmt = pieces_fmt ps"
    by (metis append_eq_conv_conj drop_drop add.commute)
  then show ?case
    using loop_one_piece [OF _ d, of conv put "pieces_args ps @ ap" s] Cons
    by (simp add: pieces_args_def pieces_text_def)
qed

text \<open>A format given as its pieces.\<close>

lemma format_pieces:
  assumes "\<forall>p\<in>set ps. piece_ok p" "fmt = pieces_fmt ps" "ap = pieces_args ps"
  shows "format fmt ap = Inr (pieces_text ps)"
  using loop_pieces [OF assms(1), of 0 fmt "conv_err (\<lambda>c out. out @ [c])" "\<lambda>c out. out @ [c]" "[]" "[]"] assms(2,3)
  by (simp add: format_def vprintfmt_def)

lemmas piece_simps = pieces_fmt_def pieces_args_def pieces_text_def bytes_def

section \<open>On the console\<close>

text \<open>\<open>shown s s' out\<close>: the text \<open>out\<close> has appeared on the display, and nothing was read.\<close>

definition shown :: "'d console \<Rightarrow> 'd console \<Rightarrow> u32 list \<Rightarrow> bool" where
  "shown s s' out \<longleftrightarrow> view s' = fold screen_put out (view s) \<and> con_ok s' \<and>
     ring_ok s' = ring_ok s \<and> waiting s' = waiting s"

lemma shown_Nil: "con_ok s \<Longrightarrow> shown s s []"
  by (simp add: shown_def)

lemma shown_trans: "shown s s' out \<Longrightarrow> shown s' s'' out' \<Longrightarrow> shown s s'' (out @ out')"
  by (simp add: shown_def)

lemma cprintf_shown:
  assumes "con_ok s" "format fmt ap = Inr out"
  shows "\<exists>s'. cprintf io fmt ap s = Inr (0, s') \<and> shown s s' out"
  using fold_cputchar_same [OF assms(1), of io out] assms(2) by (simp add: cprintf_format shown_def)

lemma print_view:
  assumes "con_ok s" "format fmt ap = Inr out"
  shows "\<exists>n s'. vcprintf io fmt ap s = Inr (n, s') \<and> view s' = fold screen_put out (view s) \<and> con_ok s'"
  using cprintf_shown [OF assms, of io] by (auto simp: cprintf_def shown_def)

end
