(* ===== verification/Monitor_Properties.thy ===== *)
theory Monitor_Properties
  imports Monitor Print_Text
begin

text \<open>
  The properties of the line editor and of the monitor: what a typed line becomes in the buffer,
  how it is split into words, and which command runs with which arguments.
\<close>

section \<open>Words of a line\<close>

definition is_ws :: "u8 \<Rightarrow> bool" where
  "is_ws c \<longleftrightarrow> c \<in> set WHITESPACE"

function words :: "u8 list \<Rightarrow> u8 list list" where
  "words xs =
     (case dropWhile is_ws xs of [] \<Rightarrow> []
      | y # ys \<Rightarrow> (y # takeWhile (\<lambda>c. \<not> is_ws c) ys) # words (dropWhile (\<lambda>c. \<not> is_ws c) ys))"
  by pat_completeness auto
termination
proof (relation "measure length", goal_cases)
  case (2 xs y ys)
  have "length (dropWhile (\<lambda>c. \<not> is_ws c) ys) \<le> length ys" "length (y # ys) \<le> length xs"
    using length_dropWhile_le [of "\<lambda>c. \<not> is_ws c" ys] length_dropWhile_le [of is_ws xs] 2 by simp_all
  then show ?case by simp
qed simp

declare words.simps [simp del]

lemma ws_nonzero [simp]: "\<not> is_ws 0"
  by (simp add: is_ws_def WHITESPACE_def)

lemma gobble_ws:
  "\<forall>c\<in>set ws. is_ws c \<Longrightarrow> y = 0 \<or> \<not> is_ws y \<Longrightarrow>
    gobble (pre @ ws @ y # ys) (length pre) =
      Inr (pre @ replicate (length ws) 0 @ y # ys, length pre + length ws)"
proof (induction ws arbitrary: pre)
  case Nil
  then show ?case by (subst gobble.simps) (auto simp: char_at_def is_ws_def)
next
  case (Cons w ws)
  have w: "w \<noteq> 0" "w \<in> set WHITESPACE" using Cons.prems(1) by (auto simp: is_ws_def WHITESPACE_def)
  have "gobble (pre @ (w # ws) @ y # ys) (length pre) = gobble ((pre @ [0]) @ ws @ y # ys) (length (pre @ [0]))"
    using w by (subst gobble.simps) (simp add: char_at_def)
  also have "\<dots> = Inr ((pre @ [0]) @ replicate (length ws) 0 @ y # ys, length (pre @ [0]) + length ws)"
    using Cons.prems by (intro Cons.IH) auto
  finally show ?case by simp
qed

lemma skip_arg_word:
  "\<forall>c\<in>set w. c \<noteq> 0 \<and> \<not> is_ws c \<Longrightarrow> y = 0 \<or> is_ws y \<Longrightarrow>
    skip_arg (pre @ w @ y # ys) (length pre) = Inr (length pre + length w)"
proof (induction w arbitrary: pre)
  case Nil
  then show ?case by (subst skip_arg.simps) (auto simp: char_at_def is_ws_def)
next
  case (Cons c w)
  have "skip_arg (pre @ (c # w) @ y # ys) (length pre) = skip_arg ((pre @ [c]) @ w @ y # ys) (length (pre @ [c]))"
    using Cons.prems by (subst skip_arg.simps) (simp add: char_at_def is_ws_def)
  then show ?case using Cons.IH [of "pre @ [c]"] Cons.prems by simp
qed

lemma str_at_app: "0 \<notin> set w \<Longrightarrow> str_at (pre @ w @ 0 # ys) (length pre) = Inr w"
  by (simp add: str_at_def takeWhile_append)

text \<open>
  What the parsing loop leaves of the line: the words are terminated, and their positions come
  out behind the earlier ones.
\<close>

lemma parse_args_words:
  "0 \<notin> set xs \<Longrightarrow> \<exists>zs ps. length zs = length xs + length post + 1 \<and>
     (xs = [] \<or> is_ws (hd xs) \<longrightarrow> hd zs = 0) \<and>
     (if length argv + length (words xs) \<le> 15
      then parse_args (pre @ xs @ 0 # post) (length pre) argv = Inr (pre @ zs, Some (argv @ ps)) \<and>
        map (str_at (pre @ zs)) ps = map Inr (words xs)
      else length argv \<le> 15 \<longrightarrow> parse_args (pre @ xs @ 0 # post) (length pre) argv = Inr (pre @ zs, None))"
proof (induction xs arbitrary: pre argv rule: words.induct)
  case (1 xs)
  let ?ws = "takeWhile is_ws xs" and ?ys = "dropWhile is_ws xs"
  have xs: "xs = ?ws @ ?ys" by simp
  have ws: "\<forall>c\<in>set ?ws. is_ws c" by (auto dest: set_takeWhileD)
  show ?case
  proof (cases ?ys)
    case Nil
    have x: "xs = ?ws" using Nil xs by (metis append_Nil2)
    have "gobble (pre @ xs @ 0 # post) (length pre) = Inr (pre @ replicate (length ?ws) 0 @ 0 # post, length pre + length ?ws)"
      using gobble_ws [OF ws, of 0 pre post] x by simp
    then have "parse_args (pre @ xs @ 0 # post) (length pre) argv = Inr (pre @ replicate (length xs) 0 @ 0 # post, Some argv)"
      using x by (subst parse_args.simps) (simp add: nth_append)
    moreover have "words xs = []" by (subst words.simps) (simp only: Nil list.case)
    moreover have "hd (replicate (length xs) 0 @ 0 # post) = (0 :: u8)" by (cases xs) auto
    ultimately show ?thesis
      by (intro exI [of _ "replicate (length xs) 0 @ 0 # post"] exI [of _ "[]"]) auto
  next
    case (Cons y ys)
    let ?w = "y # takeWhile (\<lambda>c. \<not> is_ws c) ys" and ?r = "dropWhile (\<lambda>c. \<not> is_ws c) ys"
    let ?pre = "pre @ replicate (length ?ws) 0"
    have x: "xs = ?ws @ ?w @ ?r" using xs Cons by simp
    have ny: "\<not> is_ws y" using Cons by (metis hd_dropWhile list.sel(1) list.distinct(1))
    have nz: "0 \<notin> set ?w" "0 \<notin> set ?r" using "1.prems" x by (metis Un_iff set_append)+
    have wd: "words xs = ?w # words ?r" by (subst words.simps) (simp only: Cons list.case)
    have "gobble (pre @ ?ws @ y # (takeWhile (\<lambda>c. \<not> is_ws c) ys @ ?r @ 0 # post)) (length pre) =
        Inr (pre @ replicate (length ?ws) 0 @ y # (takeWhile (\<lambda>c. \<not> is_ws c) ys @ ?r @ 0 # post), length pre + length ?ws)"
      using ny by (intro gobble_ws [OF ws]) simp
    then have g: "gobble (pre @ xs @ 0 # post) (length pre) = Inr (?pre @ ?w @ ?r @ 0 # post, length ?pre)"
      by (subst x) (simp only: append_assoc append_Cons append_Nil length_append length_replicate)
    have lx: "length ?ws + (length ?w + length ?r) = length xs"
      using arg_cong [OF x, of length] by (simp only: length_append)
    obtain h t where ht: "?r @ 0 # post = h # t" "h = 0 \<or> is_ws h" "?r = [] \<or> is_ws (hd ?r)"
      using hd_dropWhile [of "\<lambda>c. \<not> is_ws c" ys] by (cases ?r) auto
    have wok: "\<forall>c\<in>set ?w. c \<noteq> 0 \<and> \<not> is_ws c" using nz ny by (auto dest: set_takeWhileD)
    have sk: "skip_arg (?pre @ ?w @ ?r @ 0 # post) (length ?pre) = Inr (length (?pre @ ?w))"
      using skip_arg_word [OF wok ht(2), of ?pre t] unfolding ht(1) by simp
    have y0: "y \<noteq> 0" using nz by simp
    show ?thesis
    proof (cases "length argv = 15")
      case True
      then have "parse_args (pre @ xs @ 0 # post) (length pre) argv = Inr (?pre @ ?w @ ?r @ 0 # post, None)"
        using g y0 by (subst parse_args.simps) (simp add: nth_append MAXARGS_def)
      moreover have "xs = [] \<or> is_ws (hd xs) \<longrightarrow> hd (replicate (length ?ws) 0 @ ?w @ ?r @ 0 # post) = 0"
        using x ny Cons by (cases xs) auto
      moreover have "length (replicate (length ?ws) (0 :: u8) @ ?w @ ?r @ 0 # post) = length xs + length post + 1"
        unfolding lx [symmetric] by simp
      ultimately show ?thesis using True wd
        by (intro exI [of _ "replicate (length ?ws) 0 @ ?w @ ?r @ 0 # post"]) auto
    next
      case False
      have step: "parse_args (pre @ xs @ 0 # post) (length pre) argv =
          parse_args ((?pre @ ?w) @ ?r @ 0 # post) (length (?pre @ ?w)) (argv @ [length ?pre])"
        using g y0 sk False by (subst parse_args.simps) (simp add: nth_append MAXARGS_def)
      obtain zs ps where r: "length zs = length ?r + length post + 1" "hd zs = 0"
        "if length (argv @ [length ?pre]) + length (words ?r) \<le> 15
         then parse_args ((?pre @ ?w) @ ?r @ 0 # post) (length (?pre @ ?w)) (argv @ [length ?pre])
             = Inr ((?pre @ ?w) @ zs, Some ((argv @ [length ?pre]) @ ps)) \<and>
           map (str_at ((?pre @ ?w) @ zs)) ps = map Inr (words ?r)
         else length (argv @ [length ?pre]) \<le> 15 \<longrightarrow>
           parse_args ((?pre @ ?w) @ ?r @ 0 # post) (length (?pre @ ?w)) (argv @ [length ?pre]) = Inr ((?pre @ ?w) @ zs, None)"
        using "1.IH" [OF Cons nz(2), of "argv @ [length ?pre]" "?pre @ ?w"] ht(3) by blast
      obtain zs' where zs: "zs = 0 # zs'" using r(1,2) by (cases zs) auto
      have "str_at (?pre @ ?w @ zs) (length ?pre) = Inr ?w" unfolding zs by (rule str_at_app [OF nz(1)])
      moreover have "xs = [] \<or> is_ws (hd xs) \<longrightarrow> hd (replicate (length ?ws) 0 @ ?w @ zs) = 0"
        using x ny Cons by (cases xs) auto
      moreover have "length (replicate (length ?ws) (0 :: u8) @ ?w @ zs) = length xs + length post + 1"
        unfolding lx [symmetric] by (simp add: r(1))
      ultimately show ?thesis using r(3) wd False unfolding step
        by (intro exI [of _ "replicate (length ?ws) 0 @ ?w @ zs"] exI [of _ "length ?pre # ps"]) auto
    qed
  qed
qed

lemma words_sub: "w \<in> set (words xs) \<Longrightarrow> set w \<subseteq> set xs"
proof (induction xs rule: words.induct)
  case (1 xs)
  have "dropWhile is_ws xs \<noteq> []"
  proof
    assume "dropWhile is_ws xs = []"
    then have "words xs = []" by (subst words.simps) (simp only: list.case)
    then show False using "1.prems" by simp
  qed
  then obtain y ys where ys: "dropWhile is_ws xs = y # ys" by (cases "dropWhile is_ws xs") auto
  have sub: "insert y (set ys) \<subseteq> set xs" using set_dropWhileD [of _ is_ws xs] ys by (metis list.simps(15) subsetI)
  have "words xs = (y # takeWhile (\<lambda>c. \<not> is_ws c) ys) # words (dropWhile (\<lambda>c. \<not> is_ws c) ys)"
    by (subst words.simps) (simp only: ys list.case)
  then consider "w = y # takeWhile (\<lambda>c. \<not> is_ws c) ys" | "w \<in> set (words (dropWhile (\<lambda>c. \<not> is_ws c) ys))"
    using "1.prems" by auto
  then show ?case
  proof cases
    case 1
    then show ?thesis using sub by (auto dest: set_takeWhileD)
  next
    case 2
    from "1.IH" [OF ys this] have "set w \<subseteq> set ys" by (auto dest: set_dropWhileD)
    then show ?thesis using sub by blast
  qed
qed

lemma invoke_commands:
  assumes "0 \<notin> set w"
  shows "invoke call io commands w argc argv b tf s =
    (if w = bytes ''help'' then call mon_help_func argc argv b tf s
     else if w = bytes ''kerninfo'' then call mon_kerninfo_func argc argv b tf s
     else if w = bytes ''backtrace'' then call mon_backtrace_func argc argv b tf s
     else bindR (cprintf io (bytes ''Unknown command '' @ [39] @ bytes ''%s'' @ [39, 10]) [VStr (Some w)] s)
            (\<lambda>(_, s). Inr (0, s)))"
proof -
  have "list_cmp w n = 0 \<longleftrightarrow> w = n" if "0 \<notin> set n" for n using list_cmp_0_iff [OF assms that] .
  then have "list_cmp w (bytes ''help'') = 0 \<longleftrightarrow> w = bytes ''help''"
    "list_cmp w (bytes ''kerninfo'') = 0 \<longleftrightarrow> w = bytes ''kerninfo''"
    "list_cmp w (bytes ''backtrace'') = 0 \<longleftrightarrow> w = bytes ''backtrace''"
    by (simp_all add: bytes_def)
  then show ?thesis by (simp add: commands_def)
qed

lemma runcmd_words:
  assumes "0 \<notin> set xs"
  shows "\<exists>b ps. length b = length xs + 1 + length post \<and>
    (length (words xs) \<le> 15 \<longrightarrow> map (str_at b) ps = map Inr (words xs)) \<and>
    runcmd call io tf (xs @ 0 # post) s =
    (case words xs of [] \<Rightarrow> Inr (0, b, s)
     | w # ws \<Rightarrow>
         if 15 < length (words xs)
         then bindR (cprintf io (bytes ''Too many arguments (max %d)'' @ [10]) [VWord 16] s) (\<lambda>(_, s). Inr (0, b, s))
         else bindR (invoke call io commands w (int (length (words xs))) (map Some ps @ [None]) b tf s)
                (\<lambda>(r, s). Inr (r, b, s)))"
proof -
  obtain zs ps where p: "length zs = length xs + length post + 1"
    "if length (words xs) \<le> 15
     then parse_args (xs @ 0 # post) 0 [] = Inr (zs, Some ps) \<and> map (str_at zs) ps = map Inr (words xs)
     else parse_args (xs @ 0 # post) 0 [] = Inr (zs, None)"
    using parse_args_words [OF assms, where pre = "[]" and argv = "[]" and post = post]
    unfolding append_Nil list.size(3) add_0 by (metis zero_le)
  show ?thesis
  proof (cases "words xs")
    case Nil
    then show ?thesis using p by (intro exI [of _ zs] exI [of _ ps]) (simp add: runcmd_def)
  next
    case (Cons w ws)
    show ?thesis
    proof (cases "15 < length (words xs)")
      case True
      then show ?thesis using p Cons by (intro exI [of _ zs] exI [of _ ps]) (simp add: runcmd_def MAXARGS_def)
    next
      case False
      then have m: "map (str_at zs) ps = map Inr (words xs)" using p(2) by simp
      then have l: "length ps = length (words xs)" by (metis length_map)
      obtain q qs where q: "ps = q # qs" "str_at zs q = Inr w" using m Cons by (cases ps) auto
      then show ?thesis using False p Cons m l
        by (intro exI [of _ zs] exI [of _ ps]) (simp add: runcmd_def)
    qed
  qed
qed

section \<open>Properties\<close>

definition small_ksyms :: ksyms where
  "small_ksyms = \<lparr>start_sym = 0x10000C, entry_sym = 0xF010000C, etext = 0xF0101A00, edata = 0xF0112300,
     end_sym = 0xF0112960\<rparr>"

text \<open>C18. runcmd splits the line at spaces, tabs, carriage returns and newlines and calls, through its
  function pointer, the command that the first word names: argc is the number of words, the first argc
  entries of argv point to the words, each terminated in the buffer, a null pointer is behind them, and
  the trap frame pointer is passed on; whatever the command does and answers is what runcmd does and
  answers. It does nothing on a blank line, and prints a message on more than 15 words or an unknown
  command.\<close>

theorem runcmd_dispatches:
  assumes "0 \<notin> set xs"
  shows "\<exists>b ps. length b = length xs + 1 + length post \<and>
    (length (words xs) \<le> 15 \<longrightarrow> map (str_at b) ps = map Inr (words xs)) \<and>
    runcmd call io tf (xs @ 0 # post) s =
    (let argc = int (length (words xs)); argv = map Some ps @ [None]
     in case words xs of [] \<Rightarrow> Inr (0, b, s)
     | w # ws \<Rightarrow>
         if 15 < argc
         then bindR (cprintf io (bytes ''Too many arguments (max %d)'' @ [10]) [VWord 16] s) (\<lambda>(_, s). Inr (0, b, s))
         else bindR (if w = bytes ''help'' then call mon_help_func argc argv b tf s
                     else if w = bytes ''kerninfo'' then call mon_kerninfo_func argc argv b tf s
                     else if w = bytes ''backtrace'' then call mon_backtrace_func argc argv b tf s
                     else bindR (cprintf io (bytes ''Unknown command '' @ [39] @ bytes ''%s'' @ [39, 10]) [VStr (Some w)] s)
                            (\<lambda>(_, s). Inr (0, s)))
                (\<lambda>(r, s). Inr (r, b, s)))"
proof -
  obtain b ps where r: "length b = length xs + 1 + length post"
    "length (words xs) \<le> 15 \<longrightarrow> map (str_at b) ps = map Inr (words xs)"
    "runcmd call io tf (xs @ 0 # post) s =
      (case words xs of [] \<Rightarrow> Inr (0, b, s)
       | w # ws \<Rightarrow>
         if 15 < length (words xs)
         then bindR (cprintf io (bytes ''Too many arguments (max %d)'' @ [10]) [VWord 16] s) (\<lambda>(_, s). Inr (0, b, s))
         else bindR (invoke call io commands w (int (length (words xs))) (map Some ps @ [None]) b tf s)
                (\<lambda>(r, s). Inr (r, b, s)))"
    using runcmd_words [OF assms] by blast
  have w: "0 \<notin> set w" if "words xs = w # ws" for w ws
    using that words_sub [of w xs] assms by auto
  have l: "15 < int (length (words xs)) \<longleftrightarrow> 15 < length (words xs)" by linarith
  show ?thesis
    using r by (intro exI [of _ b] exI [of _ ps]) (auto simp: Let_def l invoke_commands [OF w] split: list.split)
qed

text \<open>A call that answers with the number of its arguments and prints nothing.\<close>

definition counting_call :: "mon_func \<Rightarrow> 'd command" where
  "counting_call f argc argv b tf s = Inr (argc * 100 + int (length argv), s)"

theorem runcmd_dispatches_witness:
  "(\<exists>b. runcmd counting_call still_ports 0 (bytes ''  help me'' @ [0]) small_console = Inr (203, b, small_console)) \<and>
   (\<exists>b ps. map (str_at b) ps = [Inr (bytes ''help''), Inr (bytes ''me'')] \<and>
     runcmd (call_func still_ports small_ksyms small_image 0) still_ports 7 (bytes ''  help me'' @ [0]) small_console =
       bindR (mon_help still_ports 2 (map Some ps @ [None]) b 7 small_console) (\<lambda>(r, s). Inr (r, b, s)))"
proof
  have w: "words (bytes ''  help me'') = [bytes ''help'', bytes ''me'']"
    by (simp add: bytes_def words.simps is_ws_def WHITESPACE_def)
  have nz: "0 \<notin> set (bytes ''  help me'')" by (simp add: bytes_def)
  obtain b and ps :: "nat list" where r: "map (str_at b) ps = [Inr (bytes ''help''), Inr (bytes ''me'')]"
    "runcmd counting_call still_ports 0 (bytes ''  help me'' @ [0]) small_console =
      bindR (counting_call mon_help_func 2 (map Some ps @ [None]) b 0 small_console) (\<lambda>(r, s). Inr (r, b, s))"
    using runcmd_dispatches [OF nz, of "[]" counting_call still_ports 0 small_console] unfolding w Let_def
    by (simp del: map_eq_Cons_conv) (elim exE conjE, rule that)
  have "length ps = length [bytes ''help'', bytes ''me'']" using arg_cong [OF r(1), of length] by simp
  then show "\<exists>b. runcmd counting_call still_ports 0 (bytes ''  help me'' @ [0]) small_console = Inr (203, b, small_console)"
    using r(2) by (simp add: counting_call_def)
  show "\<exists>b ps. map (str_at b) ps = [Inr (bytes ''help''), Inr (bytes ''me'')] \<and>
     runcmd (call_func still_ports small_ksyms small_image 0) still_ports 7 (bytes ''  help me'' @ [0]) small_console =
       bindR (mon_help still_ports 2 (map Some ps @ [None]) b 7 small_console) (\<lambda>(r, s). Inr (r, b, s))"
    using runcmd_dispatches [OF nz, of "[]" "call_func still_ports small_ksyms small_image 0" still_ports 7 small_console]
    unfolding w Let_def
    by (simp add: call_func_def del: map_eq_Cons_conv) (elim exE conjE, intro exI conjI)
qed

lemma call_func_zero: "call_func io ks img ebp f argc argv b tf s = Inr (r, s') \<Longrightarrow> r = 0"
  by (cases f) (auto simp: call_func_def mon_help_def mon_kerninfo_def mon_backtrace_def bindR_eq_Inr)

lemma invoke_zero:
  "invoke (call_func io ks img ebp) io cs arg argc argv b tf s = Inr (r, s') \<Longrightarrow> r = 0"
  by (induction cs) (auto simp: bindR_eq_Inr dest: call_func_zero split: if_splits)

lemma runcmd_zero: "runcmd (call_func io ks img ebp) io tf b s = Inr (r, b', s') \<Longrightarrow> r = 0"
proof -
  assume run: "runcmd (call_func io ks img ebp) io tf b s = Inr (r, b', s')"
  then obtain b1 argv where p: "parse_args b 0 [] = Inr (b1, argv)" by (auto simp: runcmd_def bindR_eq_Inr)
  show "r = 0"
  proof (cases argv)
    case None
    then show ?thesis using run p by (auto simp: runcmd_def bindR_eq_Inr)
  next
    case (Some qs)
    then show ?thesis using run p
      by (cases qs) (auto simp: runcmd_def bindR_eq_Inr dest: invoke_zero)
  qed
qed

text \<open>C17. readline on a console with a typed line waiting: the prompt is printed, the keys are echoed, a
  backspace or delete key takes back the last character, only the first 1023 characters are kept,
  and the buffer ends up with the edited line and a NUL byte behind it; what was typed behind
  the end of the line still waits.\<close>

theorem readline_edits_line:
  assumes "quiet io" "con_ok s" "ring_ok s" "waiting s = ks @ e # rest" "e \<in> {10, 13}"
    "set ks \<inter> {0, 10, 13} = {}" "length b = BUFLEN" "0 \<notin> set p"
  shows "\<exists>b' s'. readline io (Some p) b s = Inr (True, b', s') \<and>
    (let l = foldl edit_key [] ks in length b' = BUFLEN \<and> length l \<le> 1023 \<and> take (length l) b' = l \<and> b' ! length l = 0) \<and>
    waiting s' = rest \<and> ring_ok s' \<and> con_ok s' \<and>
    view s' = fold screen_put (map scast p @ echoed [] ks @ [10]) (view s)"
  using assms by (rule readline_line)

lemma store_screen: "con_ok (cons_store c s) = con_ok s" "view (cons_store c s) = view s"
  by (auto simp: cons_store_def Let_def con_ok_def view_def)

theorem readline_edits_line_witness:
  "\<exists>b' s'. readline still_ports (Some (bytes ''K> '')) (replicate BUFLEN 0)
      (fold cons_store [97, 98, 8, 99, 13] small_console) = Inr (True, b', s') \<and> take 3 b' = [97, 99, 0]"
proof -
  let ?s = "fold cons_store [97, 98, 8, 99, 13] small_console"
  have "length (waiting small_console) + length [97, 98, 8, 99, 13 :: u32] \<le> 511" by (simp add: small_console_ok)
  from cq.puts [OF small_console_ok(1) this]
  have r: "ring_ok ?s" "waiting ?s = [97, 98, 8, 99] @ 13 # []" by (simp_all add: small_console_ok)
  have c: "con_ok ?s" by (simp add: store_screen small_console_ok)
  have q: "quiet still_ports" by (simp add: quiet_def still_ports_def)
  have l: "foldl edit_key [] [97, 98, 8, 99] = [97, 99]" by (simp add: edit_key_def)
  have d: "set [97, 98, 8, 99] \<inter> {0, 10, 13 :: u8} = {}" "0 \<notin> set (bytes ''K> '')" by (simp_all add: bytes_def)
  obtain b' s' where "readline still_ports (Some (bytes ''K> '')) (replicate BUFLEN 0) ?s = Inr (True, b', s')"
    "length b' = BUFLEN" "take 2 b' = [97, 99]" "b' ! 2 = 0"
    using readline_edits_line [OF q c r _ d(1) _ d(2), of "replicate BUFLEN 0"]
    unfolding l Let_def by (auto simp: numeral_2_eq_2)
  moreover from this have "take 3 b' = [97, 99, 0]"
    using take_Suc_conv_app_nth [of 2 b'] by (simp add: BUFLEN_def eval_nat_numeral)
  ultimately show ?thesis by blast
qed

text \<open>readline takes a delete key at the beginning of a line for a character of the line: the test for
  the two erasing keys fails there, and the next case stores every code from the space on.\<close>

lemma readline_keeps_first_delete:
  assumes "quiet io" "con_ok s" "ring_ok s" "waiting s = [0x7f, 13]" "length b = BUFLEN"
  shows "\<exists>b' s'. readline io (Some []) b s = Inr (True, b', s') \<and> b' ! 0 = 0x7f \<and> b' ! 1 = 0"
proof -
  have "waiting s = [0x7f] @ 13 # []" using assms(4) by simp
  from readline_line [OF assms(1-3) this _ _ assms(5), of "[]"]
  obtain b' s' where "readline io (Some []) b s = Inr (True, b', s')" "length b' = BUFLEN"
    "take 1 b' = [0x7f]" "b' ! 1 = 0"
    by (auto simp: edit_key_def Let_def)
  then show ?thesis by (cases b') auto
qed

end
