(* ===== verification/Backtrace.thy ===== *)
theory Backtrace
  imports Monitor_Properties
begin

text \<open>
  The backtrace of the monitor: what it prints for a stack whose frames are known, said without the
  formatter and without the console.
\<close>

section \<open>The text of a backtrace\<close>

definition asc :: "string \<Rightarrow> u32 list" where
  "asc x = map ucast (bytes x)"

text \<open>\<open>frames m ebp ps\<close>: the saved frame pointers from \<open>ebp\<close> on are \<open>ps\<close>, and the last frame has none.\<close>

fun frames :: "memory \<Rightarrow> u32 \<Rightarrow> u32 list \<Rightarrow> bool" where
  "frames m ebp [] \<longleftrightarrow> False"
| "frames m ebp [p] \<longleftrightarrow> ebp = p \<and> ld32 m p = 0"
| "frames m ebp (p # ps) \<longleftrightarrow> ebp = p \<and> ld32 m p \<noteq> 0 \<and> frames m (ld32 m p) ps"

text \<open>
  What is known of the return address of a frame: nothing, or the file, the line, the function's
  name and the distance from its start.
\<close>

type_synonym site = "(u8 list \<times> u32 \<times> u8 list \<times> u32) option"

definition frame_site :: "kimage \<Rightarrow> u32 \<Rightarrow> site \<Rightarrow> bool" where
  "frame_site img p st \<longleftrightarrow>
     (\<exists>r info. debuginfo_eip img (ld32 (imem img) (p + 4)) = Inr (r, info) \<and>
       (case st of
          None \<Rightarrow> r < 0
        | Some (src, ln, fn, delta) \<Rightarrow> 0 \<le> r \<and>
            cstr (imem img) (eip_file info) src \<and> ln = word_of_int (eip_line info) \<and>
            0 \<le> eip_fn_namelen info \<and> eip_fn_namelen info < 2 ^ 31 \<and>
            (\<exists>nm. cstr (imem img) (eip_fn_name info) nm \<and> fn = take (nat (eip_fn_namelen info)) nm) \<and>
            delta = ld32 (imem img) (p + 4) - eip_fn_addr info))"

definition frame_text :: "kimage \<Rightarrow> u32 \<Rightarrow> site \<Rightarrow> u32 list" where
  "frame_text img p st =
     asc ''  ebp '' @ hex8 p @ asc ''  eip '' @ hex8 (ld32 (imem img) (p + 4)) @
     asc ''  args '' @ hex8 (ld32 (imem img) (p + 8)) @ asc '' '' @ hex8 (ld32 (imem img) (p + 12)) @
     asc '' '' @ hex8 (ld32 (imem img) (p + 16)) @ asc '' '' @ hex8 (ld32 (imem img) (p + 20)) @
     asc '' '' @ hex8 (ld32 (imem img) (p + 24)) @ [10] @
     (case st of
        None \<Rightarrow> []
      | Some (src, ln, fn, delta) \<Rightarrow>
          asc ''       '' @ map scast src @ asc '':'' @ decimal ln @ asc '': '' @ map scast fn @
          asc ''+'' @ decimal delta @ [10])"

definition backtrace_text :: "kimage \<Rightarrow> u32 list \<Rightarrow> site list \<Rightarrow> u32 list" where
  "backtrace_text img ps sts = asc ''Stack backtrace:'' @ [10] @ concat (map2 (frame_text img) ps sts)"

section \<open>One frame\<close>

lemma cstr_short: "cstr m p xs \<Longrightarrow> length xs < 2 ^ 32"
proof (rule ccontr)
  assume c: "cstr m p xs" and "\<not> length xs < 2 ^ 32"
  then have l: "length xs mod 2 ^ 32 < length xs"
    by (intro order_less_le_trans [OF mod_less_divisor]) simp_all
  have "(word_of_nat (length xs mod 2 ^ 32) :: u32) = word_of_nat (length xs)"
    by (simp add: word_unat_eq_iff unsigned_of_nat take_bit_eq_mod)
  then have "m (p + word_of_nat (length xs)) = xs ! (length xs mod 2 ^ 32)" "xs ! (length xs mod 2 ^ 32) \<noteq> 0"
    using c l unfolding cstr_nth by metis+
  then show False using c by (simp add: cstr_nth)
qed

lemma c_string_cstr:
  assumes "cstr m p xs"
  shows "c_string m p = Some xs"
proof -
  have "unat (word_of_nat (length xs) :: u32) = length xs" using cstr_short [OF assms] by (rule unat_of_nat32)
  moreover have "map (\<lambda>i. m (p + word_of_nat i)) [0..<length xs] = xs"
    using assms by (intro nth_equalityI) (simp_all add: cstr_nth)
  ultimately show ?thesis using strlen_cstr [OF assms] by (simp add: c_string_def)
qed

lemma cstr_nonzero: "cstr m p xs \<Longrightarrow> 0 \<notin> set xs"
  by (induction m p xs rule: cstr.induct) auto

lemma frame_format:
  "format (bytes ''  ebp %08x  eip %08x  args %08x %08x %08x %08x %08x'' @ [10])
      [VWord a, VWord b, VWord c, VWord d, VWord e, VWord f, VWord g] =
    Inr (asc ''  ebp '' @ hex8 a @ asc ''  eip '' @ hex8 b @ asc ''  args '' @ hex8 c @ asc '' '' @ hex8 d @
      asc '' '' @ hex8 e @ asc '' '' @ hex8 f @ asc '' '' @ hex8 g @ [10])"
proof -
  let ?ps = "[Lit (bytes ''  ebp ''), Hex8 a, Lit (bytes ''  eip ''), Hex8 b, Lit (bytes ''  args ''), Hex8 c,
    Lit [32], Hex8 d, Lit [32], Hex8 e, Lit [32], Hex8 f, Lit [32], Hex8 g, Lit [10]]"
  have "format (bytes ''  ebp %08x  eip %08x  args %08x %08x %08x %08x %08x'' @ [10])
      [VWord a, VWord b, VWord c, VWord d, VWord e, VWord f, VWord g] = Inr (pieces_text ?ps)"
    by (rule format_pieces) (simp_all add: piece_simps)
  then show ?thesis by (simp add: piece_simps asc_def)
qed

lemma site_format:
  assumes "0 \<notin> set src" "0 \<notin> set nm" "n < 2 ^ 31"
  shows "format (bytes ''       %s:%d: %.*s+%d'' @ [10])
      [VStr (Some src), VWord ln, VWord (word_of_nat n), VStr (Some nm), VWord delta] =
    Inr (asc ''       '' @ map scast src @ asc '':'' @ decimal ln @ asc '': '' @ map scast (take n nm) @
      asc ''+'' @ decimal delta @ [10])"
proof -
  let ?ps = "[Lit (bytes ''       ''), Str src, Lit [58], Dec ln, Lit [58, 32], StrN n nm, Lit [43], Dec delta, Lit [10]]"
  have "format (bytes ''       %s:%d: %.*s+%d'' @ [10])
      [VStr (Some src), VWord ln, VWord (word_of_nat n), VStr (Some nm), VWord delta] = Inr (pieces_text ?ps)"
    using assms by (intro format_pieces) (simp_all add: piece_simps)
  then show ?thesis by (simp add: piece_simps asc_def)
qed

lemma frame_line_shown:
  assumes "con_ok s" "frame_site img p st"
  shows "\<exists>s'. frame_line io img p s = Inr s' \<and> shown s s' (frame_text img p st)"
proof -
  let ?m = "imem img"
  have delta: "map (\<lambda>k. VWord (ld32 ?m (p + 4 * k))) [1, 2, 3, 4, 5, 6] =
      [VWord (ld32 ?m (p + 4)), VWord (ld32 ?m (p + 8)), VWord (ld32 ?m (p + 12)), VWord (ld32 ?m (p + 16)),
       VWord (ld32 ?m (p + 20)), VWord (ld32 ?m (p + 24))]" by simp
  obtain s1 where 1: "cprintf io (bytes ''  ebp %08x  eip %08x  args %08x %08x %08x %08x %08x'' @ [10])
      (VWord p # map (\<lambda>k. VWord (ld32 ?m (p + 4 * k))) [1, 2, 3, 4, 5, 6]) s = Inr (0, s1)"
    "shown s s1 (asc ''  ebp '' @ hex8 p @ asc ''  eip '' @ hex8 (ld32 ?m (p + 4)) @
       asc ''  args '' @ hex8 (ld32 ?m (p + 8)) @ asc '' '' @ hex8 (ld32 ?m (p + 12)) @
       asc '' '' @ hex8 (ld32 ?m (p + 16)) @ asc '' '' @ hex8 (ld32 ?m (p + 20)) @
       asc '' '' @ hex8 (ld32 ?m (p + 24)) @ [10])"
    using cprintf_shown [OF assms(1) frame_format, of io p "ld32 ?m (p + 4)"] unfolding delta by blast
  obtain r info where d: "debuginfo_eip img (ld32 ?m (p + 4)) = Inr (r, info)"
    "case st of None \<Rightarrow> r < 0
     | Some (src, ln, fn, delta) \<Rightarrow> 0 \<le> r \<and> cstr ?m (eip_file info) src \<and> ln = word_of_int (eip_line info) \<and>
         0 \<le> eip_fn_namelen info \<and> eip_fn_namelen info < 2 ^ 31 \<and>
         (\<exists>nm. cstr ?m (eip_fn_name info) nm \<and> fn = take (nat (eip_fn_namelen info)) nm) \<and>
         delta = ld32 ?m (p + 4) - eip_fn_addr info"
    using assms(2) by (auto simp: frame_site_def)
  show ?thesis
  proof (cases st)
    case None
    then have "frame_line io img p s = Inr s1" using 1(1) d by (simp add: frame_line_def)
    then show ?thesis using 1(2) None by (simp add: frame_text_def)
  next
    case (Some u)
    then obtain src ln fn delta nm where u: "st = Some (src, ln, fn, delta)" "0 \<le> r" "cstr ?m (eip_file info) src"
      "ln = word_of_int (eip_line info)" "0 \<le> eip_fn_namelen info" "eip_fn_namelen info < 2 ^ 31"
      "cstr ?m (eip_fn_name info) nm" "fn = take (nat (eip_fn_namelen info)) nm"
      "delta = ld32 ?m (p + 4) - eip_fn_addr info"
      using d(2) by (cases u) auto
    have nl: "(word_of_int (eip_fn_namelen info) :: u32) = word_of_nat (nat (eip_fn_namelen info))"
      "nat (eip_fn_namelen info) < 2 ^ 31" using u(5,6) by simp_all
    have ok: "con_ok s1" using 1(2) by (simp add: shown_def)
    obtain s2 where 2: "cprintf io (bytes ''       %s:%d: %.*s+%d'' @ [10])
        [VStr (Some src), VWord ln, VWord (word_of_int (eip_fn_namelen info)), VStr (Some nm), VWord delta] s1 = Inr (0, s2)"
      "shown s1 s2 (asc ''       '' @ map scast src @ asc '':'' @ decimal ln @ asc '': '' @ map scast fn @
        asc ''+'' @ decimal delta @ [10])"
      using cprintf_shown [OF ok site_format [OF cstr_nonzero [OF u(3)] cstr_nonzero [OF u(7)] nl(2)], of io ln delta]
      unfolding nl(1) u(8) by blast
    have "frame_line io img p s = Inr s2"
      unfolding frame_line_def 1(1) bindR_simps split_conv d(1)
      using 2(1) u(2) c_string_cstr [OF u(3)] c_string_cstr [OF u(7)] by (simp add: u(4,9))
    then show ?thesis using shown_trans [OF 1(2) 2(2)] u(1) by (simp add: frame_text_def)
  qed
qed

section \<open>All frames\<close>

lemma backtrace_shown:
  "frames (imem img) ebp ps \<Longrightarrow> list_all2 (frame_site img) ps sts \<Longrightarrow> con_ok s \<Longrightarrow>
    \<exists>s'. backtrace_loop io img ebp s = Some (Inr s') \<and> shown s s' (concat (map2 (frame_text img) ps sts))"
proof (induction "imem img" ebp ps arbitrary: s sts rule: frames.induct)
  case (2 ebp p)
  then obtain st where st: "sts = [st]" "frame_site img p st" by (auto simp: list_all2_Cons1)
  obtain s1 where "frame_line io img p s = Inr s1" "shown s s1 (frame_text img p st)"
    using frame_line_shown [OF 2(3) st(2)] by blast
  then show ?case using 2(1) st(1) by (subst backtrace_loop.simps) simp
next
  case (3 ebp p q qs)
  then obtain st sts' where st: "sts = st # sts'" "frame_site img p st" "list_all2 (frame_site img) (q # qs) sts'"
    by (auto simp: list_all2_Cons1)
  obtain s1 where s1: "frame_line io img p s = Inr s1" "shown s s1 (frame_text img p st)"
    using frame_line_shown [OF 3(4) st(2)] by blast
  have "con_ok s1" using s1(2) by (simp add: shown_def)
  then obtain s2 where "backtrace_loop io img (ld32 (imem img) p) s1 = Some (Inr s2)"
    "shown s1 s2 (concat (map2 (frame_text img) (q # qs) sts'))"
    using 3(1) [of sts' s1] 3(2) st(3) by auto
  then show ?case using 3(2) st(1) s1(1) shown_trans [OF s1(2)] by (subst backtrace_loop.simps) simp
qed simp

lemma mon_backtrace_shown:
  assumes "con_ok s" "frames (imem img) ebp ps" "list_all2 (frame_site img) ps sts"
  shows "\<exists>s'. mon_backtrace io img ebp argc argv b tf s = Inr (0, s') \<and> shown s s' (backtrace_text img ps sts)"
proof -
  have "format (bytes ''Stack backtrace:'' @ [10]) [] = Inr (asc ''Stack backtrace:'' @ [10])"
    using format_plain [of "bytes ''Stack backtrace:'' @ [10]"] by (simp add: bytes_def asc_def)
  from cprintf_shown [OF assms(1) this] obtain s1 where
    1: "cprintf io (bytes ''Stack backtrace:'' @ [10]) [] s = Inr (0, s1)" "shown s s1 (asc ''Stack backtrace:'' @ [10])"
    by blast
  have "con_ok s1" using 1(2) by (simp add: shown_def)
  then obtain s2 where "backtrace_loop io img ebp s1 = Some (Inr s2)" "shown s1 s2 (concat (map2 (frame_text img) ps sts))"
    using backtrace_shown [OF assms(2,3)] by blast
  then show ?thesis using 1(1) shown_trans [OF 1(2)] by (simp add: mon_backtrace_def backtrace_text_def)
qed

section \<open>Properties\<close>

text \<open>C30. The backtrace of a kernel stack whose saved frame pointers lead to a last frame with a null one
  ends and answers 0. It prints the heading, and for each frame, from the innermost on and
  once, the frame pointer, the return address and five words above it with eight hexadecimal
  digits each; where debuginfo_eip finds the return address, a line follows with the file, the
  line, the name of the function cut to its length and the distance from its start, and where it
  does not, nothing.\<close>

theorem mon_backtrace_prints:
  assumes "con_ok s" "frames (imem img) ebp ps" "list_all2 (frame_site img) ps sts"
  shows "\<exists>s'. mon_backtrace io img ebp argc argv b tf s = Inr (0, s') \<and> con_ok s' \<and>
    view s' = fold screen_put (asc ''Stack backtrace:'' @ [10] @ concat (map2 (frame_text img) ps sts)) (view s)"
  using mon_backtrace_shown [OF assms, of io argc argv b tf] by (auto simp: shown_def backtrace_text_def)

text \<open>
  A stack of two frames: the inner one returns to line 11 of a function \<open>f\<close> of the file \<open>k.c\<close>, 7
  bytes from its start, the outer one to an address without a line.
\<close>

definition demo_strings :: "u8 list" where
  "demo_strings = [0, 107, 46, 99, 0, 0, 0, 102, 58, 70, 49, 0, 0, 0, 0, 0]"

definition demo_memory :: memory where
  "demo_memory = (\<lambda>a. if unat (a - 0xF0102000) < 16 then demo_strings ! unat (a - 0xF0102000) else 0)
     (0xF010FF00 := 0x80, 0xF010FF01 := 0xFF, 0xF010FF02 := 0x10, 0xF010FF03 := 0xF0,
      0xF010FF04 := 0x07, 0xF010FF06 := 0x10, 0xF010FF07 := 0xF0,
      0xF010FF84 := 0x47, 0xF010FF86 := 0x10, 0xF010FF87 := 0xF0)"

definition demo_image :: kimage where
  "demo_image = small_image\<lparr>imem := demo_memory\<rparr>"

lemma demo_words: "ld32 demo_memory 0xF010FF00 = 0xF010FF80" "ld32 demo_memory 0xF010FF80 = 0"
  "ld32 demo_memory 0xF010FF04 = 0xF0100007" "ld32 demo_memory 0xF010FF84 = 0xF0100047"
  by (simp_all add: ld32_def demo_memory_def push_bit_eq_mult)

lemma demo_cstr: "cstr demo_memory 0xF0102001 [107, 46, 99]" "cstr demo_memory 0xF0102007 [102, 58, 70, 49]"
  "cstr demo_memory 0xF0102009 [70, 49]"
  by (simp_all add: demo_memory_def demo_strings_def)

lemma demo_find: "strfind demo_memory 0xF0102007 58 = Some 0xF0102008"
  "strfind demo_memory 0xF0102009 58 = Some 0xF010200B"
  using strfind_cstr [OF demo_cstr(2), of 58] strfind_cstr [OF demo_cstr(3), of 58] by simp_all

lemma demo_last: "demo_memory 0xF010200F = 0"
  by (simp add: demo_memory_def demo_strings_def)

lemmas run_search = stab_binsearch_def binsearch_loop.simps back_to_type.simps rightmost_region.simps
  stab_at_def signed_divide_int_def Let_def small_stabs_def jos_consts

lemma demo_search:
  "stab_binsearch small_stabs 0 5 N_SO 0xF0100007 = Inr (1, 5)"
  "stab_binsearch small_stabs 1 5 N_FUN 0xF0100007 = Inr (2, 4)"
  "stab_binsearch small_stabs 2 4 N_SLINE 7 = Inr (4, 4)"
  "stab_binsearch small_stabs 0 5 N_SO 0xF0100047 = Inr (1, 5)"
  "stab_binsearch small_stabs 1 5 N_FUN 0xF0100047 = Inr (5, 5)"
  "stab_binsearch small_stabs 5 5 N_SLINE 7 = Inr (5, 4)"
  by (simp_all add: run_search)

lemma demo_length: "int (length small_stabs) - 1 = 5"
  by (simp add: small_stabs_def)

lemma demo_file: "back_to_file small_stabs 1 4 = Inr 1"
  by (simp add: back_to_file.simps stab_at_def small_stabs_def jos_consts)

lemma demo_args: "count_args small_stabs 3 4 info = Inr info"
  by (subst count_args.simps) (simp add: stab_at_def small_stabs_def jos_consts)

lemma demo_info:
  "debuginfo_eip demo_image 0xF0100007 = Inr (0, \<lparr>eip_file = 0xF0102001, eip_line = 11, eip_fn_name = 0xF0102007,
     eip_fn_namelen = 1, eip_fn_addr = 0xF0100000, eip_fn_narg = 0\<rparr>)"
  "\<exists>info. debuginfo_eip demo_image 0xF0100047 = Inr (- 1, info)"
proof -
  have u: "ULIM \<le> 0xF0100007" "ULIM \<le> 0xF0100047" by (simp_all add: jos_consts)
  have st: "stab_at small_stabs 1 = Inr (small_stabs ! Suc 0)" "stab_at small_stabs 2 = Inr (small_stabs ! 2)"
    "stab_at small_stabs 4 = Inr (small_stabs ! 4)" "stab_at small_stabs 5 = Inr (small_stabs ! 5)"
    by (simp_all add: stab_at_def small_stabs_def)
  have v: "n_strx (small_stabs ! Suc 0) = 1" "n_strx (small_stabs ! 2) = 7" "n_value (small_stabs ! 2) = 0xF0100000"
    "n_desc (small_stabs ! 4) = 11" "n_strx (small_stabs ! 5) = 9" "n_value (small_stabs ! 5) = 0xF0100040"
    by (simp_all add: small_stabs_def)
  have img: "stab_table demo_image = small_stabs" "stabstr demo_image = 0xF0102000" "stabstr_end demo_image = 0xF0102010"
    "imem demo_image = demo_memory"
    by (simp_all add: demo_image_def small_image_def)
  show "debuginfo_eip demo_image 0xF0100007 = Inr (0, \<lparr>eip_file = 0xF0102001, eip_line = 11, eip_fn_name = 0xF0102007,
     eip_fn_namelen = 1, eip_fn_addr = 0xF0100000, eip_fn_narg = 0\<rparr>)"
    by (simp add: debuginfo_eip_def Let_def u img demo_length demo_last demo_search find_function_def find_line_def
        find_file_def st v demo_find demo_file demo_args init_info_def)
  show "\<exists>info. debuginfo_eip demo_image 0xF0100047 = Inr (- 1, info)"
    by (simp add: debuginfo_eip_def Let_def u img demo_length demo_last demo_search find_function_def find_line_def
        find_file_def st v demo_find demo_file demo_args init_info_def)
qed

lemma demo_stack:
  "frames (imem demo_image) 0xF010FF00 [0xF010FF00, 0xF010FF80]"
  "list_all2 (frame_site demo_image) [0xF010FF00, 0xF010FF80] [Some ([107, 46, 99], 11, [102], 7), None]"
proof -
  have m: "imem demo_image = demo_memory" by (simp add: demo_image_def)
  show "frames (imem demo_image) 0xF010FF00 [0xF010FF00, 0xF010FF80]"
    by (simp add: m demo_words)
  have n: "\<exists>nm. cstr demo_memory 0xF0102007 nm \<and> [102] = take (Suc 0) nm"
    using demo_cstr(2) by (intro exI [of _ "[102, 58, 70, 49]"]) (simp del: cstr.simps)
  have "frame_site demo_image 0xF010FF00 (Some ([107, 46, 99], 11, [102], 7))"
    unfolding frame_site_def m
    by (rule exI [of _ 0], rule exI [of _ "\<lparr>eip_file = 0xF0102001, eip_line = 11, eip_fn_name = 0xF0102007,
          eip_fn_namelen = 1, eip_fn_addr = 0xF0100000, eip_fn_narg = 0\<rparr>"])
      (use demo_cstr(1) n in \<open>simp add: demo_words demo_info(1) del: cstr.simps\<close>)
  moreover have "frame_site demo_image 0xF010FF80 None"
    unfolding frame_site_def m using demo_info(2) by (auto simp: demo_words)
  ultimately show "list_all2 (frame_site demo_image) [0xF010FF00, 0xF010FF80] [Some ([107, 46, 99], 11, [102], 7), None]"
    by simp
qed

theorem mon_backtrace_prints_witness:
  "\<exists>s'. mon_backtrace still_ports demo_image 0xF010FF00 1 [Some 0, None] (bytes ''backtrace'' @ [0]) 0 small_console = Inr (0, s') \<and>
    view s' = fold screen_put
      (asc ''Stack backtrace:'' @ [10] @
       asc ''  ebp f010ff00  eip f0100007  args 00000000 00000000 00000000 00000000 00000000'' @ [10] @
       asc ''       k.c:11: f+7'' @ [10] @
       asc ''  ebp f010ff80  eip f0100047  args 00000000 00000000 00000000 00000000 00000000'' @ [10])
      (view small_console)"
proof -
  have m: "imem demo_image = demo_memory" by (simp add: demo_image_def)
  have z: "ld32 demo_memory 0xF010FF08 = 0" "ld32 demo_memory 0xF010FF0C = 0" "ld32 demo_memory 0xF010FF10 = 0"
    "ld32 demo_memory 0xF010FF14 = 0" "ld32 demo_memory 0xF010FF18 = 0" "ld32 demo_memory 0xF010FF88 = 0"
    "ld32 demo_memory 0xF010FF8C = 0" "ld32 demo_memory 0xF010FF90 = 0" "ld32 demo_memory 0xF010FF94 = 0"
    "ld32 demo_memory 0xF010FF98 = 0"
    by (simp_all add: ld32_def demo_memory_def)
  have d: "decimal 11 = asc ''11''" "decimal 7 = asc ''7''"
    by (simp_all add: decimal_def digits.simps digit_chr_def hex_digits_def asc_def bytes_def)
  have h: "hex8 0xF010FF00 = asc ''f010ff00''" "hex8 0xF010FF80 = asc ''f010ff80''" "hex8 0xF0100007 = asc ''f0100007''"
    "hex8 0xF0100047 = asc ''f0100047''" "hex8 0 = asc ''00000000''"
    by (simp_all add: hex8_def digit_chr_def hex_digits_def asc_def bytes_def)
  have f: "frame_text demo_image 0xF010FF00 (Some ([107, 46, 99], 11, [102], 7)) =
      asc ''  ebp f010ff00  eip f0100007  args 00000000 00000000 00000000 00000000 00000000'' @ [10] @
      asc ''       k.c:11: f+7'' @ [10]"
    "frame_text demo_image 0xF010FF80 None =
      asc ''  ebp f010ff80  eip f0100047  args 00000000 00000000 00000000 00000000 00000000'' @ [10]"
    by (simp_all add: frame_text_def m demo_words z h d) (simp_all add: asc_def bytes_def)
  show ?thesis
    using mon_backtrace_prints [OF small_console_ok(3) demo_stack, of still_ports 1 "[Some 0, None]" "bytes ''backtrace'' @ [0]" 0]
    by (simp add: f) blast
qed

end
