(* ===== verification/Monitor_Session.thy ===== *)
theory Monitor_Session
  imports Backtrace
begin

text \<open>
  A session of the monitor: what every command line puts on the screen, the rounds of the loop as
  steps between the buffer and the console before and after, and what the monitor does with the
  input that waits for it.
\<close>

section \<open>What a command line prints\<close>

definition help_text :: "u32 list" where
  "help_text = asc ''help - Display this list of commands'' @ [10] @
     asc ''kerninfo - Display information about the kernel'' @ [10] @
     asc ''backtrace - Display stack backtrace information'' @ [10]"

definition symbol_text :: "string \<Rightarrow> u32 \<Rightarrow> u32 list" where
  "symbol_text x w = asc x @ hex8 w @ asc '' (virt)  '' @ hex8 (w - KERNBASE) @ asc '' (phys)'' @ [10]"

definition kerninfo_text :: "ksyms \<Rightarrow> u32 list" where
  "kerninfo_text ks = asc ''Special kernel symbols:'' @ [10] @
     asc ''  _start                  '' @ hex8 (start_sym ks) @ asc '' (phys)'' @ [10] @
     symbol_text ''  entry  '' (entry_sym ks) @ symbol_text ''  etext  '' (etext ks) @
     symbol_text ''  edata  '' (edata ks) @ symbol_text ''  end    '' (end_sym ks) @
     asc ''Kernel executable memory footprint: '' @
     decimal (ROUNDUP (end_sym ks - entry_sym ks) 1024 div 1024) @ asc ''KB'' @ [10]"

definition answer_text :: "ksyms \<Rightarrow> kimage \<Rightarrow> u32 list \<Rightarrow> site list \<Rightarrow> u8 list \<Rightarrow> u32 list" where
  "answer_text ks img ps sts xs =
     (case words xs of [] \<Rightarrow> []
      | w # ws \<Rightarrow>
          if 15 < length (words xs) then asc ''Too many arguments (max 16)'' @ [10]
          else if w = bytes ''help'' then help_text
          else if w = bytes ''kerninfo'' then kerninfo_text ks
          else if w = bytes ''backtrace'' then backtrace_text img ps sts
          else asc ''Unknown command '' @ [39] @ map scast w @ [39, 10])"

text \<open>A sequence of calls of \<open>cprintf\<close> with their texts.\<close>

lemma cprintfs_shown:
  "con_ok s \<Longrightarrow> list_all2 (\<lambda>(fmt, ap) out. format fmt ap = Inr out) calls outs \<Longrightarrow>
    \<exists>s'. cprintfs io calls s = Inr s' \<and> shown s s' (concat outs)"
proof (induction calls arbitrary: s outs)
  case Nil
  then show ?case using shown_Nil by auto
next
  case (Cons c calls)
  obtain fmt ap where c: "c = (fmt, ap)" by (cases c)
  then obtain out outs' where o: "outs = out # outs'" "format fmt ap = Inr out"
    "list_all2 (\<lambda>(fmt, ap) out. format fmt ap = Inr out) calls outs'"
    using Cons.prems(2) by (auto simp: list_all2_Cons1)
  obtain s1 where s1: "cprintf io fmt ap s = Inr (0, s1)" "shown s s1 out"
    using cprintf_shown [OF Cons.prems(1) o(2)] by blast
  then obtain s2 where "cprintfs io calls s1 = Inr s2" "shown s1 s2 (concat outs')"
    using Cons.IH [OF _ o(3), of s1] by (auto simp: shown_def)
  then show ?case using s1 shown_trans [OF s1(2)] by (simp add: c o(1))
qed

lemma mon_help_shown:
  assumes "con_ok s"
  shows "\<exists>s'. mon_help io argc argv b tf s = Inr (0, s') \<and> shown s s' help_text"
proof -
  let ?out = "\<lambda>c. map scast (name c) @ asc '' - '' @ map scast (desc c) @ [10]"
  have f: "format (bytes ''%s - %s'' @ [10]) [VStr (Some (name c)), VStr (Some (desc c))] = Inr (?out c)"
    if "c \<in> set commands" for c
  proof -
    have nz: "0 \<notin> set (name c)" "0 \<notin> set (desc c)" using that by (auto simp: commands_def bytes_def)
    have "format (bytes ''%s - %s'' @ [10]) [VStr (Some (name c)), VStr (Some (desc c))] =
        Inr (pieces_text [Str (name c), Lit (bytes '' - ''), Str (desc c), Lit [10]])"
      using nz by (intro format_pieces) (simp_all add: piece_simps)
    then show ?thesis by (simp add: piece_simps asc_def)
  qed
  have l: "list_all2 (\<lambda>(fmt, ap) out. format fmt ap = Inr out)
      (map (\<lambda>c. (bytes ''%s - %s'' @ [10], [VStr (Some (name c)), VStr (Some (desc c))])) commands) (map ?out commands)"
    by (simp add: list_all2_map1 list_all2_map2 list_all2_same f)
  have "concat (map ?out commands) = help_text"
    by (simp add: commands_def help_text_def asc_def bytes_def)
  then show ?thesis using cprintfs_shown [OF assms l, of io] by (auto simp: mon_help_def)
qed

lemma symbol_format:
  assumes "set (bytes x) \<inter> {0, 37} = {}"
  shows "format (bytes x @ bytes ''%08x (virt)  %08x (phys)'' @ [10]) [VWord v, VWord w] =
    Inr (asc x @ hex8 v @ asc '' (virt)  '' @ hex8 w @ asc '' (phys)'' @ [10])"
proof -
  have "format (bytes x @ bytes ''%08x (virt)  %08x (phys)'' @ [10]) [VWord v, VWord w] =
      Inr (pieces_text [Lit (bytes x), Hex8 v, Lit (bytes '' (virt)  ''), Hex8 w, Lit (bytes '' (phys)'' @ [10])])"
    using assms by (intro format_pieces) (simp_all add: piece_simps)
  then show ?thesis by (simp add: piece_simps asc_def)
qed

lemma kerninfo_formats:
  "format (bytes ''Special kernel symbols:'' @ [10]) [] = Inr (asc ''Special kernel symbols:'' @ [10])"
  "format (bytes ''  _start                  %08x (phys)'' @ [10]) [VWord w] =
    Inr (asc ''  _start                  '' @ hex8 w @ asc '' (phys)'' @ [10])"
  "format (bytes ''Kernel executable memory footprint: %dKB'' @ [10]) [VWord w] =
    Inr (asc ''Kernel executable memory footprint: '' @ decimal w @ asc ''KB'' @ [10])"
  "format (bytes ''  entry  %08x (virt)  %08x (phys)'' @ [10]) [VWord w, VWord (w - KERNBASE)] = Inr (symbol_text ''  entry  '' w)"
  "format (bytes ''  etext  %08x (virt)  %08x (phys)'' @ [10]) [VWord w, VWord (w - KERNBASE)] = Inr (symbol_text ''  etext  '' w)"
  "format (bytes ''  edata  %08x (virt)  %08x (phys)'' @ [10]) [VWord w, VWord (w - KERNBASE)] = Inr (symbol_text ''  edata  '' w)"
  "format (bytes ''  end    %08x (virt)  %08x (phys)'' @ [10]) [VWord w, VWord (w - KERNBASE)] = Inr (symbol_text ''  end    '' w)"
proof -
  show "format (bytes ''Special kernel symbols:'' @ [10]) [] = Inr (asc ''Special kernel symbols:'' @ [10])"
    using format_plain [of "bytes ''Special kernel symbols:'' @ [10]"] by (simp add: bytes_def asc_def)
  have "format (bytes ''  _start                  %08x (phys)'' @ [10]) [VWord w] =
      Inr (pieces_text [Lit (bytes ''  _start                  ''), Hex8 w, Lit (bytes '' (phys)'' @ [10])])"
    by (rule format_pieces) (simp_all add: piece_simps)
  then show "format (bytes ''  _start                  %08x (phys)'' @ [10]) [VWord w] =
      Inr (asc ''  _start                  '' @ hex8 w @ asc '' (phys)'' @ [10])"
    by (simp add: piece_simps asc_def)
  have "format (bytes ''Kernel executable memory footprint: %dKB'' @ [10]) [VWord w] =
      Inr (pieces_text [Lit (bytes ''Kernel executable memory footprint: ''), Dec w, Lit (bytes ''KB'' @ [10])])"
    by (rule format_pieces) (simp_all add: piece_simps)
  then show "format (bytes ''Kernel executable memory footprint: %dKB'' @ [10]) [VWord w] =
      Inr (asc ''Kernel executable memory footprint: '' @ decimal w @ asc ''KB'' @ [10])"
    by (simp add: piece_simps asc_def)
qed (use symbol_format [of "''  entry  ''" w "w - KERNBASE"] symbol_format [of "''  etext  ''" w "w - KERNBASE"]
      symbol_format [of "''  edata  ''" w "w - KERNBASE"] symbol_format [of "''  end    ''" w "w - KERNBASE"]
    in \<open>simp_all add: symbol_text_def bytes_def\<close>)

lemma mon_kerninfo_shown:
  assumes "con_ok s"
  shows "\<exists>s'. mon_kerninfo io ks argc argv b tf s = Inr (0, s') \<and> shown s s' (kerninfo_text ks)"
proof -
  let ?F = "ROUNDUP (end_sym ks - entry_sym ks) 1024 div 1024"
  have "kerninfo_text ks = concat [asc ''Special kernel symbols:'' @ [10],
      asc ''  _start                  '' @ hex8 (start_sym ks) @ asc '' (phys)'' @ [10],
      symbol_text ''  entry  '' (entry_sym ks), symbol_text ''  etext  '' (etext ks),
      symbol_text ''  edata  '' (edata ks), symbol_text ''  end    '' (end_sym ks),
      asc ''Kernel executable memory footprint: '' @ decimal ?F @ asc ''KB'' @ [10]]"
    by (simp add: kerninfo_text_def)
  moreover have "list_all2 (\<lambda>(fmt, ap) out. format fmt ap = Inr out)
       [(bytes ''Special kernel symbols:'' @ [10], []),
        (bytes ''  _start                  %08x (phys)'' @ [10], [VWord (start_sym ks)]),
        (bytes ''  entry  %08x (virt)  %08x (phys)'' @ [10], [VWord (entry_sym ks), VWord (entry_sym ks - KERNBASE)]),
        (bytes ''  etext  %08x (virt)  %08x (phys)'' @ [10], [VWord (etext ks), VWord (etext ks - KERNBASE)]),
        (bytes ''  edata  %08x (virt)  %08x (phys)'' @ [10], [VWord (edata ks), VWord (edata ks - KERNBASE)]),
        (bytes ''  end    %08x (virt)  %08x (phys)'' @ [10], [VWord (end_sym ks), VWord (end_sym ks - KERNBASE)]),
        (bytes ''Kernel executable memory footprint: %dKB'' @ [10], [VWord ?F])]
      [asc ''Special kernel symbols:'' @ [10],
      asc ''  _start                  '' @ hex8 (start_sym ks) @ asc '' (phys)'' @ [10],
      symbol_text ''  entry  '' (entry_sym ks), symbol_text ''  etext  '' (etext ks),
      symbol_text ''  edata  '' (edata ks), symbol_text ''  end    '' (end_sym ks),
      asc ''Kernel executable memory footprint: '' @ decimal ?F @ asc ''KB'' @ [10]]"
    by (simp only: list_all2_Cons list_all2_Nil2 split_conv kerninfo_formats simp_thms)
  from cprintfs_shown [OF assms this, of io] obtain s' where
    "mon_kerninfo io ks argc argv b tf s = Inr (0, s')" "shown s s' (concat [asc ''Special kernel symbols:'' @ [10],
      asc ''  _start                  '' @ hex8 (start_sym ks) @ asc '' (phys)'' @ [10],
      symbol_text ''  entry  '' (entry_sym ks), symbol_text ''  etext  '' (etext ks),
      symbol_text ''  edata  '' (edata ks), symbol_text ''  end    '' (end_sym ks),
      asc ''Kernel executable memory footprint: '' @ decimal ?F @ asc ''KB'' @ [10]])"
    by (auto simp: mon_kerninfo_def)
  ultimately show ?thesis by metis
qed

section \<open>A command line\<close>

lemma unknown_format:
  assumes "0 \<notin> set w"
  shows "format (bytes ''Unknown command '' @ [39] @ bytes ''%s'' @ [39, 10]) [VStr (Some w)] =
    Inr (asc ''Unknown command '' @ [39] @ map scast w @ [39, 10])"
proof -
  have "format (bytes ''Unknown command '' @ [39] @ bytes ''%s'' @ [39, 10]) [VStr (Some w)] =
      Inr (pieces_text [Lit (bytes ''Unknown command '' @ [39]), Str w, Lit [39, 10]])"
    using assms by (intro format_pieces) (simp_all add: piece_simps)
  then show ?thesis by (simp add: piece_simps asc_def)
qed

lemma too_many_format:
  "format (bytes ''Too many arguments (max %d)'' @ [10]) [VWord 16] = Inr (asc ''Too many arguments (max 16)'' @ [10])"
proof -
  have "format (bytes ''Too many arguments (max %d)'' @ [10]) [VWord 16] =
      Inr (pieces_text [Lit (bytes ''Too many arguments (max ''), Dec 16, Lit (bytes '')'' @ [10])])"
    by (rule format_pieces) (simp_all add: piece_simps)
  moreover have "decimal 16 = asc ''16''"
    by (simp add: decimal_def digits.simps digit_chr_def hex_digits_def asc_def bytes_def)
  ultimately show ?thesis by (simp add: piece_simps asc_def)
qed

lemma runcmd_shown:
  assumes "con_ok s" "0 \<notin> set xs" "frames (imem img) ebp ps" "list_all2 (frame_site img) ps sts"
  shows "\<exists>b s'. runcmd (call_func io ks img ebp) io tf (xs @ 0 # post) s = Inr (0, b, s') \<and>
    length b = length xs + 1 + length post \<and> shown s s' (answer_text ks img ps sts xs)"
proof -
  obtain b qs where r: "length b = length xs + 1 + length post"
    "runcmd (call_func io ks img ebp) io tf (xs @ 0 # post) s =
      (case words xs of [] \<Rightarrow> Inr (0, b, s)
       | w # ws \<Rightarrow>
         if 15 < length (words xs)
         then bindR (cprintf io (bytes ''Too many arguments (max %d)'' @ [10]) [VWord 16] s) (\<lambda>(_, s). Inr (0, b, s))
         else bindR (invoke (call_func io ks img ebp) io commands w (int (length (words xs))) (map Some qs @ [None]) b tf s)
                (\<lambda>(r, s). Inr (r, b, s)))"
    using runcmd_words [OF assms(2)] by blast
  show ?thesis
  proof (cases "words xs")
    case Nil
    then show ?thesis using r shown_Nil [OF assms(1)] by (auto simp: answer_text_def)
  next
    case (Cons w ws)
    then have w: "0 \<notin> set w" using words_sub [of w xs] assms(2) by auto
    show ?thesis
    proof (cases "15 < length (words xs)")
      case True
      then show ?thesis
        using r Cons cprintf_shown [OF assms(1) too_many_format, of io] by (auto simp: answer_text_def)
    next
      case False
      have "\<exists>s'. invoke (call_func io ks img ebp) io commands w argc argv b tf s = Inr (0, s') \<and>
          shown s s' (answer_text ks img ps sts xs)" for argc argv
        using mon_help_shown [OF assms(1), of io argc argv b tf] mon_kerninfo_shown [OF assms(1), of io ks argc argv b tf]
          mon_backtrace_shown [OF assms(1,3,4), of io argc argv b tf] cprintf_shown [OF assms(1) unknown_format [OF w], of io]
          False Cons
        by (auto simp: invoke_commands [OF w] call_func_def answer_text_def)
      then obtain s' where "invoke (call_func io ks img ebp) io commands w (int (length (words xs)))
          (map Some qs @ [None]) b tf s = Inr (0, s')" "shown s s' (answer_text ks img ps sts xs)" by blast
      then show ?thesis using r False Cons by (intro exI [of _ b] exI [of _ s']) simp
    qed
  qed
qed

section \<open>The rounds of the monitor\<close>

text \<open>A round that goes on with the loop, as a step between the line buffer and the console before and after.\<close>

inductive monitor_step ::
  "'d ports \<Rightarrow> ksyms \<Rightarrow> kimage \<Rightarrow> u32 \<Rightarrow> u32 \<Rightarrow> u8 list \<times> 'd console \<Rightarrow> u8 list \<times> 'd console \<Rightarrow> bool"
  for io ks img ebp tf where
  round: "monitor_round io ks img ebp tf b s = Inr (r, b', s') \<Longrightarrow> \<not> r < 0 \<Longrightarrow>
    monitor_step io ks img ebp tf (b, s) (b', s')"

inductive_cases monitor_stepE: "monitor_step io ks img ebp tf (b, s) (b', s')"

lemma monitor_loop_step:
  "monitor_step io ks img ebp tf (b, s) (b', s') \<Longrightarrow>
    monitor_loop io ks img ebp tf b s = monitor_loop io ks img ebp tf b' s'"
  by (elim monitor_stepE, subst monitor_loop.simps) simp

lemma monitor_loop_steps:
  "(monitor_step io ks img ebp tf ^^ n) (b, s) (b', s') \<Longrightarrow>
    monitor_loop io ks img ebp tf b s = monitor_loop io ks img ebp tf b' s'"
proof (induction n arbitrary: b s)
  case (Suc n)
  then obtain b1 s1 where "monitor_step io ks img ebp tf (b, s) (b1, s1)"
    "(monitor_step io ks img ebp tf ^^ n) (b1, s1) (b', s')"
    by (metis relpowp_Suc_D2 surj_pair)
  then show ?case using Suc.IH monitor_loop_step by metis
qed simp

text \<open>The line the editor makes of keys that are not NUL holds no NUL.\<close>

lemma edited_nonzero: "0 \<notin> set ks \<Longrightarrow> 0 \<notin> set line \<Longrightarrow> 0 \<notin> set (foldl edit_key line ks)"
proof (induction ks arbitrary: line)
  case (Cons k ks)
  then have "0 \<notin> set (edit_key line k)" by (auto simp: edit_key_def dest: in_set_butlastD)
  then show ?case using Cons by simp
qed simp

text \<open>What a round prints for the typed keys \<open>ks\<close>: the prompt, the echo, and the answer.\<close>

definition round_text :: "ksyms \<Rightarrow> kimage \<Rightarrow> u32 list \<Rightarrow> site list \<Rightarrow> u8 list \<Rightarrow> u32 list" where
  "round_text sy img ps sts ks =
     asc ''K> '' @ echoed [] ks @ [10] @ answer_text sy img ps sts (foldl edit_key [] ks)"

lemma prompt_text: "map scast (bytes ''K> '') = asc ''K> ''" "0 \<notin> set (bytes ''K> '')"
  by (simp_all add: bytes_def asc_def)

lemma monitor_step_line:
  assumes "quiet io" "con_ok s" "ring_ok s" "length b = BUFLEN" "waiting s = ks @ e # rest" "e \<in> {10, 13}"
    "set ks \<inter> {0, 10, 13} = {}" "frames (imem img) ebp ps" "list_all2 (frame_site img) ps sts"
  shows "\<exists>b' s'. monitor_step io sy img ebp tf (b, s) (b', s') \<and> length b' = BUFLEN \<and> waiting s' = rest \<and>
    ring_ok s' \<and> con_ok s' \<and> view s' = fold screen_put (round_text sy img ps sts ks) (view s)"
proof -
  let ?l = "foldl edit_key [] ks"
  obtain b1 s1 where r: "readline io (Some (bytes ''K> '')) b s = Inr (True, b1, s1)"
    "length b1 = BUFLEN" "length ?l \<le> 1023" "take (length ?l) b1 = ?l" "b1 ! length ?l = 0"
    "waiting s1 = rest" "ring_ok s1" "con_ok s1"
    "view s1 = fold screen_put (asc ''K> '' @ echoed [] ks @ [10]) (view s)"
    using readline_line [OF assms(1-3,5-7,4) prompt_text(2)] unfolding Let_def prompt_text(1) by blast
  have "length ?l < length b1" using r(2,3) by (simp add: BUFLEN_def)
  then have b1: "b1 = ?l @ 0 # drop (Suc (length ?l)) b1" using id_take_nth_drop r(4,5) by metis
  have "0 \<notin> set ?l" using assms(7) by (intro edited_nonzero) auto
  then obtain b2 s2 where c: "runcmd (call_func io sy img ebp) io tf b1 s1 = Inr (0, b2, s2)"
    "length b2 = length ?l + 1 + length (drop (Suc (length ?l)) b1)" "shown s1 s2 (answer_text sy img ps sts ?l)"
    using runcmd_shown [OF r(8) _ assms(8,9), of ?l io sy tf "drop (Suc (length ?l)) b1"] b1 by auto
  have "monitor_round io sy img ebp tf b s = Inr (0, b2, s2)" using r(1) c(1) by (simp add: monitor_round_def)
  then have "monitor_step io sy img ebp tf (b, s) (b2, s2)" by (rule monitor_step.round) simp
  moreover have "length b2 = BUFLEN" using c(2) r(2) \<open>length ?l < length b1\<close> by simp
  ultimately show ?thesis using c(3) r(6,7,9) by (auto simp: shown_def round_text_def)
qed

lemma monitor_steps_lines:
  "quiet io \<Longrightarrow> con_ok s \<Longrightarrow> ring_ok s \<Longrightarrow> length b = BUFLEN \<Longrightarrow>
    waiting s = concat (map (\<lambda>(ks, e). ks @ [e]) ls) @ rest \<Longrightarrow>
    \<forall>(ks, e)\<in>set ls. set ks \<inter> {0, 10, 13} = {} \<and> e \<in> {10, 13} \<Longrightarrow>
    frames (imem img) ebp ps \<Longrightarrow> list_all2 (frame_site img) ps sts \<Longrightarrow>
    \<exists>b' s'. (monitor_step io sy img ebp tf ^^ length ls) (b, s) (b', s') \<and> length b' = BUFLEN \<and> waiting s' = rest \<and>
      ring_ok s' \<and> con_ok s' \<and>
      view s' = fold screen_put (concat (map (\<lambda>(ks, e). round_text sy img ps sts ks) ls)) (view s)"
proof (induction ls arbitrary: b s)
  case Nil
  then show ?case by auto
next
  case (Cons l ls)
  obtain ks e where l: "l = (ks, e)" by (cases l)
  have w: "waiting s = ks @ e # concat (map (\<lambda>(ks, e). ks @ [e]) ls) @ rest" "e \<in> {10, 13}" "set ks \<inter> {0, 10, 13} = {}"
    using Cons.prems(5,6) by (simp_all add: l)
  obtain b1 s1 where 1: "monitor_step io sy img ebp tf (b, s) (b1, s1)" "length b1 = BUFLEN"
    "waiting s1 = concat (map (\<lambda>(ks, e). ks @ [e]) ls) @ rest" "ring_ok s1" "con_ok s1"
    "view s1 = fold screen_put (round_text sy img ps sts ks) (view s)"
    using monitor_step_line [OF Cons.prems(1-4) w Cons.prems(7,8)] by blast
  obtain b2 s2 where 2: "(monitor_step io sy img ebp tf ^^ length ls) (b1, s1) (b2, s2)" "length b2 = BUFLEN"
    "waiting s2 = rest" "ring_ok s2" "con_ok s2"
    "view s2 = fold screen_put (concat (map (\<lambda>(ks, e). round_text sy img ps sts ks) ls)) (view s1)"
    using Cons.IH [OF Cons.prems(1) 1(5,4,2,3) _ Cons.prems(7,8)] Cons.prems(6) by auto
  have "(monitor_step io sy img ebp tf ^^ length (l # ls)) (b, s) (b2, s2)"
    using relpowp_Suc_I2 [OF 1(1) 2(1)] by simp
  then show ?case using 2 1(6) by (auto simp: l)
qed

lemma monitor_loop_waits:
  assumes "quiet io" "con_ok s" "ring_ok s" "length b = BUFLEN" "set (waiting s) \<inter> {0, 10, 13} = {}"
  shows "monitor_loop io sy img ebp tf b s = Some (Inl NoReturn)"
  using readline_waits [OF assms(1-3,5,4) prompt_text(2)]
  by (subst monitor_loop.simps) (simp add: monitor_round_def)

text \<open>The monitor does not return, although its loop has an exit for a command that answers with a
  negative number: no command does.\<close>

lemma monitor_loop_Inl:
  assumes "monitor_loop io sy img ebp tf b s = Some r"
  shows "\<exists>e. r = Inl e"
proof (rule monitor_loop.raw_induct [OF _ assms], goal_cases)
  case (1 ml io sy img ebp tf b s r)
  have "n = 0" if "monitor_round io sy img ebp tf b s = Inr (n, b', s')" for n b' s'
    using that by (auto simp: monitor_round_def bindR_eq_Inr dest: runcmd_zero split: if_splits)
  then show ?case using 1 by (auto split: sum.splits prod.splits if_splits)
qed

lemma monitor_does_not_return: "monitor io sy img ebp tf b s \<noteq> Inr x"
proof -
  have "joinR (monitor_loop io sy img ebp tf b t) \<noteq> Inr y" for t y
    using monitor_loop_Inl [of io sy img ebp tf b t] by (cases "monitor_loop io sy img ebp tf b t") auto
  then show ?thesis by (auto simp: monitor_def bindR_eq_Inr)
qed

section \<open>Properties\<close>

text \<open>C19. The monitor serves the lines that are typed, one after the other, however many are waiting, as long
  as no more input arrives and the stack it would trace back has known frames. Each complete line
  is one round of its loop: the prompt, the echo of the keys, a newline and the answer to the edited
  line (the list of commands, the symbols, the backtrace, a complaint about an unknown command or
  too many words, or nothing for a blank line) appear on the screen, the keys of that line and no
  others are consumed, and the loop goes on in the state this leaves. No round faults, none ends
  the loop. When only an unfinished line is left, the monitor waits for ever.\<close>

theorem monitor_serves_lines:
  assumes "quiet io" "con_ok s" "ring_ok s" "length b = BUFLEN"
    "waiting s = concat (map (\<lambda>(ks, e). ks @ [e]) ls) @ rest"
    "\<forall>(ks, e)\<in>set ls. set ks \<inter> {0, 10, 13} = {} \<and> e \<in> {10, 13}"
    "frames (imem img) ebp ps" "list_all2 (frame_site img) ps sts"
  shows "\<exists>b' s'. (monitor_step io sy img ebp tf ^^ length ls) (b, s) (b', s') \<and> waiting s' = rest \<and>
    length b' = BUFLEN \<and> ring_ok s' \<and> con_ok s' \<and>
    view s' = fold screen_put (concat (map (\<lambda>(ks, e).
      asc ''K> '' @ echoed [] ks @ [10] @ answer_text sy img ps sts (foldl edit_key [] ks)) ls)) (view s) \<and>
    monitor_loop io sy img ebp tf b s = monitor_loop io sy img ebp tf b' s' \<and>
    (set rest \<inter> {0, 10, 13} = {} \<longrightarrow> monitor_loop io sy img ebp tf b s = Some (Inl NoReturn))"
proof -
  obtain b' s' where r: "(monitor_step io sy img ebp tf ^^ length ls) (b, s) (b', s')" "length b' = BUFLEN"
    "waiting s' = rest" "ring_ok s'" "con_ok s'"
    "view s' = fold screen_put (concat (map (\<lambda>(ks, e). round_text sy img ps sts ks) ls)) (view s)"
    using monitor_steps_lines [OF assms] by blast
  show ?thesis
    using r monitor_loop_steps [OF r(1)] monitor_loop_waits [OF assms(1) r(5,4,2), of sy img ebp tf]
    by (intro exI [of _ b'] exI [of _ s']) (simp add: round_text_def)
qed

text \<open>
  Two lines and the beginning of a third: the list of commands, and a word that is no command, typed with a
  backspace.
\<close>

definition typed_keys :: "u8 list" where
  "typed_keys = bytes ''help'' @ [13] @ [102, 111, 8, 112] @ [13] @ bytes ''ba''"

definition typing_console :: "u8 console" where
  "typing_console = fold cons_store (map ucast typed_keys) small_console"

lemma typing_console: "ring_ok typing_console" "con_ok typing_console" "view typing_console = view small_console"
  "waiting typing_console = typed_keys"
proof -
  have s: "con_ok (fold cons_store cs c) = con_ok c" "view (fold cons_store cs c) = view c" for cs and c :: "u8 console"
    by (induction cs arbitrary: c) (simp_all add: store_screen)
  have "length (waiting small_console) + length (map ucast typed_keys :: u32 list) \<le> 511"
    by (simp add: small_console_ok typed_keys_def bytes_def)
  from cq.puts [OF small_console_ok(1) this]
  show "ring_ok typing_console" "waiting typing_console = typed_keys"
    by (simp_all add: typing_console_def small_console_ok comp_def ucast_ucast8)
  show "con_ok typing_console" "view typing_console = view small_console"
    by (simp_all add: typing_console_def s small_console_ok)
qed

theorem monitor_serves_lines_witness:
  "monitor_loop still_ports small_ksyms demo_image 0xF010FF00 0 (replicate BUFLEN 0) typing_console = Some (Inl NoReturn) \<and>
   (\<exists>b' s'. (monitor_step still_ports small_ksyms demo_image 0xF010FF00 0 ^^ 2) (replicate BUFLEN 0, typing_console) (b', s') \<and>
     waiting s' = bytes ''ba'' \<and> view s' = fold screen_put
       (asc ''K> help'' @ [10] @ asc ''help - Display this list of commands'' @ [10] @
        asc ''kerninfo - Display information about the kernel'' @ [10] @
        asc ''backtrace - Display stack backtrace information'' @ [10] @
        asc ''K> fo'' @ [8] @ asc ''p'' @ [10] @ asc ''Unknown command '' @ [39] @ asc ''fp'' @ [39, 10]) (view small_console))"
proof -
  let ?ls = "[(bytes ''help'', 13), ([102, 111, 8, 112], 13 :: u8)]"
  have q: "quiet still_ports" by (simp add: quiet_def still_ports_def)
  have w: "waiting typing_console = concat (map (\<lambda>(ks, e). ks @ [e]) ?ls) @ bytes ''ba''"
    by (simp add: typing_console typed_keys_def)
  have k: "\<forall>(ks, e)\<in>set ?ls. set ks \<inter> {0, 10, 13} = {} \<and> e \<in> {10, 13}" "set (bytes ''ba'') \<inter> {0, 10, 13} = {}"
    by (simp_all add: bytes_def)
  have l: "foldl edit_key [] (bytes ''help'') = bytes ''help''" "foldl edit_key [] [102, 111, 8, 112] = bytes ''fp''"
    by (simp_all add: edit_key_def bytes_def)
  have e: "echoed [] (bytes ''help'') = asc ''help''" "echoed [] [102, 111, 8, 112] = asc ''fo'' @ [8] @ asc ''p''"
    by (simp_all add: edit_key_def echo_key_def bytes_def asc_def)
  have "words (bytes ''help'') = [bytes ''help'']" "words (bytes ''fp'') = [bytes ''fp'']"
    by (simp_all add: bytes_def words.simps is_ws_def WHITESPACE_def)
  then have a: "answer_text sy img ps sts (bytes ''help'') = help_text"
    "answer_text sy img ps sts (bytes ''fp'') = asc ''Unknown command '' @ [39] @ asc ''fp'' @ [39, 10]" for sy img ps sts
    by (simp_all add: answer_text_def) (simp_all add: bytes_def asc_def)
  have p: "asc ''K> help'' = asc ''K> '' @ asc ''help''" "asc ''K> fo'' = asc ''K> '' @ asc ''fo''"
    by (simp_all add: asc_def bytes_def)
  let ?out = "\<lambda>(ks, e). asc ''K> '' @ echoed [] ks @ [10] @
    answer_text small_ksyms demo_image [0xF010FF00, 0xF010FF80] [Some ([107, 46, 99], 11, [102], 7), None] (foldl edit_key [] ks)"
  have o: "concat (map ?out ?ls) = asc ''K> help'' @ [10] @ asc ''help - Display this list of commands'' @ [10] @
      asc ''kerninfo - Display information about the kernel'' @ [10] @
      asc ''backtrace - Display stack backtrace information'' @ [10] @
      asc ''K> fo'' @ [8] @ asc ''p'' @ [10] @ asc ''Unknown command '' @ [39] @ asc ''fp'' @ [39, 10]"
    by (simp add: l e a help_text_def p del: echoed.simps foldl_Cons)
  have b: "length (replicate BUFLEN (0 :: u8)) = BUFLEN" by simp
  obtain b' s' where r: "(monitor_step still_ports small_ksyms demo_image 0xF010FF00 0 ^^ length ?ls) (replicate BUFLEN 0, typing_console) (b', s')"
    "waiting s' = bytes ''ba''" "view s' = fold screen_put (concat (map ?out ?ls)) (view typing_console)"
    "monitor_loop still_ports small_ksyms demo_image 0xF010FF00 0 (replicate BUFLEN 0) typing_console = Some (Inl NoReturn)"
    using monitor_serves_lines [OF q typing_console(2,1) b w k(1) demo_stack, of small_ksyms 0] k(2)
    by (elim exE conjE) (rule that, assumption+, blast)
  have "length ?ls = 2" by simp
  then show ?thesis using r(1,2,4) r(3) [unfolded o typing_console(3)] by metis
qed

end
