(* ===== verification/Init.thy ===== *)
theory Init
  imports Monitor_Session Mem_Init
begin

text \<open>
  kern/init.c: \<open>i386_init\<close>, the first C code of the kernel, \<open>_panic\<close> and \<open>_warn\<close>. The kernel's
  state is that of the memory manager and that of the console, with the buffer of \<open>readline\<close> and
  \<open>panicstr\<close>. What the linker and the machine provide is a record: the I/O ports,
  whether there is a colour display, the CMOS, the linker's symbols, the kernel image, the frame
  pointer the monitor finds, and the address of \<open>bootstack\<close>.
\<close>

section \<open>State\<close>

record 'd machine =
  ports_of :: "'d ports"
  colour :: bool
  cmos :: "u8 \<Rightarrow> u8"
  syms :: ksyms
  kernel_image :: kimage
  frame :: u32
  bootstack_addr :: u32

record 'd kernel =
  vm :: kstate
  con :: "'d console"
  line_buf :: "u8 list"
  panicstr :: "u8 list option"

section \<open>The monitor, over and over\<close>

text \<open>\<open>while (1) monitor(NULL);\<close>\<close>

partial_function (option) monitor_forever :: "'d machine \<Rightarrow> 'd kernel \<Rightarrow> unit result option" where
  "monitor_forever h k =
     (case monitor (ports_of h) (syms h) (kernel_image h) (frame h) 0 (line_buf k) (con k) of
        Inl e \<Rightarrow> Some (Inl e)
      | Inr (b, s) \<Rightarrow> monitor_forever h (k\<lparr>line_buf := b, con := s\<rparr>))"

section \<open>_warn and _panic\<close>

text \<open>The three calls that print a message: the heading, the message, a newline.\<close>

definition warn :: "'d machine \<Rightarrow> u8 list \<Rightarrow> u32 \<Rightarrow> u8 list \<Rightarrow> va list \<Rightarrow> 'd kernel \<Rightarrow> 'd kernel result" where
  "warn h file line fmt ap k =
     bindR (cprintf (ports_of h) (bytes ''kernel warning at %s:%d: '') [VStr (Some file), VWord line] (con k)) (\<lambda>(_, s).
     bindR (vcprintf (ports_of h) fmt ap s) (\<lambda>(_, s).
     bindR (cprintf (ports_of h) [10] [] s) (\<lambda>(_, s). Inr (k\<lparr>con := s\<rparr>))))"

text \<open>\<open>_panic\<close> up to \<open>dead\<close>.\<close>

definition panic_message :: "'d machine \<Rightarrow> u8 list \<Rightarrow> u32 \<Rightarrow> u8 list \<Rightarrow> va list \<Rightarrow> 'd kernel \<Rightarrow> 'd kernel result" where
  "panic_message h file line fmt ap k =
     (if panicstr k \<noteq> None then Inr k
      else let k = k\<lparr>panicstr := Some fmt\<rparr>
           in bindR (cprintf (ports_of h) (bytes ''kernel panic at %s:%d: '') [VStr (Some file), VWord line] (con k)) (\<lambda>(_, s).
              bindR (vcprintf (ports_of h) fmt ap s) (\<lambda>(_, s).
              bindR (cprintf (ports_of h) [10] [] s) (\<lambda>(_, s). Inr (k\<lparr>con := s\<rparr>)))))"

definition panic :: "'d machine \<Rightarrow> u8 list \<Rightarrow> u32 \<Rightarrow> u8 list \<Rightarrow> va list \<Rightarrow> 'd kernel \<Rightarrow> unit result" where
  "panic h file line fmt ap k =
     bindR (panic_message h file line fmt ap k) (\<lambda>k. joinR (monitor_forever h k))"

section \<open>mem_init and what it prints\<close>

text \<open>
  \<open>mem_init\<close> on the whole kernel: the steps of \<open>Kern_Check.mem_init\<close> on the memory manager and, between them,
  the line of \<open>i386_detect_memory\<close> and the last lines of the checking functions on the console.
\<close>

definition on_vm :: "(kstate \<Rightarrow> kstate result) \<Rightarrow> 'd kernel \<Rightarrow> 'd kernel result" where
  "on_vm f k = bindR (f (vm k)) (\<lambda>v. Inr (k\<lparr>vm := v\<rparr>))"

definition print_line :: "'d machine \<Rightarrow> u8 list \<Rightarrow> va list \<Rightarrow> 'd kernel \<Rightarrow> 'd kernel result" where
  "print_line h fmt ap k = bindR (cprintf (ports_of h) fmt ap (con k)) (\<lambda>(_, s). Inr (k\<lparr>con := s\<rparr>))"

definition memory_fmt :: "u8 list" where
  "memory_fmt = bytes ''Physical memory: %uK available, base = %uK, extended = %uK'' @ [10]"

text \<open>\<open>totalmem\<close>, \<open>basemem\<close> and \<open>totalmem - basemem\<close> of \<open>i386_detect_memory\<close>, in kilobytes.\<close>

definition memory_sizes :: "(u8 \<Rightarrow> u8) \<Rightarrow> u32 list" where
  "memory_sizes m =
     (let basemem = nvram_read m NVRAM_BASELO;
          extmem = nvram_read m NVRAM_EXTLO;
          ext16mem = nvram_read m NVRAM_EXT16LO * 64;
          totalmem =
            (if ext16mem \<noteq> 0 then 16 * 1024 + ext16mem
             else if extmem \<noteq> 0 then 1 * 1024 + extmem
             else basemem)
      in [totalmem, basemem, totalmem - basemem])"

definition succeeded :: "'d machine \<Rightarrow> string \<Rightarrow> 'd kernel \<Rightarrow> 'd kernel result" where
  "succeeded h f = print_line h (bytes f @ bytes ''() succeeded!'' @ [10]) []"

definition kernel_mem_init :: "'d machine \<Rightarrow> 'd kernel \<Rightarrow> 'd kernel result" where
  "kernel_mem_init h k =
     (let kend = end_sym (syms h); bootstack = bootstack_addr h in
     bindR (print_line h memory_fmt (map VWord (memory_sizes (cmos h))) (k\<lparr>vm := i386_detect_memory (cmos h) (vm k)\<rparr>)) (\<lambda>k.
     bindR (on_vm (make_pgdir kend) k) (\<lambda>k.
     bindR (on_vm (make_pages kend) k) (\<lambda>k.
     bindR (on_vm (\<lambda>s. joinR (page_init kend s)) k) (\<lambda>k.
     bindR (on_vm (check_page_free_list kend True) k) (\<lambda>k.
     bindR (succeeded h ''check_page_free_list'' k) (\<lambda>k.
     bindR (on_vm check_page_alloc k) (\<lambda>k.
     bindR (succeeded h ''check_page_alloc'' k) (\<lambda>k.
     bindR (on_vm check_page k) (\<lambda>k.
     bindR (succeeded h ''check_page'' k) (\<lambda>k.
     bindR (on_vm (map_kernel bootstack) k) (\<lambda>k.
     bindR (check_kern_pgdir bootstack (vm k)) (\<lambda>_.
     bindR (succeeded h ''check_kern_pgdir'' k) (\<lambda>k.
     bindR (PADDR (kern_pgdir (vm k))) (\<lambda>pa.
     bindR (on_vm (\<lambda>s. check_page_free_list kend False (lcr3 pa s)) k) (\<lambda>k.
     bindR (succeeded h ''check_page_free_list'' k) (\<lambda>k.
     bindR (on_vm (\<lambda>s. check_page_installed_pgdir (set_cr0 s)) k) (\<lambda>k.
       succeeded h ''check_page_installed_pgdir'' k))))))))))))))))))"

section \<open>i386_init\<close>

text \<open>
  \<open>memset(edata, 0, end - edata)\<close> clears the memory of the uninitialised variables: in the model the
  bytes of that memory and the variables that have fields of their own.
\<close>

definition clear_bss :: "'d machine \<Rightarrow> 'd kernel \<Rightarrow> 'd kernel" where
  "clear_bss h k = k\<lparr>
     vm := (vm k)\<lparr>kmem := memset (kmem (vm k)) (edata (syms h)) 0 (end_sym (syms h) - edata (syms h)),
       npages := 0, npages_basemem := 0, kern_pgdir := 0, pages := [], pages_va := 0,
       page_free_list := None, nextfree := 0\<rparr>,
     con := (con k)\<lparr>serial_exists := False, addr_6845 := 0, crt_buf := 0, crt_pos := 0, kbd_shift := 0,
       cons_buf := replicate (unat CONSBUFSIZE) 0, cons_rpos := 0, cons_wpos := 0\<rparr>,
     line_buf := replicate BUFLEN 0, panicstr := None\<rparr>"

definition i386_init :: "'d machine \<Rightarrow> 'd kernel \<Rightarrow> unit result" where
  "i386_init h k =
     (let k = clear_bss h k
      in bindR (cons_init (colour h) (ports_of h) (con k)) (\<lambda>s.
         bindR (cprintf (ports_of h) (bytes ''6828 decimal is %o octal!'' @ [10]) [VWord 6828] s) (\<lambda>(_, s).
         bindR (kernel_mem_init h (k\<lparr>con := s\<rparr>)) (\<lambda>k.
           joinR (monitor_forever h k)))))"

section \<open>Messages\<close>

text \<open>The heading of a message.\<close>

lemma heading_format:
  assumes "h = bytes ''kernel panic at '' \<or> h = bytes ''kernel warning at ''" "0 \<notin> set file"
  shows "format (h @ bytes ''%s:%d: '') [VStr (Some file), VWord line] =
    Inr (map ucast h @ map scast file @ [58] @ decimal line @ [58, 32])"
proof -
  have "set h \<inter> {0, 37} = {}" using assms(1) by (auto simp: bytes_def)
  then have "format (h @ bytes ''%s:%d: '') [VStr (Some file), VWord line] =
      Inr (pieces_text [Lit h, Str file, Lit [58], Dec line, Lit [58, 32]])"
    using assms(2) by (intro format_pieces) (simp_all add: piece_simps)
  then show ?thesis by (simp add: piece_simps)
qed

lemma format_newline: "format [10] [] = Inr [10]"
  using format_plain [of "[10]"] by simp

text \<open>The three calls that print a heading, a message and a newline.\<close>

lemma message_view:
  assumes "con_ok s" "format fmt ap = Inr out" "0 \<notin> set file"
    "h = bytes ''kernel panic at '' \<or> h = bytes ''kernel warning at ''"
  shows "\<exists>s'. bindR (cprintf io (h @ bytes ''%s:%d: '') [VStr (Some file), VWord line] s) (\<lambda>(_, s).
      bindR (vcprintf io fmt ap s) (\<lambda>(_, s). bindR (cprintf io [10] [] s) (\<lambda>(_, s). Inr s))) = Inr s' \<and> con_ok s' \<and>
    view s' = fold screen_put ((map ucast h @ map scast file @ [58] @ decimal line @ [58, 32]) @ out @ [10]) (view s)"
proof -
  obtain n1 s1 where 1: "vcprintf io (h @ bytes ''%s:%d: '') [VStr (Some file), VWord line] s = Inr (n1, s1)"
    "view s1 = fold screen_put (map ucast h @ map scast file @ [58] @ decimal line @ [58, 32]) (view s)" "con_ok s1"
    using print_view [OF assms(1) heading_format [OF assms(4,3)]] by blast
  obtain n2 s2 where 2: "vcprintf io fmt ap s1 = Inr (n2, s2)" "view s2 = fold screen_put out (view s1)" "con_ok s2"
    using print_view [OF 1(3) assms(2)] by blast
  obtain n3 s3 where 3: "vcprintf io [10] [] s2 = Inr (n3, s3)" "view s3 = fold screen_put [10] (view s2)" "con_ok s3"
    using print_view [OF 2(3) format_newline] by blast
  show ?thesis
    unfolding cprintf_def using 1 2 3 by (intro exI [of _ s3]) simp
qed

lemma headings: "bytes ''kernel panic at %s:%d: '' = bytes ''kernel panic at '' @ bytes ''%s:%d: ''"
  "bytes ''kernel warning at %s:%d: '' = bytes ''kernel warning at '' @ bytes ''%s:%d: ''"
  by (simp_all add: bytes_def)

text \<open>C29. A panic prints its heading with file and line, the formatted message and a newline, and records
  the format in panicstr; a panic after that prints nothing more.\<close>

theorem panic_prints_once:
  assumes "con_ok (con k)" "format fmt ap = Inr out" "0 \<notin> set file" "panicstr k = None"
  shows "\<exists>k'. panic_message h file line fmt ap k = Inr k' \<and> panicstr k' = Some fmt \<and>
    view (con k') = fold screen_put (map ucast (bytes ''kernel panic at '') @ map scast file @ [58] @ decimal line @
      [58, 32] @ out @ [10]) (view (con k)) \<and>
    (\<forall>file' line' fmt' ap'. panic_message h file' line' fmt' ap' k' = Inr k')"
proof -
  obtain s' where s: "bindR (cprintf (ports_of h) (bytes ''kernel panic at '' @ bytes ''%s:%d: '') [VStr (Some file), VWord line] (con k))
      (\<lambda>(_, s). bindR (vcprintf (ports_of h) fmt ap s) (\<lambda>(_, s). bindR (cprintf (ports_of h) [10] [] s) (\<lambda>(_, s). Inr s))) = Inr s'"
    "view s' = fold screen_put ((map ucast (bytes ''kernel panic at '') @ map scast file @ [58] @ decimal line @ [58, 32])
      @ out @ [10]) (view (con k))"
    using message_view [OF assms(1-3)] by blast
  have "panic_message h file line fmt ap k = Inr (k\<lparr>panicstr := Some fmt, con := s'\<rparr>)"
    using s(1) assms(4) by (auto simp: panic_message_def headings bindR_eq_Inr)
  then show ?thesis using s(2) by (auto simp: panic_message_def)
qed

lemma small_console_fmt: "format (bytes ''%d'') [VWord 7] = Inr [55]"
proof -
  have "digits 10 7 = [7]" by (simp add: digits.simps)
  then show ?thesis using format_decimal [of 7] by (simp add: digit_chr_def hex_digits_def)
qed

definition small_kernel :: "u8 kernel" where
  "small_kernel = \<lparr>vm = test_machine, con = small_console, line_buf = replicate BUFLEN 0, panicstr = None\<rparr>"

definition demo_machine :: "u8 machine" where
  "demo_machine = \<lparr>ports_of = still_ports, colour = True, cmos = (\<lambda>_. 0), syms = small_ksyms,
     kernel_image = small_image, frame = 0, bootstack_addr = 0xF010A000\<rparr>"

theorem panic_prints_once_witness:
  "\<exists>k'. panic_message demo_machine (bytes ''kern/pmap.c'') 110 (bytes ''%d'') [VWord 7] small_kernel = Inr k' \<and>
    panicstr k' = Some (bytes ''%d'')"
proof -
  have "0 \<notin> set (bytes ''kern/pmap.c'')" by (simp add: bytes_def)
  moreover have "con_ok (con small_kernel)" "panicstr small_kernel = None"
    using small_console_ok(3) by (simp_all add: small_kernel_def)
  ultimately show ?thesis using panic_prints_once [OF _ small_console_fmt, of small_kernel] by blast
qed

section \<open>The kernel does not come back\<close>

text \<open>
  \<open>while (1) monitor(NULL)\<close> starts one monitor: none of them returns, so what the kernel does after
  its start, and after a panic, is one session of the monitor.
\<close>

lemma monitor_forever_once:
  "joinR (monitor_forever h k) =
    bindR (monitor (ports_of h) (syms h) (kernel_image h) (frame h) 0 (line_buf k) (con k)) (\<lambda>_. Inr ())"
  using monitor_does_not_return [of "ports_of h" "syms h" "kernel_image h" "frame h" 0 "line_buf k" "con k"]
  by (subst monitor_forever.simps) (cases "monitor (ports_of h) (syms h) (kernel_image h) (frame h) 0 (line_buf k) (con k)", auto)

end
