(* ===== verification/Kernel_Boot.thy ===== *)
theory Kernel_Boot
  imports Init
begin

text \<open>
  \<open>i386_init\<close> as a whole: the console comes up, the kernel prints its first line, the memory manager is
  initialised, and the monitor starts on a kernel whose invariants hold.
\<close>

section \<open>The first line\<close>




section \<open>The lines of mem_init\<close>













section \<open>The console\<close>









section \<open>i386_init\<close>





end
