(* ===== verification/Console_Type.thy ===== *)
theory Console_Type
  imports Readline Console_Properties
begin

text \<open>
  Well-formed console states: the buffer of input characters has its 512 bytes and both positions inside it,
  and the cursor is on the screen. Every operation of kern/console.c and kern/printf.c keeps a state
  well-formed, and none ends in a fault of its own.
\<close>

definition console_wf :: "'d console \<Rightarrow> bool" where
  "console_wf s \<longleftrightarrow> ring_ok s \<and> con_ok s"

text \<open>A result that is well-formed unless the call did not come back.\<close>

definition wf_result :: "('x \<Rightarrow> 'd console) \<Rightarrow> 'x result \<Rightarrow> bool" where
  "wf_result f r \<longleftrightarrow> (case r of Inl e \<Rightarrow> e = NoReturn | Inr x \<Rightarrow> console_wf (f x))"

lemma wf_result_simps [simp]: "wf_result f (Inl e) \<longleftrightarrow> e = NoReturn" "wf_result f (Inr x) \<longleftrightarrow> console_wf (f x)"
  by (simp_all add: wf_result_def)

lemma wf_bind: "wf_result f r \<Longrightarrow> (\<And>x. console_wf (f x) \<Longrightarrow> wf_result g (h x)) \<Longrightarrow> wf_result g (bindR r h)"
  by (cases r) simp_all

lemma wf_dev [simp]: "console_wf (s\<lparr>dev := d\<rparr>) = console_wf s" "console_wf (s\<lparr>kbd_shift := k\<rparr>) = console_wf s"
  "console_wf (s\<lparr>serial_exists := b\<rparr>) = console_wf s"
  by (simp_all add: console_wf_def ring_ok_def con_ok_def)

lemma wf_ports [simp]: "console_wf (con_out io p v s) = console_wf s" "console_wf (snd (con_in io p s)) = console_wf s"
  by (simp_all add: con_out_def con_in_def split_beta)

lemma wf_cputchar: "console_wf s \<Longrightarrow> console_wf (cputchar io c s)"
  using echo_same [of s io c] by (simp add: console_wf_def)

lemma wf_fold_cputchar: "console_wf s \<Longrightarrow> console_wf (fold (cputchar io) out s)"
  using fold_cputchar_same [of s io out] by (simp add: console_wf_def)

lemma wf_vcprintf:
  assumes "console_wf s" "format fmt ap = Inr out" shows "wf_result snd (vcprintf io fmt ap s)"
  using assms wf_fold_cputchar [of s io out] by (simp add: vcprintf_def vprintfmt_format fold_putch)

lemma wf_store: "console_wf s \<Longrightarrow> console_wf (cons_store c s)"
  using store_ok [of s c] by (simp add: console_wf_def) (simp add: cons_store_def Let_def con_ok_def)

lemma wf_fetch:
  assumes "console_wf s" shows "console_wf (snd (cons_fetch s))"
proof (cases "waiting s")
  case Nil
  then show ?thesis using assms fetch_none [of s] by (simp add: console_wf_def)
next
  case (Cons x xs)
  then obtain s' where "cons_fetch s = (ucast x, s')" "ring_ok s'" using assms fetch_front [of s x xs] by (auto simp: console_wf_def)
  then show ?thesis using assms cons_fetch_screen(2) [of s] by (simp add: console_wf_def)
qed

section \<open>Input\<close>

lemma reboot_format: "format (bytes ''Rebooting!'' @ [10]) [] = Inr (map ucast (bytes ''Rebooting!'' @ [10]))"
  by (rule format_plain) (simp add: bytes_def)

lemma wf_kbd_proc: "console_wf s \<Longrightarrow> wf_result snd (kbd_proc_data io s)"
  unfolding kbd_proc_data_def Let_def cprintf_def
  by (auto simp: split_beta intro!: wf_bind [OF wf_vcprintf [OF _ reboot_format]])

lemma wf_serial_proc: "console_wf s \<Longrightarrow> wf_result snd (serial_proc_data io s)"
  by (auto simp: serial_proc_data_def Let_def split_beta)

lemma wf_cons_intr:
  assumes "cons_intr proc s = Some r"
  shows "(\<forall>s. console_wf s \<longrightarrow> wf_result snd (proc s)) \<longrightarrow> console_wf s \<longrightarrow> wf_result (\<lambda>s. s) r"
proof (rule cons_intr.raw_induct [OF _ assms], goal_cases)
  case (1 ci proc s r)
  note IH = 1(1) and ci = 1(2)
  show ?case
  proof (intro impI)
    assume h: "\<forall>s. console_wf s \<longrightarrow> wf_result snd (proc s)" "console_wf s"
    then have p: "wf_result snd (proc s)" by blast
    consider e where "proc s = Inl e" | c t where "proc s = Inr (c, t)" "console_wf t" "console_wf (cons_store c t)"
      using p wf_store by (cases "proc s") (auto, blast)
    then show "wf_result (\<lambda>s. s) r"
    proof cases
      case 1
      then show ?thesis using ci p by auto
    next
      case 2
      consider "c = -1" | "c = 0" | "c \<noteq> -1" "c \<noteq> 0" by blast
      then show ?thesis by cases (use 2 ci IH h(1) in auto)
    qed
  qed
qed

lemma wf_join_intr: "\<forall>s. console_wf s \<longrightarrow> wf_result snd (proc s) \<Longrightarrow> console_wf s \<Longrightarrow> wf_result (\<lambda>s. s) (joinR (cons_intr proc s))"
  using wf_cons_intr [of proc s] by (cases "cons_intr proc s") auto

lemma wf_intr: "console_wf s \<Longrightarrow> wf_result (\<lambda>s. s) (serial_intr io s)" "console_wf s \<Longrightarrow> wf_result (\<lambda>s. s) (kbd_intr io s)"
  using wf_join_intr [of "serial_proc_data io" s] wf_join_intr [of "kbd_proc_data io" s] wf_serial_proc wf_kbd_proc
  by (auto simp: serial_intr_def kbd_intr_def)

lemma wf_cons_getc: "console_wf s \<Longrightarrow> wf_result snd (cons_getc io s)"
  unfolding cons_getc_def by (intro wf_bind [OF wf_intr(1)] wf_bind [OF wf_intr(2)]) (auto simp: wf_fetch)

lemma wf_getchar:
  assumes "getchar io s = Some r" shows "console_wf s \<longrightarrow> wf_result snd r"
proof (rule getchar.raw_induct [OF _ assms], goal_cases)
  case (1 gc io s r)
  show ?case
  proof
    assume "console_wf s"
    then have p: "wf_result snd (cons_getc io s)" by (rule wf_cons_getc)
    consider e where "cons_getc io s = Inl e" | c t where "cons_getc io s = Inr (c, t)" "console_wf t"
      using p by (cases "cons_getc io s") auto
    then show "wf_result snd r" proof cases
      case c: 2
      then show ?thesis using 1 p by (cases "c = 0") auto
    qed (use 1(2) p in auto)
  qed
qed

section \<open>The invariant\<close>

text \<open>C16. The console's state stays well-formed: if the input buffer has its 512 bytes with both positions
  inside it and the cursor is on the screen, then cputchar, the two interrupt handlers, cons_getc,
  getchar and formatted output (everything after cons_init) leave it so, and none ends in a fault; the only other outcome is not coming back, when a device never runs dry or no key
  is ever pressed. Formatted output fails only where the arguments do not fit the format.\<close>

theorem console_stays_wf:
  assumes "console_wf s"
  shows "console_wf (cputchar io c s) \<and> wf_result (\<lambda>s. s) (serial_intr io s) \<and> wf_result (\<lambda>s. s) (kbd_intr io s) \<and>
    wf_result snd (cons_getc io s) \<and> wf_result snd (joinR (getchar io s)) \<and>
    (case vcprintf io fmt ap s of Inl e \<Rightarrow> format fmt ap = Inl e | Inr (n, s') \<Rightarrow> console_wf s')"
proof (intro conjI)
  show "wf_result snd (joinR (getchar io s))"
    using wf_getchar [of io s] assms by (cases "getchar io s") auto
  show "case vcprintf io fmt ap s of Inl e \<Rightarrow> format fmt ap = Inl e | Inr (n, s') \<Rightarrow> console_wf s'"
    using assms wf_fold_cputchar [of s io] by (cases "format fmt ap") (auto simp: vcprintf_def vprintfmt_format fold_putch)
qed (use assms wf_cputchar wf_intr wf_cons_getc in blast)+

theorem console_stays_wf_witness:
  "console_wf (cputchar still_ports 65 small_console) \<and> wf_result snd (cons_getc still_ports small_console)"
  using console_stays_wf [of small_console still_ports 65] by (simp add: console_wf_def ring_ok_def con_ok_def small_console_def)

end
