(* ===== verification/Spec2Isabelle.thy ===== *)
theory Spec2Isabelle
  imports Mmu_Access Console_Properties Keyboard Text_Properties Entry_Pgdir
    Boot_Start Kernel_Entry Kernel_Boot Console_Type
begin

text \<open>
  A verification of JOS, a teaching kernel for the 32-bit x86 (lab 2: memory management), from its boot
  loader to the kernel monitor.

  \<^bold>\<open>The program.\<close> The boot loader switches to protected mode (boot/boot.S), reads the kernel's ELF image
  from disk (boot/main.c) and jumps to it. The kernel turns paging on (kern/entry.S) with the page tables
  of kern/entrypgdir.c; \<open>i386_init\<close> (kern/init.c) clears its
  variables, initialises the console (kern/console.c) and calls \<open>mem_init\<close> (kern/pmap.c), which finds
  out how much memory there is, allocates a page directory and the array \<open>pages\<close> with \<open>boot_alloc\<close>,
  builds the free list of physical pages, tests the allocator and the page table operations, maps the
  kernel part of the address space and tests the result. Then the monitor (kern/monitor.c) reads
  commands with \<open>readline\<close> (lib/readline.c). Everything is printed with \<open>cprintf\<close> (kern/printf.c)
  through \<open>vprintfmt\<close> (lib/printfmt.c); lib/string.c has the string functions, kern/kdebug.c
  finds the source line of an address for the backtrace.

  \<^bold>\<open>How it is modelled.\<close> Machine integers are words of their width. C functions are HOL functions that
  take and return the state they change. A panic, an access through a null or wild pointer, a wrong
  variable argument and a loop that does not end are values of \<open>fault\<close>, and a function that can end
  so returns \<open>fault + 'a\<close> (\<open>result\<close>). Loops that always end are \<open>fun\<close> or \<open>function\<close> with a measure, all others
  \<open>partial_function (option)\<close>, where \<open>None\<close> stands for not returning; no fuel is used anywhere. Memory is
  a map from 32-bit addresses to bytes. Arrays the C code indexes through pointers of their own type
  (\<open>pages\<close>, the STABS table, the buffers of the console and of \<open>readline\<close>) are lists, and
  their elements are named by index. An access outside \<open>pages\<close>, the STABS table or the buffer of \<open>readline\<close> is
  a fault; the keyboard tables, of 256 elements, are functions of a byte; the two positions of the console's input
  buffer stay inside it (\<open>ring_ok\<close>, which every operation after \<open>cons_init\<close> keeps), so its accesses are
  modelled without a fault. What is not in the sources is a
  parameter: the answers of I/O ports (record \<open>ports\<close>), the CMOS, the disk behind its ports
  (hypothesis \<open>ata_disk\<close>), the symbols of the linker, the initial memory.

  \<^bold>\<open>The theories.\<close>

  \<^item> Prelude: machine types, results, bytes and 32-bit accesses, shared lemmas.
  \<^item> Mmu: inc/mmu.h, inc/types.h and inc/memlayout.h, the address macros and the segment and gate
    descriptors with their field lemmas.
  \<^item> Cstring: lib/string.c. \<open>memset\<close> and \<open>memmove\<close> in the x86 version with string instructions and in the
    portable one, and what they do to memory; strings as lists (\<open>cstr\<close>). Text_Properties has its properties.
  \<^item> Phys_Mem: the words of physical pages (\<open>pword\<close>) behind \<open>KERNBASE\<close>.
  \<^item> Page_Alloc: kern/kclock.c and the first half of kern/pmap.c: memory detection, \<open>boot_alloc\<close>, \<open>page_init\<close>,
    \<open>page_alloc\<close>, \<open>page_free\<close>, \<open>page_decref\<close>. The state is the record \<open>kstate\<close>, the globals of kern/pmap.c with
    memory, control registers and translation cache. The invariant is \<open>free_list s xs\<close>: the list of
    free pages is \<open>xs\<close>. The locale \<open>page_source\<close> is the interface the users of pages rely on. Alloc_Properties has
    the properties.
  \<^item> Page_Table: the second half of kern/pmap.c, \<open>pgdir_walk\<close> to \<open>page_lookup\<close>. \<open>vmap\<close> is the abstract
    address space of a page directory, a map from directory and table indices to entries; \<open>vm_inv\<close>
    says that the page tables are pages of their own and that reference counts are exact. Vm_Invariant proves
    that the operations keep it and what they do to \<open>vmap\<close>; Vm_Map states the address space as a
    locale and interprets it on the operations; Boot_Map is \<open>boot_map_region\<close>; Vm_Properties has the
    properties.
  \<^item> Word_Machine: the operations of the two halves of kern/pmap.c on an abstract machine (\<open>wmachine\<close>)
    of free pages, counts and the words of the page tables, which the detailed operations simulate
    (\<open>rep\<close>). Page_Tests and Installed_Test run \<open>check_page\<close> and \<open>check_page_installed_pgdir\<close> on it, statement
    by statement, and prove that they pass.
  \<^item> Kern_Check: the self-tests of kern/pmap.c and \<open>mem_init\<close>. Check_Lists proves that the two tests of the
    allocator pass after \<open>page_init\<close>; Kernel_Map that the kernel's three regions are mapped, pass
    \<open>check_kern_pgdir\<close>, and that \<open>page_init\<close> establishes \<open>vm_inv\<close>. Mem_Init composes them: \<open>mem_init\<close>
    succeeds with all its tests and leaves the kernel's address space (\<open>kernel_space\<close>).
  \<^item> Mmu_Access: loads and stores through the page tables and the translation cache (\<open>vm_read\<close>,
    \<open>vm_write\<close>), after \<open>page_insert\<close>, \<open>page_remove\<close> and \<open>mem_init\<close>, and through the virtual page
    table at \<open>UVPT\<close>. An access may do what both the directory's and the table's entry allow
    (\<open>both_permit\<close>); \<open>vm_inv\<close> says that the entries of the directory leave it to those of the tables.
  \<^item> Entry_Table: the literal rows of kern/entrypgdir.c. Entry_Pgdir: what its tables map.
  \<^item> Printfmt: lib/printfmt.c. Format: the output of a format as a list of characters, and that every call
    ends. Snprintf: the buffer of \<open>vsnprintf\<close>.
  \<^item> Console_Out and Console_In: kern/console.c and kern/printf.c; the state is the record \<open>console\<close>.
    Console_Screen: the display as a screen of 25 lines of 80 cells with a cursor (\<open>view\<close>), which \<open>cputchar\<close>
    refines. Console_Queue: the input buffer as a queue. Console_Type: every operation of the console after
    \<open>cons_init\<close> keeps its arrays and indices in bounds. Console_Properties and Keyboard have the properties.
    Print_Text: a format as a sequence of literal text and conversions, and the text of each.
  \<^item> Readline and Monitor: lib/readline.c and kern/monitor.c. Monitor_Properties: what a typed line becomes, and
    which command it calls with which arguments. Backtrace: the text of a backtrace. Monitor_Session: the
    text of every command, the rounds of the monitor's loop as steps (\<open>monitor_step\<close>), and that it serves
    every line that is typed.
  \<^item> Kdebug: kern/kdebug.c, the binary search and \<open>debuginfo_eip\<close>.
  \<^item> Segments: the descriptors of inc/mmu.h as bytes, in C and in assembly. X86_Instr: the functions of inc/x86.h
    that the other theories do not need.
  \<^item> Bootmain: boot/main.c. Boot_Start: boot/boot.S, up to the call of \<open>bootmain\<close>. Kernel_Entry: kern/entry.S,
    up to the call of \<open>i386_init\<close>.
  \<^item> Init: kern/init.c over all of the above. \<open>kernel_mem_init\<close> is \<open>mem_init\<close> with the lines that it and
    its tests print. Kernel_Boot: \<open>i386_init\<close> reaches the monitor, with these lines on the screen.

  \<^bold>\<open>Bounds.\<close> The memory properties are about machines of at most 256 MB (\<open>0x10000\<close> pages), as much as fits
  between \<open>KERNBASE\<close> and the end of the address space; nothing in the code sees to it. That \<open>mem_init\<close>
  succeeds needs room for what it allocates (\<open>memory_fits\<close>): the kernel with the first directory and the
  array \<open>pages\<close> ends below 4 MB, where the boot page tables end, and 100 more pages follow, of which the
  kernel's page tables take 98. \<open>i386_init\<close> needs the display to report a cursor on the screen. The properties
  of \<open>page_insert\<close> are about addresses below \<open>UTOP\<close> and page counts below 65535, and C ints that index the STABS table are
  integers, because a table of 12-byte entries has too few of them for an overflow.

  \<^bold>\<open>Not modelled.\<close> Of inc/x86.h the breakpoint, the flags register, \<open>lldt\<close>, \<open>ltr\<close> and the time stamp counter,
  and of the headers the task state segment and the constants that nothing in the repository uses. The C
  stack: a call in the assembly to a C function stores nothing but what kern/entry.S needs to be mapped.

  \<^bold>\<open>Simplifications.\<close> \<open>vm_read\<close> and \<open>vm_write\<close> access a 32-bit word through the translation of its first
  byte: they are meant for words that do not cross a page, as the aligned words of the C code never do. They
  are used where paging is on and do not look at \<open>cr0\<close>; its bit \<open>CR0_WP\<close>, which kern/entry.S sets before the
  first store through the page tables, counts as set. The functions of kern/pmap.c access memory (\<open>kmem\<close>)
  directly at the kernel addresses of physical memory, not through the page tables: they have no faults for
  a kernel address that is not mapped, which before \<open>lcr3\<close> of \<open>mem_init\<close> are all from \<open>KERNBASE\<close> + 4 MB on
  (\<open>page_init\<close> puts pages there on the free list, and the first call of \<open>check_page_free_list\<close> moves the mapped
  ones in front of them). C ints whose overflow C leaves undefined: the width and the precision of a
  conversion are unbounded integers, and the value of \<open>strtol\<close> is a 32-bit word that wraps around, which is what
  the machine does; the round trip of the smallest int through \<open>snprintf\<close> and \<open>strtol\<close> rests on it.
  The array \<open>argv\<close> of \<open>runcmd\<close> has only the entries that were set, up to the null pointer behind the last one,
  and the commands do not change the line they point into.
  kern/pmap.c, the console and the debugging information work on memories of their own,
  which the kernel's layout keeps apart. Assertions that a pointer lies on an element of \<open>pages\<close> have no
  counterpart, since pages are named by index. user/sendpage.c and fs/test.c belong to later labs: the
  headers inc/lib.h and fs/fs.h they include and the code they call are not in the repository. The build
  files and grading scripts are not part of the kernel.
\<close>

end
